(* ===== verification/Prelude.thy ===== *)
theory Prelude
  imports Complex_Main "HOL-Library.Word"
begin

section \<open>Shared notions of the development\<close>

text \<open>
  What every component of the model uses: the collections of facts the component
  proofs draw on, counting loops over integers, list slices as JavaScript takes them,
  and a small library on results (a sum type whose left side is the error).
\<close>

named_theorems fb_ok_intros \<open>introduction rules: an operation keeps a framebuffer well formed\<close>
named_theorems pix_simps \<open>what a pixel reads after one framebuffer operation\<close>
named_theorems inv_intros \<open>introduction rules: a step keeps its component's invariant\<close>

subsection \<open>Counting loops\<close>

text \<open>
  \<open>for (let i = a; i < b; i++) s = f(i, s)\<close>.  The loop variable is an integer, the
  loop-carried state is whatever the body threads through.
\<close>

definition for_up :: "int \<Rightarrow> int \<Rightarrow> (int \<Rightarrow> 's \<Rightarrow> 's) \<Rightarrow> 's \<Rightarrow> 's" where
  "for_up a b f s = fold f [a..b - 1] s"

lemma for_up_rec: "for_up a b f s = (if a < b then for_up (a + 1) b f (f a s) else s)"
  unfolding for_up_def by (subst upto.simps) auto

lemma for_up_empty [simp]: "b \<le> a \<Longrightarrow> for_up a b f s = s"
  by (simp add: for_up_def)

lemma fold_inv:
  assumes "P s" and "\<And>x t. x \<in> set xs \<Longrightarrow> P t \<Longrightarrow> P (f x t)"
  shows "P (fold f xs s)"
  using assms by (induction xs arbitrary: s) auto

lemma for_up_inv:
  assumes "P s" and "\<And>i t. a \<le> i \<Longrightarrow> i < b \<Longrightarrow> P t \<Longrightarrow> P (f i t)"
  shows "P (for_up a b f s)"
  unfolding for_up_def by (rule fold_inv) (use assms in auto)

lemma for_up_last: "a \<le> b \<Longrightarrow> for_up a (b + 1) f s = f b (for_up a b f s)"
  by (simp add: for_up_def upto_rec2)

text \<open>
  A counting loop seen through an observation: when every iteration but the one at \<open>k\<close>
  leaves the observation alone, the loop's effect on it is that of iteration \<open>k\<close>.
\<close>

lemma fold_obs_same:
  assumes "\<And>x t. x \<in> set xs \<Longrightarrow> obs (f x t) = obs t"
  shows "obs (fold f xs s) = obs s"
  using assms by (induction xs arbitrary: s) auto

lemma for_up_obs_same:
  assumes "\<And>i t. a \<le> i \<Longrightarrow> i < b \<Longrightarrow> obs (f i t) = obs t"
  shows "obs (for_up a b f s) = obs s"
  unfolding for_up_def by (rule fold_obs_same) (use assms in auto)

lemma for_up_split_at:
  "a \<le> k \<Longrightarrow> k < b \<Longrightarrow> for_up a b f s = for_up (k + 1) b f (f k (for_up a k f s))"
  using upto_split1 [of a k "b - 1"] upto_rec1 [of k "b - 1"] by (simp add: for_up_def)

subsection \<open>Cutting a length into equal segments\<close>

text \<open>Segment \<open>k\<close> of \<open>c\<close> equal ones over a width \<open>w\<close> starts at \<open>k * w div c\<close>.\<close>

lemma seg_mono: "k \<le> k' \<Longrightarrow> 0 \<le> w \<Longrightarrow> 0 < c \<Longrightarrow> k * w div c \<le> k' * w div (c::int)"
  by (intro zdiv_mono1 mult_right_mono) auto

lemma seg_step:
  assumes "0 < (c::int)" "m * c \<le> w"
  shows "k * w div c + m \<le> (k + 1) * w div c"
proof -
  have "k * w div c + m = (k * w + m * c) div c" using assms(1) by simp
  also have "\<dots> \<le> (k + 1) * w div c"
    using assms by (intro zdiv_mono1) (auto simp: algebra_simps)
  finally show ?thesis .
qed

lemma seg_end: "k < c \<Longrightarrow> 0 \<le> w \<Longrightarrow> 0 < (c::int) \<Longrightarrow> (k + 1) * w div c \<le> w"
  using seg_mono [of "k + 1" c w c] by simp

lemma seg_start: "0 \<le> k \<Longrightarrow> 0 \<le> w \<Longrightarrow> 0 < (c::int) \<Longrightarrow> 0 \<le> k * w div c"
  by (simp add: pos_imp_zdiv_nonneg_iff)

lemma div_le_iff_less:
  assumes "0 < (c::int)"
  shows "a div c \<le> x \<longleftrightarrow> a < (x + 1) * c"
proof -
  have a: "a = a div c * c + a mod c" "0 \<le> a mod c" "a mod c < c" using assms by simp_all
  have "a div c \<le> x \<Longrightarrow> a div c * c \<le> x * c" "x + 1 \<le> a div c \<Longrightarrow> (x + 1) * c \<le> a div c * c"
    using assms by (simp_all add: mult_right_mono)
  with a show ?thesis by (simp only: distrib_right mult_1) linarith
qed

text \<open>Every position belongs to exactly one segment.\<close>

lemma seg_unique:
  assumes "0 < (c::int)" "0 \<le> w" "0 \<le> x" "x < w"
  shows "\<exists>!k. 0 \<le> k \<and> k < c \<and> k * w div c \<le> x \<and> x < (k + 1) * w div c"
proof -
  have w: "0 < w" using assms by linarith
  define k where "k = ((x + 1) * c - 1) div w"
  have k: "k * w \<le> (x + 1) * c - 1" "(x + 1) * c - 1 < (k + 1) * w"
    using w pos_mod_bound [of w "(x + 1) * c - 1"] pos_mod_sign [of w "(x + 1) * c - 1"]
      div_mult_mod_eq [of "(x + 1) * c - 1" w]
    unfolding k_def distrib_right by linarith+
  have le: "j * w div c \<le> x \<longleftrightarrow> j * w < (x + 1) * c" for j
    by (rule div_le_iff_less [OF assms(1)])
  have lt: "x < j * w div c \<longleftrightarrow> (x + 1) * c \<le> j * w" for j
    using le [of j] by linarith
  have "0 \<le> k" using assms w by (simp add: k_def pos_imp_zdiv_nonneg_iff)
  moreover have "k < c"
  proof -
    have "(x + 1) * c \<le> w * c" using assms by (intro mult_right_mono) auto
    with k(1) have "k * w < c * w" by (simp add: mult.commute)
    with w show ?thesis by simp
  qed
  moreover have "k * w div c \<le> x" "x < (k + 1) * w div c" using k by (simp_all add: le lt)
  moreover have "j = k" if "j * w div c \<le> x" "x < (j + 1) * w div c" for j
  proof -
    from that have j: "j * w < (x + 1) * c" "(x + 1) * c \<le> (j + 1) * w" by (simp_all only: le lt)
    with k have "j * w < (k + 1) * w" "k * w < (j + 1) * w" by linarith+
    with w show ?thesis by (simp only: mult_less_cancel_right) linarith
  qed
  ultimately show ?thesis by blast
qed

subsection \<open>Lists\<close>

text \<open>\<open>xs.slice(0, n)\<close> on a list or a string: the first \<open>n\<close> elements; a negative bound
  counts from the end.\<close>

definition slice0 :: "int \<Rightarrow> 'a list \<Rightarrow> 'a list" where
  "slice0 n xs = (if n < 0 then take (nat (int (length xs) + n)) xs else take (nat n) xs)"

lemma length_slice0: "0 \<le> n \<Longrightarrow> length (slice0 n xs) \<le> nat n"
  by (simp add: slice0_def)

text \<open>A list keeps its last \<open>n\<close> elements: \<open>xs.slice(xs.length - n)\<close> when it is longer.\<close>

definition keep_last :: "nat \<Rightarrow> 'a list \<Rightarrow> 'a list" where
  "keep_last n xs = drop (length xs - n) xs"

lemma length_keep_last [simp]: "length (keep_last n xs) = min n (length xs)"
  by (simp add: keep_last_def)

lemma set_keep_last: "set (keep_last n xs) \<subseteq> set xs"
  by (simp add: keep_last_def set_drop_subset)

lemma sorted_wrt_keep_last: "sorted_wrt P xs \<Longrightarrow> sorted_wrt P (keep_last n xs)"
  by (simp add: keep_last_def sorted_wrt_drop)

lemma last_keep_last: "0 < n \<Longrightarrow> xs \<noteq> [] \<Longrightarrow> last (keep_last n xs) = last xs"
  by (simp add: keep_last_def last_drop)

subsection \<open>Objects as keyed stores\<close>

text \<open>
  An object used as a dictionary is an association list in insertion order: \<open>put\<close> is
  \<open>o[k] = v\<close>, which replaces in place or appends.
\<close>

fun put :: "'k \<Rightarrow> 'v \<Rightarrow> ('k \<times> 'v) list \<Rightarrow> ('k \<times> 'v) list" where
  "put k v [] = [(k, v)]"
| "put k v ((k', v') # kvs) = (if k' = k then (k, v) # kvs else (k', v') # put k v kvs)"

definition del :: "'k \<Rightarrow> ('k \<times> 'v) list \<Rightarrow> ('k \<times> 'v) list" where
  "del k kvs = filter (\<lambda>kv. fst kv \<noteq> k) kvs"

locale keyed_store =
  fixes upd :: "'k \<Rightarrow> 'v \<Rightarrow> 's \<Rightarrow> 's"
    and look :: "'s \<Rightarrow> 'k \<Rightarrow> 'v option"
    and drop_key :: "'k \<Rightarrow> 's \<Rightarrow> 's"
    and invar :: "'s \<Rightarrow> bool"
  assumes look_upd: "look (upd k v s) k' = (if k' = k then Some v else look s k')"
    and look_drop: "look (drop_key k s) k' = (if k' = k then None else look s k')"
    and invar_upd: "invar s \<Longrightarrow> invar (upd k v s)"
    and invar_drop: "invar s \<Longrightarrow> invar (drop_key k s)"
begin

lemma upd_twice: "look (upd k v (upd k w s)) = look (upd k v s)"
  by (rule ext) (simp add: look_upd)

lemma upd_swap: "k \<noteq> l \<Longrightarrow> look (upd k v (upd l w s)) = look (upd l w (upd k v s))"
  by (rule ext) (auto simp: look_upd)

lemma drop_upd: "look (drop_key k (upd k v s)) = look (drop_key k s)"
  by (rule ext) (simp add: look_upd look_drop)

lemma look_fold_upd:
  "look (fold (\<lambda>k. upd k (f k)) ks s) k' = (if k' \<in> set ks then Some (f k') else look s k')"
  by (induction ks arbitrary: s) (auto simp: look_upd)

end

lemma map_of_put: "map_of (put k v kvs) k' = (if k' = k then Some v else map_of kvs k')"
  by (induction kvs) auto

lemma map_of_del: "map_of (del k kvs) k' = (if k' = k then None else map_of kvs k')"
  by (induction kvs) (auto simp: del_def)

lemma keys_put: "set (map fst (put k v kvs)) = insert k (set (map fst kvs))"
proof (induction kvs)
  case (Cons kv kvs)
  then show ?case by (cases kv; cases "fst kv = k") (simp_all add: insert_commute)
qed simp

lemma distinct_put: "distinct (map fst kvs) \<Longrightarrow> distinct (map fst (put k v kvs))"
proof (induction kvs)
  case (Cons kv kvs)
  then show ?case using keys_put [of k v kvs] by (cases kv) auto
qed simp

lemma distinct_del: "distinct (map fst kvs) \<Longrightarrow> distinct (map fst (del k kvs))"
  by (induction kvs) (auto simp: del_def)

lemma length_put: "length (put k v kvs) = (if map_of kvs k = None then Suc (length kvs) else length kvs)"
  by (induction kvs) auto

lemma map_of_map_snd: "map_of (map (\<lambda>(k, v). (k, f v)) kvs) k' = map_option f (map_of kvs k')"
  by (induction kvs) auto

interpretation js_obj: keyed_store put map_of del "\<lambda>kvs. distinct (map fst kvs)"
  by unfold_locales (auto simp: map_of_put map_of_del distinct_put distinct_del)

subsection \<open>Results\<close>

text \<open>A computation that may throw is a value of a sum type, the left side the error.\<close>

fun rbind :: "'e + 'a \<Rightarrow> ('a \<Rightarrow> 'e + 'b) \<Rightarrow> 'e + 'b" where
  "rbind (Inl e) f = Inl e"
| "rbind (Inr x) f = f x"

text \<open>\<open>xs.map(f)\<close> where \<open>f\<close> may throw: the first error ends it.\<close>

fun rmap :: "('a \<Rightarrow> 'e + 'b) \<Rightarrow> 'a list \<Rightarrow> 'e + 'b list" where
  "rmap f [] = Inr []"
| "rmap f (x # xs) = rbind (f x) (\<lambda>y. rbind (rmap f xs) (\<lambda>ys. Inr (y # ys)))"

lemma rbind_Inr_iff: "rbind m f = Inr y \<longleftrightarrow> (\<exists>x. m = Inr x \<and> f x = Inr y)"
  by (cases m) auto

lemma rmap_Inr_iff: "rmap f xs = Inr ys \<longleftrightarrow> list_all2 (\<lambda>x y. f x = Inr y) xs ys"
proof (induction xs arbitrary: ys)
  case Nil
  then show ?case by auto
next
  case (Cons x xs)
  then show ?case by (auto simp: rbind_Inr_iff list_all2_Cons1)
qed

lemma rmap_length: "rmap f xs = Inr ys \<Longrightarrow> length ys = length xs"
  by (auto simp: rmap_Inr_iff dest: list_all2_lengthD)

lemma rmap_total: "(\<And>x. x \<in> set xs \<Longrightarrow> f x = Inr (g x)) \<Longrightarrow> rmap f xs = Inr (map g xs)"
  by (induction xs) auto

end
