(* ===== verification/JsValue.thy ===== *)
theory JsValue
  imports Prelude
begin

section \<open>JavaScript values\<close>

text \<open>
  The payloads the dashboard reads are JSON documents, and its code reads them with the
  language's own coercions.  This theory has the values, property reads, truthiness,
  the \<open>Number\<close> and \<open>String\<close> conversions, rounding and the 32-bit integer operators, as
  far as the modelled code uses them.

  A finite double is an exact real here: rounding error is not modelled.  A string is a
  list of characters, one per code unit.  Reading a property looks at the object's own
  properties only, not at its prototype.
\<close>

datatype jval =
    JUndef
  | JNull
  | JBool bool
  | JNum real
  | JStr string
  | JArr "jval list"
  | JObj "(string \<times> jval) list"

text \<open>The result of \<open>Number\<close>: a finite number or one of the three others.\<close>

datatype jnum = Fin real | PosInf | NegInf | NaN

subsection \<open>Properties, truthiness, defaults\<close>

fun jget :: "jval \<Rightarrow> string \<Rightarrow> jval" where
  "jget (JObj kvs) k = (case map_of kvs k of Some v \<Rightarrow> v | None \<Rightarrow> JUndef)"
| "jget _ k = JUndef"

fun truthy :: "jval \<Rightarrow> bool" where
  "truthy JUndef = False"
| "truthy JNull = False"
| "truthy (JBool b) = b"
| "truthy (JNum r) = (r \<noteq> 0)"
| "truthy (JStr s) = (s \<noteq> [])"
| "truthy (JArr _) = True"
| "truthy (JObj _) = True"

definition nullish :: "jval \<Rightarrow> bool" where
  "nullish v \<longleftrightarrow> v = JUndef \<or> v = JNull"

text \<open>\<open>a || b\<close>, and \<open>a != null ? a : b\<close>.\<close>

definition jor :: "jval \<Rightarrow> jval \<Rightarrow> jval" where
  "jor a b = (if truthy a then a else b)"

definition jnn :: "jval \<Rightarrow> jval \<Rightarrow> jval" where
  "jnn a b = (if nullish a then b else a)"

lemma nullish_simps [simp]:
  "nullish JUndef" "nullish JNull" "\<not> nullish (JBool b)" "\<not> nullish (JNum r)"
  "\<not> nullish (JStr s)" "\<not> nullish (JArr xs)" "\<not> nullish (JObj kvs)"
  by (simp_all add: nullish_def)

lemma nullish_not_truthy: "nullish v \<Longrightarrow> \<not> truthy v"
  by (auto simp: nullish_def)

text \<open>\<open>Array.isArray(v) ? v : []\<close>, which is also \<open>v || []\<close> for a value that is an array or absent.\<close>

fun jarr :: "jval \<Rightarrow> jval list" where
  "jarr (JArr xs) = xs"
| "jarr _ = []"

fun is_arr :: "jval \<Rightarrow> bool" where
  "is_arr (JArr _) = True"
| "is_arr _ = False"

text \<open>\<open>xs[i]\<close>: \<open>undefined\<close> outside the list.\<close>

definition jidx :: "jval list \<Rightarrow> int \<Rightarrow> jval" where
  "jidx xs i = (if 0 \<le> i \<and> i < int (length xs) then xs ! nat i else JUndef)"

subsection \<open>Characters and decimal digits\<close>

definition digit_char :: "nat \<Rightarrow> char" where
  "digit_char d = char_of (48 + d)"

definition is_digit :: "char \<Rightarrow> bool" where
  "is_digit c \<longleftrightarrow> 48 \<le> (of_char c :: nat) \<and> (of_char c :: nat) \<le> 57"

definition digit_val :: "char \<Rightarrow> nat" where
  "digit_val c = of_char c - 48"

lemma of_digit_char: "d < 10 \<Longrightarrow> (of_char (digit_char d) :: nat) = 48 + d"
  unfolding digit_char_def of_char_of by simp

lemma is_digit_digit_char [simp]: "d < 10 \<Longrightarrow> is_digit (digit_char d)"
  by (simp add: is_digit_def of_digit_char)

lemma digit_val_digit_char [simp]: "d < 10 \<Longrightarrow> digit_val (digit_char d) = d"
  by (simp add: digit_val_def of_digit_char)

fun nat_str :: "nat \<Rightarrow> string" where
  "nat_str n = (if n < 10 then [digit_char n] else nat_str (n div 10) @ [digit_char (n mod 10)])"

declare nat_str.simps [simp del]

definition dec_val :: "string \<Rightarrow> nat" where
  "dec_val ds = foldl (\<lambda>a c. a * 10 + digit_val c) 0 ds"

lemma dec_val_append: "dec_val (xs @ [c]) = dec_val xs * 10 + digit_val c"
  by (simp add: dec_val_def)

lemma dec_val_nat_str: "dec_val (nat_str n) = n"
proof (induction n rule: nat_str.induct)
  case (1 n)
  show ?case
  proof (cases "n < 10")
    case True
    then show ?thesis by (subst nat_str.simps) (simp add: dec_val_def)
  next
    case False
    with 1 have "dec_val (nat_str (n div 10)) = n div 10" by simp
    with False show ?thesis by (subst nat_str.simps) (simp add: dec_val_append)
  qed
qed

lemma nat_str_inj [simp]: "nat_str a = nat_str b \<longleftrightarrow> a = b"
  by (metis dec_val_nat_str)

lemma nat_str_digits: "c \<in> set (nat_str n) \<Longrightarrow> is_digit c"
proof (induction n rule: nat_str.induct)
  case (1 n)
  then show ?case
    by (subst (asm) (2) nat_str.simps) (auto split: if_splits)
qed

lemma nat_str_nonempty [simp]: "nat_str n \<noteq> []"
  by (subst nat_str.simps) simp

definition int_str :: "int \<Rightarrow> string" where
  "int_str i = (if i < 0 then CHR ''-'' # nat_str (nat (- i)) else nat_str (nat i))"

lemma minus_not_digit: "\<not> is_digit (CHR ''-'')"
  by (simp add: is_digit_def)

lemma int_str_inj [simp]: "int_str a = int_str b \<longleftrightarrow> a = b"
proof
  assume eq: "int_str a = int_str b"
  have neg: "int_str i \<noteq> nat_str n" if "i < 0" for i n
  proof
    assume "int_str i = nat_str n"
    with that have "CHR ''-'' \<in> set (nat_str n)"
      by (metis int_str_def list.set_intros(1))
    then show False using nat_str_digits minus_not_digit by blast
  qed
  show "a = b"
  proof (cases "a < 0"; cases "b < 0")
    assume "\<not> a < 0" "b < 0"
    then show ?thesis using eq neg [of b "nat a"] by (simp add: int_str_def)
  next
    assume "a < 0" "\<not> b < 0"
    then show ?thesis using eq neg [of a "nat b"] by (simp add: int_str_def)
  qed (use eq in \<open>auto simp: int_str_def\<close>)
qed simp

definition up_char :: "char \<Rightarrow> char" where
  "up_char c = (if 97 \<le> (of_char c :: nat) \<and> (of_char c :: nat) \<le> 122
     then char_of ((of_char c :: nat) - 32) else c)"

definition low_char :: "char \<Rightarrow> char" where
  "low_char c = (if 65 \<le> (of_char c :: nat) \<and> (of_char c :: nat) \<le> 90
     then char_of ((of_char c :: nat) + 32) else c)"

text \<open>The white space of JavaScript among the characters of one byte, which are those of the model's strings.\<close>

definition is_space :: "char \<Rightarrow> bool" where
  "is_space c \<longleftrightarrow> c = CHR '' '' \<or> (9 \<le> (of_char c :: nat) \<and> (of_char c :: nat) \<le> 13) \<or> (of_char c :: nat) = 160"

definition js_trim :: "string \<Rightarrow> string" where
  "js_trim s = rev (dropWhile is_space (rev (dropWhile is_space s)))"

text \<open>\<open>s.indexOf(p) === 0\<close>.\<close>

definition starts_with :: "string \<Rightarrow> string \<Rightarrow> bool" where
  "starts_with p s \<longleftrightarrow> take (length p) s = p"

subsection \<open>The Number conversion\<close>

definition hex_val :: "char \<Rightarrow> nat option" where
  "hex_val c = (let n = (of_char c :: nat) in
     if 48 \<le> n \<and> n \<le> 57 then Some (n - 48)
     else if 97 \<le> n \<and> n \<le> 102 then Some (n - 87)
     else if 65 \<le> n \<and> n \<le> 70 then Some (n - 55)
     else None)"

fun radix_val :: "nat \<Rightarrow> nat \<Rightarrow> string \<Rightarrow> nat option" where
  "radix_val r acc [] = Some acc"
| "radix_val r acc (c # cs) =
     (case hex_val c of None \<Rightarrow> None
      | Some d \<Rightarrow> if d < r then radix_val r (acc * r + d) cs else None)"

definition strip_sign :: "string \<Rightarrow> real \<times> string" where
  "strip_sign s = (case s of [] \<Rightarrow> (1, [])
     | c # cs \<Rightarrow> if c = CHR ''-'' then (-1, cs) else if c = CHR ''+'' then (1, cs) else (1, s))"

text \<open>The exponent part of a decimal literal: nothing, or \<open>e\<close>, a sign and digits to the end.\<close>

definition exp_val :: "string \<Rightarrow> int option" where
  "exp_val s = (case s of [] \<Rightarrow> Some 0
     | c # cs \<Rightarrow> if c = CHR ''e'' \<or> c = CHR ''E''
         then (let (sg, ds) = strip_sign cs in
           if ds \<noteq> [] \<and> list_all is_digit ds then Some (\<lfloor>sg\<rfloor> * int (dec_val ds)) else None)
         else None)"

definition dec_num :: "string \<Rightarrow> jnum" where
  "dec_num s =
     (let (sg, t) = strip_sign s;
          ds = takeWhile is_digit t; t1 = dropWhile is_digit t;
          (fs, t2) = (case t1 of [] \<Rightarrow> ([], []) | c # cs \<Rightarrow>
             if c = CHR ''.'' then (takeWhile is_digit cs, dropWhile is_digit cs) else ([], t1))
      in if ds @ fs = [] then NaN
         else (case exp_val t2 of None \<Rightarrow> NaN
           | Some e \<Rightarrow> Fin (sg * (real (dec_val (ds @ fs)) / 10 ^ length fs) * 10 powi e)))"

definition str_num :: "string \<Rightarrow> jnum" where
  "str_num s =
     (let t = js_trim s in
      if t = [] then Fin 0
      else if t = ''Infinity'' \<or> t = ''+Infinity'' then PosInf
      else if t = ''-Infinity'' then NegInf
      else case t of
        c0 # c1 # c2 # cs \<Rightarrow>
          (let r = (if c0 \<noteq> CHR ''0'' then 0
                    else if c1 = CHR ''x'' \<or> c1 = CHR ''X'' then 16
                    else if c1 = CHR ''o'' \<or> c1 = CHR ''O'' then 8
                    else if c1 = CHR ''b'' \<or> c1 = CHR ''B'' then 2 else 0)
           in if r = 0 then dec_num t
              else (case radix_val r 0 (c2 # cs) of Some n \<Rightarrow> Fin (real n) | None \<Rightarrow> NaN))
      | _ \<Rightarrow> dec_num t)"

text \<open>
  An array converts through its string: the empty one is 0, a single element converts as
  its own string does, and a longer one holds a comma.
\<close>

fun js_Number :: "jval \<Rightarrow> jnum" where
  "js_Number JUndef = NaN"
| "js_Number JNull = Fin 0"
| "js_Number (JBool b) = Fin (if b then 1 else 0)"
| "js_Number (JNum r) = Fin r"
| "js_Number (JStr s) = str_num s"
| "js_Number (JArr []) = Fin 0"
| "js_Number (JArr [x]) = (case x of JUndef \<Rightarrow> Fin 0 | JBool _ \<Rightarrow> NaN | _ \<Rightarrow> js_Number x)"
| "js_Number (JArr _) = NaN"
| "js_Number (JObj _) = NaN"

subsection \<open>Rounding\<close>

text \<open>\<open>Math.round\<close> rounds half up.\<close>

definition js_round :: "real \<Rightarrow> int" where
  "js_round x = \<lfloor>x + 1 / 2\<rfloor>"

lemma js_round_of_int [simp]: "js_round (of_int i) = i"
  by (simp add: js_round_def floor_unique)

lemma js_round_mono: "x \<le> y \<Longrightarrow> js_round x \<le> js_round y"
  by (simp add: js_round_def floor_mono)

lemma js_round_bounds:
  assumes "of_int a \<le> x" "x \<le> of_int b"
  shows "a \<le> js_round x \<and> js_round x \<le> b"
  using js_round_mono [OF assms(1)] js_round_mono [OF assms(2)] by simp

lemma js_round_error: "\<bar>of_int (js_round x) - x\<bar> \<le> 1 / 2"
  unfolding js_round_def by linarith

subsection \<open>The String conversion\<close>

text \<open>
  A number prints as its shortest decimal expansion; one that has none of up to 17
  digits after the point prints rounded there.  Exponent notation is not modelled.
\<close>

definition pad_left :: "nat \<Rightarrow> string \<Rightarrow> string" where
  "pad_left n s = replicate (n - length s) (CHR ''0'') @ s"

lemma length_pad_left: "length (pad_left n s) = max n (length s)"
  by (simp add: pad_left_def)

definition fixed_str :: "nat \<Rightarrow> nat \<Rightarrow> string" where
  "fixed_str d n =
     (if d = 0 then nat_str n
      else nat_str (n div 10 ^ d) @ CHR ''.'' # pad_left d (nat_str (n mod 10 ^ d)))"

text \<open>\<open>x.toFixed(d)\<close>: the nearest multiple, the larger one on a tie.\<close>

definition toFixed :: "nat \<Rightarrow> real \<Rightarrow> string" where
  "toFixed d x =
     (if x < 0 then CHR ''-'' # fixed_str d (nat (js_round (- x * 10 ^ d)))
      else fixed_str d (nat (js_round (x * 10 ^ d))))"

definition num_str :: "real \<Rightarrow> string" where
  "num_str x =
     (case find (\<lambda>d. of_int \<lfloor>x * 10 ^ d\<rfloor> = x * 10 ^ d) [0..<17] of
        None \<Rightarrow> toFixed 17 x | Some d \<Rightarrow> toFixed d x)"

fun join_str :: "string \<Rightarrow> string list \<Rightarrow> string" where
  "join_str sep [] = []"
| "join_str sep [s] = s"
| "join_str sep (s # ss) = s @ sep @ join_str sep ss"

fun js_String :: "jval \<Rightarrow> string" where
  "js_String JUndef = ''undefined''"
| "js_String JNull = ''null''"
| "js_String (JBool b) = (if b then ''true'' else ''false'')"
| "js_String (JNum r) = num_str r"
| "js_String (JStr s) = s"
| "js_String (JArr xs) =
     join_str '','' (map (\<lambda>x. if nullish x then [] else js_String x) xs)"
| "js_String (JObj _) = ''[object Object]''"

subsection \<open>32-bit integer operators\<close>

text \<open>
  \<open>ToInt32\<close> truncates and wraps to 32 bits; the shifts and the bitwise operators work on
  its result, read back as a signed value.
\<close>

definition js_trunc :: "real \<Rightarrow> int" where
  "js_trunc x = (if x < 0 then \<lceil>x\<rceil> else \<lfloor>x\<rfloor>)"

definition to_int32 :: "real \<Rightarrow> 32 word" where
  "to_int32 x = word_of_int (js_trunc x)"

lemma js_trunc_of_int [simp]: "js_trunc (of_int i) = i"
  by (simp add: js_trunc_def)

lemma js_trunc_of_nat [simp]: "js_trunc (of_nat n) = int n"
  by (simp add: js_trunc_def)

text \<open>On the values below \<open>2 ^ 31\<close> the operators are those of the integers.\<close>

unbundle bit_operations_syntax

lemma sint_small:
  assumes "0 \<le> x" "x < 2 ^ 31"
  shows "sint (word_of_int x :: 32 word) = x" "uint (word_of_int x :: 32 word) = x"
proof -
  show u: "uint (word_of_int x :: 32 word) = x"
    using assms by (simp add: uint_word_of_int take_bit_int_eq_self)
  have "signed_take_bit 31 x = x" using assms by (intro signed_take_bit_int_eq_self) auto
  then show "sint (word_of_int x :: 32 word) = x" by (simp add: sint_uint u)
qed

lemma shr_small:
  assumes "0 \<le> x" "x < 2 ^ 31"
  shows "signed_drop_bit n (word_of_int x :: 32 word) = word_of_int (x div 2 ^ n)"
proof -
  have "sint (signed_drop_bit n (word_of_int x :: 32 word)) = x div 2 ^ n"
    using sint_small(1) [OF assms] by (simp add: sint_signed_drop_bit_eq drop_bit_int_def)
  then have "word_of_int (sint (signed_drop_bit n (word_of_int x :: 32 word))) = (word_of_int (x div 2 ^ n) :: 32 word)"
    by (rule arg_cong)
  then show ?thesis by simp
qed

lemma and_mask_small: "(word_of_int x :: 32 word) AND word_of_int (mask n) = word_of_int (x mod 2 ^ n)"
  by (simp only: word_wi_log_defs) (simp add: take_bit_eq_mask [symmetric] take_bit_int_def)

lemma pack_small:
  assumes "0 \<le> i" "0 \<le> c" "c < 2 ^ n"
  shows "push_bit n (word_of_int i :: 32 word) OR word_of_int c = word_of_int (i * 2 ^ n + c)"
proof -
  have "take_bit n c = c" using assms by (simp add: take_bit_int_eq_self)
  then have "\<not> bit (push_bit n i) k \<or> \<not> bit c k" for k
    by (metis bit_push_bit_iff_int bit_take_bit_iff not_le)
  then have "push_bit n i OR c = i * 2 ^ n + c"
    by (subst disjunctive_add [symmetric]) (auto simp: push_bit_int_def)
  then show ?thesis by (simp only: push_bit_of_int word_wi_log_defs)
qed

subsection \<open>Trimming\<close>

lemma dropWhile_hd: "dropWhile P xs \<noteq> [] \<Longrightarrow> \<not> P (hd (dropWhile P xs))"
  by (induction xs) auto

lemma dropWhile_keep: "xs \<noteq> [] \<Longrightarrow> \<not> P (hd xs) \<Longrightarrow> dropWhile P xs = xs"
  by (cases xs) auto

lemma js_trim_fix:
  assumes "s \<noteq> []" "\<not> is_space (hd s)" "\<not> is_space (last s)"
  shows "js_trim s = s"
  using assms by (simp add: js_trim_def dropWhile_keep hd_rev)

lemma js_trim_ends:
  assumes "js_trim s \<noteq> []"
  shows "\<not> is_space (hd (js_trim s)) \<and> \<not> is_space (last (js_trim s))"
proof
  let ?d = "dropWhile is_space s"
  obtain k where k: "?d = js_trim s @ k" unfolding js_trim_def by (metis rev_append rev_rev_ident takeWhile_dropWhile_id)
  then show "\<not> is_space (hd (js_trim s))" using assms dropWhile_hd [of is_space s] by auto
  show "\<not> is_space (last (js_trim s))" using assms dropWhile_hd [of is_space "rev ?d"] by (simp add: js_trim_def last_rev)
qed

lemma trim_idem: "js_trim (js_trim s) = js_trim s"
proof (cases "js_trim s = []")
  case True
  then show ?thesis unfolding True by (simp add: js_trim_def)
qed (use js_trim_fix js_trim_ends in blast)

end
