(* ===== verification/PanelFb.thy ===== *)
theory PanelFb
  imports JsValue
begin

section \<open>The virtual panel's framebuffer\<close>

text \<open>
  Sections 1 and 2 of \<^verbatim>\<open>screens-panel.jsx\<close>: the geometry and palette of the 53 by 11 LED
  matrix and the framebuffer primitives.  The framebuffer is the flat array of the
  source, three channels per pixel in row order; \<open>pix\<close> reads one pixel of it.  The
  locale \<open>pixel_store\<close> is the contract the renderers rely on (a write changes exactly the
  addressed pixel), and its interpretation discharges it for the flat array.  The two
  predicates at the end, \<open>touches\<close> and \<open>keeps_range\<close>, carry the proofs about every renderer.
\<close>

subsection \<open>Geometry and palette\<close>

definition PW :: int where [simp]: "PW = 53"
definition PH :: int where [simp]: "PH = 11"

type_synonym rgb = "real \<times> real \<times> real"

definition cOk :: rgb where "cOk = (61, 214, 140)"
definition cWarn :: rgb where "cWarn = (245, 166, 35)"
definition cCrit :: rgb where "cCrit = (255, 77, 94)"
definition cMaint :: rgb where "cMaint = (155, 135, 255)"
definition cAzure :: rgb where "cAzure = (34, 184, 240)"
definition cQuiet :: rgb where "cQuiet = (78, 107, 126)"
definition cInk :: rgb where "cInk = (223, 232, 242)"
definition cUnknown :: rgb where "cUnknown = (124, 138, 160)"

definition ST_OK :: real where [simp]: "ST_OK = 0"
definition ST_DEGRADED :: real where [simp]: "ST_DEGRADED = 1"
definition ST_DOWN :: real where [simp]: "ST_DOWN = 2"
definition ST_UNKNOWN :: real where [simp]: "ST_UNKNOWN = 3"
definition ST_MAINT :: real where [simp]: "ST_MAINT = 4"

lemmas palette_defs = cOk_def cWarn_def cCrit_def cMaint_def cAzure_def cQuiet_def cInk_def
  cUnknown_def

subsection \<open>Framebuffer operations\<close>

type_synonym fb = "real list"

definition fbNew :: fb where
  "fbNew = replicate (nat (PW * PH * 3)) 0"

definition fbClear :: "fb \<Rightarrow> fb" where
  "fbClear f = map (\<lambda>_. 0) f"

definition off_panel :: "int \<Rightarrow> int \<Rightarrow> bool" where
  "off_panel x y \<longleftrightarrow> x < 0 \<or> x \<ge> PW \<or> y < 0 \<or> y \<ge> PH"

definition fb_index :: "int \<Rightarrow> int \<Rightarrow> nat" where
  "fb_index x y = nat ((y * PW + x) * 3)"

definition fbSetRgb :: "int \<Rightarrow> int \<Rightarrow> real \<Rightarrow> real \<Rightarrow> real \<Rightarrow> real \<Rightarrow> fb \<Rightarrow> fb" where
  "fbSetRgb x y r g bl b f =
     (if off_panel x y then f
      else let i = fb_index x y in f[i := r * b, i + 1 := g * b, i + 2 := bl * b])"

definition fbSet :: "int \<Rightarrow> int \<Rightarrow> rgb \<Rightarrow> real \<Rightarrow> fb \<Rightarrow> fb" where
  "fbSet x y c b f =
     (if off_panel x y then f
      else let i = fb_index x y
        in f[i := fst c * b, i + 1 := fst (snd c) * b, i + 2 := snd (snd c) * b])"

definition fbAdd :: "int \<Rightarrow> int \<Rightarrow> rgb \<Rightarrow> real \<Rightarrow> fb \<Rightarrow> fb" where
  "fbAdd x y c b f =
     (if off_panel x y then f
      else let i = fb_index x y
        in f[i := f ! i + fst c * b, i + 1 := f ! (i + 1) + fst (snd c) * b,
             i + 2 := f ! (i + 2) + snd (snd c) * b])"

definition fbDim :: "int \<Rightarrow> int \<Rightarrow> real \<Rightarrow> fb \<Rightarrow> fb" where
  "fbDim x y k f =
     (if off_panel x y then f
      else let i = fb_index x y
        in f[i := f ! i * k, i + 1 := f ! (i + 1) * k, i + 2 := f ! (i + 2) * k])"

definition fbDimAll :: "real \<Rightarrow> fb \<Rightarrow> fb" where
  "fbDimAll k f = map (\<lambda>v. v * k) f"

text \<open>
  A renderer is a sequence of such operations: \<open>draw\<close> runs them in order, and \<open>noop\<close> is the
  branch that paints nothing.
\<close>

definition noop :: "fb \<Rightarrow> fb" where
  "noop f = f"

definition draw :: "(fb \<Rightarrow> fb) list \<Rightarrow> fb \<Rightarrow> fb" where
  "draw ops f = fold (\<lambda>op. op) ops f"

lemma draw_Nil [simp]: "draw [] f = f"
  by (simp add: draw_def)

lemma draw_Cons: "draw (op # ops) f = draw ops (op f)"
  by (simp add: draw_def)

lemma draw_append: "draw (xs @ ys) f = draw ys (draw xs f)"
  by (simp add: draw_def)

subsection \<open>Reading a pixel\<close>

definition fb_ok :: "fb \<Rightarrow> bool" where
  "fb_ok f \<longleftrightarrow> length f = nat (PW * PH * 3)"

definition pix :: "fb \<Rightarrow> int \<Rightarrow> int \<Rightarrow> rgb" where
  "pix f x y = (let i = fb_index x y in (f ! i, f ! (i + 1), f ! (i + 2)))"

definition shade :: "rgb \<Rightarrow> real \<Rightarrow> rgb" where
  "shade c b = (fst c * b, fst (snd c) * b, snd (snd c) * b)"

definition on_panel :: "int \<Rightarrow> int \<Rightarrow> bool" where
  "on_panel x y \<longleftrightarrow> \<not> off_panel x y"

lemma on_panel_iff: "on_panel x y \<longleftrightarrow> 0 \<le> x \<and> x < 53 \<and> 0 \<le> y \<and> y < 11"
  by (auto simp: on_panel_def off_panel_def)

lemma fb_index_bound:
  assumes "on_panel x y"
  shows "fb_index x y + 2 < nat (PW * PH * 3)"
  using assms unfolding on_panel_iff fb_index_def by auto

lemma fb_index_separate:
  assumes "on_panel x y" "on_panel x' y'" "i < 3" "j < 3"
    and "fb_index x y + i = fb_index x' y' + j"
  shows "x = x' \<and> y = y' \<and> i = j"
proof -
  have i: "int (fb_index x y) = (y * 53 + x) * 3" "int (fb_index x' y') = (y' * 53 + x') * 3"
    using assms(1,2) by (auto simp: fb_index_def on_panel_iff)
  with assms(5) have eq: "(y * 53 + x) * 3 + int i = (y' * 53 + x') * 3 + int j"
    by (metis of_nat_add)
  have decode: "((y * 53 + x) * 3 + int i) div 3 = y * 53 + x" "(y * 53 + x) div 53 = y"
    if "on_panel x y" "i < 3" for x y i
    using that by (simp_all add: on_panel_iff)
  from eq decode [OF assms(1,3)] decode [OF assms(2,4)]
  have "y * 53 + x = y' * 53 + x'" "y = y'"
    by metis+
  with eq show ?thesis by simp
qed

lemma fb_ok_new [simp]: "fb_ok fbNew"
  unfolding fb_ok_def fbNew_def by (rule length_replicate)

lemma fb_ok_ops [fb_ok_intros]:
  "fb_ok f \<Longrightarrow> fb_ok (fbClear f)"
  "fb_ok f \<Longrightarrow> fb_ok (fbSet x y c b f)"
  "fb_ok f \<Longrightarrow> fb_ok (fbSetRgb x y r g bl b f)"
  "fb_ok f \<Longrightarrow> fb_ok (fbAdd x y c b f)"
  "fb_ok f \<Longrightarrow> fb_ok (fbDim x y k f)"
  "fb_ok f \<Longrightarrow> fb_ok (fbDimAll k f)"
  by (simp_all add: fb_ok_def fbClear_def fbSet_def fbSetRgb_def fbAdd_def fbDim_def fbDimAll_def
      Let_def)

text \<open>The three channels of one pixel, updated together, are read back as written and no other
  pixel sees the update.\<close>

lemma pix_update3:
  assumes "fb_ok f" "on_panel x y" "on_panel x' y'"
  defines "i \<equiv> fb_index x y"
  shows "pix (f[i := r, i + 1 := g, i + 2 := b]) x' y' =
    (if x = x' \<and> y = y' then (r, g, b) else pix f x' y')"
proof (cases "x = x' \<and> y = y'")
  case True
  then show ?thesis
    using fb_index_bound [OF assms(2)] assms(1)
    by (simp add: pix_def i_def Let_def fb_ok_def)
next
  case False
  have "fb_index x' y' + j \<noteq> i + k" if "j < 3" "k < 3" for j k
    using fb_index_separate [OF assms(3,2) that] False by (auto simp: i_def)
  from this [of 0 0] this [of 0 1] this [of 0 2] this [of 1 0] this [of 1 1] this [of 1 2]
    this [of 2 0] this [of 2 1] this [of 2 2]
  have "fb_index x' y' \<noteq> i" "fb_index x' y' \<noteq> Suc i" "fb_index x' y' \<noteq> Suc (Suc i)"
    "Suc (fb_index x' y') \<noteq> i" "Suc (fb_index x' y') \<noteq> Suc i"
    "Suc (fb_index x' y') \<noteq> Suc (Suc i)" "Suc (Suc (fb_index x' y')) \<noteq> i"
    "Suc (Suc (fb_index x' y')) \<noteq> Suc i" "Suc (Suc (fb_index x' y')) \<noteq> Suc (Suc i)"
    by simp_all
  then have "pix (f[i := r, i + 1 := g, i + 2 := b]) x' y' = pix f x' y'"
    by (simp add: pix_def Let_def)
  with False show ?thesis by auto
qed

lemma pix_fbSet [pix_simps]:
  assumes "fb_ok f" "on_panel x' y'"
  shows "pix (fbSet x y c b f) x' y' = (if x = x' \<and> y = y' then shade c b else pix f x' y')"
  using assms pix_update3 [OF assms(1) _ assms(2), of x y]
  by (auto simp: fbSet_def shade_def on_panel_def Let_def)

lemma pix_fbDim [pix_simps]:
  assumes "fb_ok f" "on_panel x' y'"
  shows "pix (fbDim x y k f) x' y' =
    (if x = x' \<and> y = y' then shade (pix f x' y') k else pix f x' y')"
  using assms pix_update3 [OF assms(1) _ assms(2), of x y]
  by (auto simp: fbDim_def shade_def on_panel_def Let_def pix_def)

lemma pix_fbDimAll [pix_simps]:
  assumes "fb_ok f" "on_panel x y"
  shows "pix (fbDimAll k f) x y = shade (pix f x y) k"
  using fb_index_bound [OF assms(2)] assms(1)
  by (simp add: fbDimAll_def shade_def pix_def Let_def fb_ok_def)

lemma pix_fbClear [pix_simps]:
  assumes "fb_ok f" "on_panel x y"
  shows "pix (fbClear f) x y = (0, 0, 0)"
  using fb_index_bound [OF assms(2)] assms(1)
  by (simp add: fbClear_def pix_def Let_def fb_ok_def)

subsection \<open>The contract of a pixel store\<close>

locale pixel_store =
  fixes pset :: "int \<Rightarrow> int \<Rightarrow> 'c \<Rightarrow> 'b \<Rightarrow> 'f \<Rightarrow> 'f"
    and tint :: "'c \<Rightarrow> 'b \<Rightarrow> 'p"
    and pread :: "'f \<Rightarrow> int \<Rightarrow> int \<Rightarrow> 'p"
    and good :: "'f \<Rightarrow> bool"
    and inside :: "int \<Rightarrow> int \<Rightarrow> bool"
  assumes good_pset: "good f \<Longrightarrow> good (pset x y c b f)"
    and pread_pset: "good f \<Longrightarrow> inside x' y' \<Longrightarrow>
      pread (pset x y c b f) x' y' = (if x = x' \<and> y = y' then tint c b else pread f x' y')"
begin

text \<open>A horizontal run of pixels.\<close>

lemma good_run: "good f \<Longrightarrow> good (for_up a b (\<lambda>x. pset x y (c x) (k x)) f)"
  by (rule for_up_inv) (auto intro: good_pset)

lemma pread_run_aux:
  assumes "good f" "inside x' y'"
  shows "pread (for_up a (a + int n) (\<lambda>x. pset x y (c x) (k x)) f) x' y' =
    (if y = y' \<and> a \<le> x' \<and> x' < a + int n then tint (c x') (k x') else pread f x' y')"
proof (induction n)
  case 0
  then show ?case by auto
next
  case (Suc n)
  have "for_up a (a + int (Suc n)) (\<lambda>x. pset x y (c x) (k x)) f =
    pset (a + int n) y (c (a + int n)) (k (a + int n)) (for_up a (a + int n) (\<lambda>x. pset x y (c x) (k x)) f)"
    using for_up_last [of a "a + int n"] by (simp add: algebra_simps)
  then show ?case using Suc assms by (auto simp: pread_pset good_run)
qed

lemma pread_run:
  assumes "good f" "inside x' y'"
  shows "pread (for_up a b (\<lambda>x. pset x y (c x) (k x)) f) x' y' =
    (if y = y' \<and> a \<le> x' \<and> x' < b then tint (c x') (k x') else pread f x' y')"
proof (cases "a \<le> b")
  case True
  then show ?thesis using pread_run_aux [OF assms, of a "nat (b - a)"] by simp
qed auto

text \<open>A filled rectangle: the double loop of the renderers.\<close>

lemma good_rect: "good f \<Longrightarrow> good (for_up y0 y1 (\<lambda>y. for_up x0 x1 (\<lambda>x. pset x y (c x y) (k x y))) f)"
  by (rule for_up_inv) (auto intro: good_run)

lemma pread_rect_aux:
  assumes "good f" "inside x' y'"
  shows "pread (for_up y0 (y0 + int n) (\<lambda>y. for_up x0 x1 (\<lambda>x. pset x y (c x y) (k x y))) f) x' y' =
    (if y0 \<le> y' \<and> y' < y0 + int n \<and> x0 \<le> x' \<and> x' < x1 then tint (c x' y') (k x' y') else pread f x' y')"
proof (induction n)
  case 0
  then show ?case by auto
next
  case (Suc n)
  have "for_up y0 (y0 + int (Suc n)) (\<lambda>y. for_up x0 x1 (\<lambda>x. pset x y (c x y) (k x y))) f =
    for_up x0 x1 (\<lambda>x. pset x (y0 + int n) (c x (y0 + int n)) (k x (y0 + int n)))
      (for_up y0 (y0 + int n) (\<lambda>y. for_up x0 x1 (\<lambda>x. pset x y (c x y) (k x y))) f)"
    using for_up_last [of y0 "y0 + int n"] by (simp add: algebra_simps)
  then show ?case using Suc assms by (auto simp: pread_run good_rect)
qed

lemma pread_rect:
  assumes "good f" "inside x' y'"
  shows "pread (for_up y0 y1 (\<lambda>y. for_up x0 x1 (\<lambda>x. pset x y (c x y) (k x y))) f) x' y' =
    (if y0 \<le> y' \<and> y' < y1 \<and> x0 \<le> x' \<and> x' < x1 then tint (c x' y') (k x' y') else pread f x' y')"
proof (cases "y0 \<le> y1")
  case True
  then show ?thesis using pread_rect_aux [OF assms, of y0 "nat (y1 - y0)"] by simp
qed auto

end

interpretation lit: pixel_store fbSet shade pix fb_ok on_panel
  by unfold_locales (simp_all add: fb_ok_intros pix_fbSet)

subsection \<open>The footprint of a drawing operation\<close>

text \<open>
  \<open>touches R op\<close>: the operation keeps the framebuffer well formed and changes no pixel
  outside the region \<open>R\<close>.
\<close>

definition touches :: "(int \<Rightarrow> int \<Rightarrow> bool) \<Rightarrow> (fb \<Rightarrow> fb) \<Rightarrow> bool" where
  "touches R op \<longleftrightarrow> (\<forall>f. fb_ok f \<longrightarrow> fb_ok (op f) \<and>
     (\<forall>x y. on_panel x y \<longrightarrow> \<not> R x y \<longrightarrow> pix (op f) x y = pix f x y))"

named_theorems touch_intros \<open>introduction rules for the footprint of a drawing operation\<close>

lemma touchesI:
  "(\<And>f. fb_ok f \<Longrightarrow> fb_ok (op f)) \<Longrightarrow>
   (\<And>f x y. fb_ok f \<Longrightarrow> on_panel x y \<Longrightarrow> \<not> R x y \<Longrightarrow> pix (op f) x y = pix f x y) \<Longrightarrow>
   touches R op"
  by (simp add: touches_def)

lemma touches_ok: "touches R op \<Longrightarrow> fb_ok f \<Longrightarrow> fb_ok (op f)"
  by (simp add: touches_def)

lemma touches_pix:
  "touches R op \<Longrightarrow> fb_ok f \<Longrightarrow> on_panel x y \<Longrightarrow> \<not> R x y \<Longrightarrow> pix (op f) x y = pix f x y"
  by (simp add: touches_def)

lemma touches_mono: "touches R op \<Longrightarrow> (\<And>x y. on_panel x y \<Longrightarrow> R x y \<Longrightarrow> S x y) \<Longrightarrow> touches S op"
  by (rule touchesI) (blast intro: touches_ok touches_pix)+

lemma touches_noop [touch_intros]: "touches R noop"
  by (simp add: touches_def noop_def)

lemma touches_comp: "touches R g \<Longrightarrow> touches R h \<Longrightarrow> touches R (\<lambda>f. g (h f))"
  by (rule touchesI) (simp_all add: touches_ok touches_pix)

lemma touches_if [touch_intros]:
  "(b \<Longrightarrow> touches R g) \<Longrightarrow> (\<not> b \<Longrightarrow> touches R h) \<Longrightarrow> touches R (if b then g else h)"
  by simp

lemma touches_Let [touch_intros]: "(\<And>x. touches R (g x)) \<Longrightarrow> touches R (Let a g)"
  by simp

lemma touches_draw [touch_intros]:
  "touches R (draw [])"
  "touches R op \<Longrightarrow> touches R (draw ops) \<Longrightarrow> touches R (draw (op # ops))"
proof -
  show "touches R (draw [])" by (simp add: touches_def)
  show "touches R (draw (op # ops))" if "touches R op" "touches R (draw ops)"
    using touches_comp [OF that(2,1)] by (simp add: draw_Cons [abs_def])
qed

lemma touches_fold [touch_intros]:
  assumes "\<And>x. x \<in> set xs \<Longrightarrow> touches R (g x)"
  shows "touches R (fold g xs)"
  using assms
proof (induction xs)
  case Nil
  then show ?case by (simp add: touches_def)
next
  case (Cons x xs)
  then have "touches R (\<lambda>f. fold g xs (g x f))"
    using touches_comp [of R "fold g xs" "g x"] by simp
  then show ?case by (simp add: comp_def)
qed

lemma touches_for_up [touch_intros]:
  assumes "\<And>i. a \<le> i \<Longrightarrow> i < b \<Longrightarrow> touches R (g i)"
  shows "touches R (for_up a b g)"
proof -
  have "touches R (fold g [a..b - 1])"
    by (rule touches_fold) (use assms in auto)
  then show ?thesis by (simp add: for_up_def [abs_def])
qed

lemma touches_fbSet [touch_intros]: "(on_panel x y \<Longrightarrow> R x y) \<Longrightarrow> touches R (fbSet x y c b)"
  by (rule touchesI) (auto simp: fb_ok_intros pix_fbSet)

lemma touches_fbDim [touch_intros]: "(on_panel x y \<Longrightarrow> R x y) \<Longrightarrow> touches R (fbDim x y k)"
  by (rule touchesI) (auto simp: fb_ok_intros pix_fbDim)

lemma touches_fbDimAll [touch_intros]: "(\<And>x y. on_panel x y \<Longrightarrow> R x y) \<Longrightarrow> touches R (fbDimAll k)"
  by (rule touchesI) (auto simp: fb_ok_intros)

subsection \<open>The range of the channels\<close>

text \<open>
  The framebuffer is unclamped; \<open>keeps_range op\<close> says that an operation never drives a
  channel out of \<open>[0, 255]\<close>.
\<close>

definition in_range :: "fb \<Rightarrow> bool" where
  "in_range f \<longleftrightarrow> list_all (\<lambda>v. 0 \<le> v \<and> v \<le> 255) f"

definition rgb_ok :: "rgb \<Rightarrow> bool" where
  "rgb_ok c \<longleftrightarrow> 0 \<le> fst c \<and> fst c \<le> 255 \<and> 0 \<le> fst (snd c) \<and> fst (snd c) \<le> 255 \<and>
     0 \<le> snd (snd c) \<and> snd (snd c) \<le> 255"

definition keeps_range :: "(fb \<Rightarrow> fb) \<Rightarrow> bool" where
  "keeps_range op \<longleftrightarrow> (\<forall>f. in_range f \<longrightarrow> in_range (op f))"

named_theorems range_intros \<open>introduction rules for operations that keep the channels in range\<close>

lemma rgb_ok_palette [range_intros, simp]:
  "rgb_ok cOk" "rgb_ok cWarn" "rgb_ok cCrit" "rgb_ok cMaint" "rgb_ok cAzure" "rgb_ok cInk"
  "rgb_ok cUnknown"
  by (simp_all add: rgb_ok_def palette_defs)

lemma rgb_if: "(b \<Longrightarrow> rgb_ok c) \<Longrightarrow> (\<not> b \<Longrightarrow> rgb_ok d) \<Longrightarrow> rgb_ok (if b then c else d)"
  by simp

lemma in_range_new [simp]: "in_range fbNew"
proof -
  have "set fbNew \<subseteq> {0}"
    unfolding fbNew_def by (simp only: set_replicate_conv_if) simp
  then have "0 \<le> v \<and> v \<le> 255" if "v \<in> set fbNew" for v
    using that by fastforce
  then show ?thesis by (simp add: in_range_def list_all_iff)
qed

lemma in_range_update: "in_range f \<Longrightarrow> 0 \<le> v \<Longrightarrow> v \<le> 255 \<Longrightarrow> in_range (f[i := v])"
  unfolding in_range_def list_all_iff using set_update_subset_insert [of f i v] by auto

lemma keeps_range_noop [range_intros]: "keeps_range noop"
  by (simp add: keeps_range_def noop_def)

lemma keeps_range_comp: "keeps_range g \<Longrightarrow> keeps_range h \<Longrightarrow> keeps_range (\<lambda>f. g (h f))"
  by (simp add: keeps_range_def)

lemma keeps_range_if [range_intros]:
  "(b \<Longrightarrow> keeps_range g) \<Longrightarrow> (\<not> b \<Longrightarrow> keeps_range h) \<Longrightarrow> keeps_range (if b then g else h)"
  by simp

lemma keeps_range_Let [range_intros]: "(\<And>x. keeps_range (g x)) \<Longrightarrow> keeps_range (Let a g)"
  by simp

lemma keeps_range_draw [range_intros]:
  "keeps_range (draw [])"
  "keeps_range op \<Longrightarrow> keeps_range (draw ops) \<Longrightarrow> keeps_range (draw (op # ops))"
  by (simp_all add: keeps_range_def draw_Cons)

lemma keeps_range_fold [range_intros]:
  assumes "\<And>x. x \<in> set xs \<Longrightarrow> keeps_range (g x)"
  shows "keeps_range (fold g xs)"
  unfolding keeps_range_def
  by (intro allI impI, rule fold_inv) (use assms in \<open>auto simp: keeps_range_def\<close>)

lemma keeps_range_for_up [range_intros]:
  assumes "\<And>i. a \<le> i \<Longrightarrow> i < b \<Longrightarrow> keeps_range (g i)"
  shows "keeps_range (for_up a b g)"
proof -
  have "keeps_range (fold g [a..b - 1])"
    by (rule keeps_range_fold) (use assms in auto)
  then show ?thesis by (simp add: for_up_def [abs_def])
qed

lemma scaled_le:
  assumes "0 \<le> (v::real)" "v \<le> 255" "0 \<le> k" "k \<le> 1"
  shows "v * k \<le> 255"
  using assms mult_mono [of v 255 k 1] by simp

lemma keeps_range_fbSet [range_intros]:
  "rgb_ok c \<Longrightarrow> 0 \<le> b \<Longrightarrow> b \<le> 1 \<Longrightarrow> keeps_range (fbSet x y c b)"
  unfolding keeps_range_def fbSet_def Let_def rgb_ok_def
  by (auto intro!: in_range_update scaled_le)

lemma keeps_range_fbDimAll [range_intros]: "0 \<le> k \<Longrightarrow> k \<le> 1 \<Longrightarrow> keeps_range (fbDimAll k)"
  unfolding keeps_range_def fbDimAll_def in_range_def list_all_iff
  by (auto intro: scaled_le)

lemma in_range_nth: "in_range f \<Longrightarrow> i < length f \<Longrightarrow> 0 \<le> f ! i \<and> f ! i \<le> 255"
  by (simp add: in_range_def list_all_length)

lemma keeps_range_fbDim [range_intros]:
  assumes "0 \<le> k" "k \<le> 1"
  shows "keeps_range (fbDim x y k)"
proof -
  have upd: "in_range (g[i := f ! i * k])" if "in_range f" "in_range g" "length g = length f" for f g i
  proof (cases "i < length f")
    case True
    then show ?thesis
      using that in_range_nth [OF that(1)] assms by (auto intro!: in_range_update scaled_le)
  qed (use that in \<open>simp add: list_update_beyond\<close>)
  show ?thesis
    unfolding keeps_range_def fbDim_def Let_def by (auto intro!: upd)
qed

lemma keeps_range_fbClear [range_intros]: "keeps_range fbClear"
  by (simp add: keeps_range_def fbClear_def in_range_def list_all_iff)

end
