(* ===== verification/PanelFont.thy ===== *)
theory PanelFont
  imports PanelFb
begin

section \<open>The panel's fonts and text placement\<close>

text \<open>
  Section 3 of \<^verbatim>\<open>screens-panel.jsx\<close> (the packed glyph tables and the text routines) and the
  placement helpers \<open>textFit\<close>, \<open>textRight\<close>, \<open>textCentre\<close> and \<open>pageBar\<close> of section 4.  A
  glyph is a number whose bits are its pixels, the top row in the high bits.  The lemmas give
  the bounding box of every routine; the properties at the end are about placement.
\<close>

definition FONT_SMALL :: "(char \<times> nat) list" where
  "FONT_SMALL = [
    (CHR ''0'', 0x7B6F), (CHR ''1'', 0x2C97), (CHR ''2'', 0x73E7), (CHR ''3'', 0x73CF),
    (CHR ''4'', 0x5BC9), (CHR ''5'', 0x79CF), (CHR ''6'', 0x79EF), (CHR ''7'', 0x7292),
    (CHR ''8'', 0x7BEF), (CHR ''9'', 0x7BCF), (CHR ''A'', 0x7BED), (CHR ''B'', 0x6BAE),
    (CHR ''C'', 0x7927), (CHR ''D'', 0x6B6E), (CHR ''E'', 0x79E7), (CHR ''F'', 0x79E4),
    (CHR ''G'', 0x796F), (CHR ''H'', 0x5BED), (CHR ''I'', 0x7497), (CHR ''J'', 0x126F),
    (CHR ''K'', 0x5BAD), (CHR ''L'', 0x4927), (CHR ''M'', 0x5FED), (CHR ''N'', 0x6B6D),
    (CHR ''O'', 0x7B6F), (CHR ''P'', 0x7BE4), (CHR ''Q'', 0x7B79), (CHR ''R'', 0x7BF5),
    (CHR ''S'', 0x79CF), (CHR ''T'', 0x7492), (CHR ''U'', 0x5B6F), (CHR ''V'', 0x5B6A),
    (CHR ''W'', 0x5BFD), (CHR ''X'', 0x5AAD), (CHR ''Y'', 0x5A92), (CHR ''Z'', 0x72A7),
    (CHR ''/'', 0x12A4), (CHR '':'', 0x0410), (CHR ''.'', 0x0002), (CHR ''-'', 0x01C0),
    (CHR ''%'', 0x52A5), (CHR ''+'', 0x05D0), (CHR ''>'', 0x4454), (CHR ''!'', 0x2482),
    (CHR '' '', 0x0000)]"

definition FONT_BIG :: "(char \<times> nat) list" where
  "FONT_BIG = [
    (CHR ''0'', 0x6999996), (CHR ''1'', 0x2622227), (CHR ''2'', 0x691248F),
    (CHR ''3'', 0xE11611E), (CHR ''4'', 0x26AAF22), (CHR ''5'', 0xF88E196),
    (CHR ''6'', 0x688E996), (CHR ''7'', 0xF122444), (CHR ''8'', 0x6996996),
    (CHR ''9'', 0x6997116), (CHR ''.'', 0x0000006), (CHR ''%'', 0x9922499),
    (CHR ''G'', 0x788B996), (CHR ''M'', 0x9FF9999), (CHR ''S'', 0x788611E),
    (CHR '' '', 0x0000000)]"

definition glyphSmall :: "char \<Rightarrow> nat" where
  "glyphSmall ch = (case map_of FONT_SMALL (up_char ch) of None \<Rightarrow> 0 | Some g \<Rightarrow> g)"

definition glyphBig :: "char \<Rightarrow> nat" where
  "glyphBig ch = (case map_of FONT_BIG (up_char ch) of None \<Rightarrow> 0 | Some g \<Rightarrow> g)"

definition textW :: "string \<Rightarrow> int" where
  "textW s = int (length s) * 4 - 1"

definition bigW :: "string \<Rightarrow> int" where
  "bigW s = int (length s) * 5 - 1"

definition textInk :: "real \<Rightarrow> real" where
  "textInk b = (if b \<le> 0 then 0 else if b \<ge> 1 then 1 else 0.85 + 0.15 * b)"

subsection \<open>Text routines\<close>

definition drawSmall :: "int \<Rightarrow> int \<Rightarrow> char \<Rightarrow> rgb \<Rightarrow> real \<Rightarrow> fb \<Rightarrow> fb" where
  "drawSmall cx y ch c b =
     for_up 0 5 (\<lambda>ry. for_up 0 3 (\<lambda>rx.
       if bit (glyphSmall ch) (nat (14 - (ry * 3 + rx)))
       then fbSet (cx + rx) (y + ry) c (textInk b) else noop))"

text \<open>The walk over the characters, advancing the pen; the pen's final position is returned.\<close>

fun text_walk :: "(int \<Rightarrow> char \<Rightarrow> fb \<Rightarrow> fb) \<Rightarrow> int \<Rightarrow> int \<Rightarrow> string \<Rightarrow> fb \<Rightarrow> int \<times> fb" where
  "text_walk d adv cx [] f = (cx, f)"
| "text_walk d adv cx (ch # s) f = text_walk d adv (cx + adv) s (d cx ch f)"

definition panelTextRet :: "int \<Rightarrow> int \<Rightarrow> string \<Rightarrow> rgb \<Rightarrow> real \<Rightarrow> fb \<Rightarrow> int \<times> fb" where
  "panelTextRet x y s c b = text_walk (\<lambda>cx ch. drawSmall cx y ch c b) 4 x s"

definition panelText :: "int \<Rightarrow> int \<Rightarrow> string \<Rightarrow> rgb \<Rightarrow> real \<Rightarrow> fb \<Rightarrow> fb" where
  "panelText x y s c b f = snd (panelTextRet x y s c b f)"

definition dimHalo :: "int \<Rightarrow> int \<Rightarrow> char \<Rightarrow> fb \<Rightarrow> fb" where
  "dimHalo cx y ch =
     for_up 0 5 (\<lambda>ry. for_up 0 3 (\<lambda>rx.
       if \<not> bit (glyphSmall ch) (nat (14 - (ry * 3 + rx))) then noop
       else for_up (-1) 2 (\<lambda>dy. for_up (-1) 2 (\<lambda>dx. fbDim (cx + rx + dx) (y + ry + dy) 0.12))))"

definition panelTextOver :: "int \<Rightarrow> int \<Rightarrow> string \<Rightarrow> rgb \<Rightarrow> real \<Rightarrow> fb \<Rightarrow> int \<times> fb" where
  "panelTextOver x y s c b f =
     panelTextRet x y s c b (snd (text_walk (\<lambda>cx ch. dimHalo cx y ch) 4 x s f))"

definition drawBig :: "int \<Rightarrow> int \<Rightarrow> char \<Rightarrow> rgb \<Rightarrow> real \<Rightarrow> fb \<Rightarrow> fb" where
  "drawBig cx y ch c b =
     for_up 0 7 (\<lambda>ry. for_up 0 4 (\<lambda>rx.
       if bit (glyphBig ch) (nat (27 - (ry * 4 + rx))) then fbSet (cx + rx) (y + ry) c b else noop))"

definition panelBigRet :: "int \<Rightarrow> int \<Rightarrow> string \<Rightarrow> rgb \<Rightarrow> real \<Rightarrow> fb \<Rightarrow> int \<times> fb" where
  "panelBigRet x y s c b = text_walk (\<lambda>cx ch. drawBig cx y ch c b) 5 x s"

definition panelBig :: "int \<Rightarrow> int \<Rightarrow> string \<Rightarrow> rgb \<Rightarrow> real \<Rightarrow> fb \<Rightarrow> fb" where
  "panelBig x y s c b f = snd (panelBigRet x y s c b f)"

definition trimEnd :: "string \<Rightarrow> string" where
  "trimEnd s = rev (dropWhile (\<lambda>c. c = CHR '' '') (rev s))"

definition textFit :: "int \<Rightarrow> int \<Rightarrow> string \<Rightarrow> int \<Rightarrow> rgb \<Rightarrow> real \<Rightarrow> fb \<Rightarrow> fb" where
  "textFit x y s n c b = panelText x y (trimEnd (slice0 n s)) c b"

definition textRight :: "int \<Rightarrow> int \<Rightarrow> string \<Rightarrow> rgb \<Rightarrow> real \<Rightarrow> fb \<Rightarrow> fb" where
  "textRight x y s c b = panelText (x - textW s + 1) y s c b"

definition textCentre :: "int \<Rightarrow> string \<Rightarrow> rgb \<Rightarrow> real \<Rightarrow> fb \<Rightarrow> fb" where
  "textCentre y s0 c b =
     (let s = slice0 13 s0 in panelText ((PW - textW s) div 2) y s c b)"

subsection \<open>Paging\<close>

definition pageCount :: "nat \<Rightarrow> nat \<Rightarrow> int" where
  "pageCount n k = max 1 \<lceil>real n / real k\<rceil>"

definition pageBar :: "int \<Rightarrow> int \<Rightarrow> fb \<Rightarrow> fb" where
  "pageBar p n =
     (if n \<le> 1 then noop
      else for_up (p * PW div n) ((p + 1) * PW div n) (\<lambda>x. fbSet x 5 cAzure 0.45))"

subsection \<open>Bounding boxes\<close>

definition box :: "int \<Rightarrow> int \<Rightarrow> int \<Rightarrow> int \<Rightarrow> int \<Rightarrow> int \<Rightarrow> bool" where
  "box x0 x1 y0 y1 x y \<longleftrightarrow> x0 \<le> x \<and> x < x1 \<and> y0 \<le> y \<and> y < y1"

lemma textInk_range [range_intros]: "0 \<le> textInk b" "textInk b \<le> 1"
  by (auto simp: textInk_def)

lemma touches_drawSmall: "touches (box cx (cx + 3) y (y + 5)) (drawSmall cx y ch c b)"
  unfolding drawSmall_def by (intro touch_intros) (auto simp: box_def)

lemma touches_drawBig: "touches (box cx (cx + 4) y (y + 7)) (drawBig cx y ch c b)"
  unfolding drawBig_def by (intro touch_intros) (auto simp: box_def)

lemma text_walk_pen: "fst (text_walk d adv cx s f) = cx + adv * int (length s)"
  by (induction s arbitrary: cx f) (auto simp: algebra_simps)

lemma touches_text_walk:
  assumes "\<And>cx ch. touches (box cx (cx + w) y (y + h)) (d cx ch)" and "w \<le> adv" and "0 \<le> adv"
  shows "touches (box cx (cx + adv * int (length s) - (adv - w)) y (y + h))
    (\<lambda>f. snd (text_walk d adv cx s f))"
proof (induction s arbitrary: cx)
  case Nil
  then show ?case by (auto intro: touchesI)
next
  case (Cons ch s)
  let ?R = "box cx (cx + adv * int (length (ch # s)) - (adv - w)) y (y + h)"
  have "0 \<le> adv * int (length s)" using assms(3) by simp
  then have "touches ?R (d cx ch)"
    by (intro touches_mono [OF assms(1)]) (auto simp: box_def algebra_simps)
  moreover have "touches ?R (\<lambda>f. snd (text_walk d adv (cx + adv) s f))"
    by (rule touches_mono [OF Cons.IH]) (use assms(2,3) in \<open>auto simp: box_def algebra_simps\<close>)
  ultimately show ?case using touches_comp by fastforce
qed

lemma touches_panelText: "touches (box x (x + textW s) y (y + 5)) (panelText x y s c b)"
  using touches_text_walk [where d = "\<lambda>cx ch. drawSmall cx y ch c b" and adv = 4 and cx = x and s = s,
    OF touches_drawSmall]
  by (simp add: panelText_def [abs_def] panelTextRet_def textW_def algebra_simps)

lemma touches_panelBig: "touches (box x (x + bigW s) y (y + 7)) (panelBig x y s c b)"
  using touches_text_walk [where d = "\<lambda>cx ch. drawBig cx y ch c b" and adv = 5 and cx = x and s = s,
    OF touches_drawBig]
  by (simp add: panelBig_def [abs_def] panelBigRet_def bigW_def algebra_simps)

lemma length_trimEnd: "length (trimEnd s) \<le> length s"
  by (simp add: trimEnd_def) (metis length_dropWhile_le length_rev)

lemma touches_textFit:
  assumes "0 \<le> n"
  shows "touches (box x (x + 4 * n - 1) y (y + 5)) (textFit x y s n c b)"
proof -
  have "length (trimEnd (slice0 n s)) \<le> nat n"
    using assms length_trimEnd length_slice0 le_trans by blast
  then have "textW (trimEnd (slice0 n s)) \<le> 4 * n - 1"
    using assms by (simp add: textW_def)
  then show ?thesis
    unfolding textFit_def by (intro touches_mono [OF touches_panelText]) (auto simp: box_def)
qed

lemma touches_textRight: "touches (box (x - textW s + 1) (x + 1) y (y + 5)) (textRight x y s c b)"
  unfolding textRight_def by (intro touches_mono [OF touches_panelText]) (auto simp: box_def)

lemma touches_textCentre: "touches (box 1 52 y (y + 5)) (textCentre y s c b)"
proof -
  have "length (slice0 13 s) \<le> 13" using length_slice0 [of 13 s] by simp
  then show ?thesis
    unfolding textCentre_def Let_def
    by (intro touches_mono [OF touches_panelText]) (auto simp: box_def textW_def)
qed

lemma touches_pageBar: "touches (box 0 53 5 6) (pageBar p n)"
  unfolding pageBar_def by (intro touch_intros) (auto simp: box_def on_panel_iff)

lemmas text_boxes = touches_panelText touches_panelBig touches_textFit touches_textRight
  touches_textCentre touches_pageBar

text \<open>The same routines with the whole panel as region, for the well-formedness of renderers.\<close>

definition anywhere :: "int \<Rightarrow> int \<Rightarrow> bool" where
  "anywhere x y \<longleftrightarrow> True"

lemma anywhere [simp]: "anywhere x y"
  by (simp add: anywhere_def)

lemma touches_anywhere [touch_intros]:
  "touches anywhere (panelText x y s c b)" "touches anywhere (panelBig x y s c b)"
  "touches anywhere (textFit x y s n c b)" "touches anywhere (textRight x y s c b)"
  "touches anywhere (textCentre y s c b)" "touches anywhere (pageBar p k)"
  unfolding textFit_def
  by (rule touches_mono [OF touches_panelText] touches_mono [OF touches_panelBig]
      touches_mono [OF touches_textRight] touches_mono [OF touches_textCentre] touches_mono [OF touches_pageBar], simp)+

subsection \<open>Channel range of text\<close>

lemma keeps_range_text_walk:
  "(\<And>cx ch. keeps_range (d cx ch)) \<Longrightarrow> keeps_range (\<lambda>f. snd (text_walk d adv cx s f))"
  unfolding keeps_range_def
proof (intro allI impI)
  fix f
  assume d: "\<And>cx ch. \<forall>f. in_range f \<longrightarrow> in_range (d cx ch f)" and f: "in_range f"
  from f show "in_range (snd (text_walk d adv cx s f))"
    by (induction s arbitrary: cx f) (auto simp: d)
qed

lemma keeps_range_panelText [range_intros]: "rgb_ok c \<Longrightarrow> keeps_range (panelText x y s c b)"
  unfolding panelText_def [abs_def] panelTextRet_def drawSmall_def
  by (intro keeps_range_text_walk range_intros)

lemma keeps_range_panelBig [range_intros]:
  "rgb_ok c \<Longrightarrow> 0 \<le> b \<Longrightarrow> b \<le> 1 \<Longrightarrow> keeps_range (panelBig x y s c b)"
  unfolding panelBig_def [abs_def] panelBigRet_def drawBig_def
  by (intro keeps_range_text_walk range_intros)

lemma keeps_range_placed [range_intros]:
  "rgb_ok c \<Longrightarrow> keeps_range (textFit x y s n c b)"
  "rgb_ok c \<Longrightarrow> keeps_range (textRight x y s c b)"
  "rgb_ok c \<Longrightarrow> keeps_range (textCentre y s c b)"
  unfolding textFit_def textRight_def textCentre_def Let_def by (intro range_intros; assumption)+

lemma keeps_range_pageBar [range_intros]: "keeps_range (pageBar p n)"
  unfolding pageBar_def by (intro range_intros) auto

subsection \<open>The page bar\<close>

lemma pix_new: "on_panel x y \<Longrightarrow> pix fbNew x y = (0, 0, 0)"
  using fb_index_bound [of x y] unfolding pix_def fbNew_def Let_def by (simp del: PW_def PH_def)

lemma pix_pageBar:
  assumes "1 < n" "0 \<le> x" "x < 53"
  shows "pix (pageBar p n fbNew) x 5 = shade cAzure 0.45 \<longleftrightarrow> p * PW div n \<le> x \<and> x < (p + 1) * PW div n"
proof -
  have x: "on_panel x 5" using assms by (simp add: on_panel_iff)
  have "shade cAzure 0.45 \<noteq> (0, 0, 0)" by (simp add: shade_def palette_defs)
  then show ?thesis
    using assms(1) lit.pread_run [OF fb_ok_new x, of "p * PW div n" "(p + 1) * PW div n" 5
      "\<lambda>_. cAzure" "\<lambda>_. 0.45"] pix_new [OF x]
    by (auto simp: pageBar_def simp del: PW_def)
qed

text \<open>With two or more pages, each of the 53 columns of the separator row is lit by
  the bar of exactly one page.\<close>

theorem pageBar_partitions_row:
  assumes "1 < n" "0 \<le> x" "x < PW"
  shows "\<exists>!p. 0 \<le> p \<and> p < n \<and> pix (pageBar p n fbNew) x 5 = shade cAzure 0.45"
proof -
  have "x < 53" using assms(3) by simp
  note bar = pix_pageBar [OF assms(1,2) this]
  show ?thesis unfolding bar using seg_unique [of n PW x] assms by simp
qed

theorem pageBar_partitions_row_witness:
  "(1::int) < 3 \<and> (0::int) \<le> 20 \<and> 20 < PW \<and>
   (\<exists>!p. 0 \<le> p \<and> p < 3 \<and> pix (pageBar p 3 fbNew) 20 5 = shade cAzure 0.45)"
  using pageBar_partitions_row [of 3 20] by simp

end
