(* ===== verification/PanelHist.thy ===== *)
theory PanelHist
  imports PanelFont
begin

section \<open>History rings and the render environment\<close>

text \<open>
  Section 4 of \<^verbatim>\<open>screens-panel.jsx\<close>: the numeric helpers, the resampling of the poll history
  onto the panel's 53 slots (\<open>resampleRings\<close>) and the environment every renderer reads
  (\<open>buildEnv\<close>).  A sample is the JSON document one poll of \<open>/api/panel\<close> returned; samples are
  in chronological order and there is at least one.
\<close>

definition HIST_LEN :: nat where [simp]: "HIST_LEN = 53"
definition PEAK_FLOOR_KBPS :: real where [simp]: "PEAK_FLOOR_KBPS = 1000"
definition PEAK_DECAY :: real where [simp]: "PEAK_DECAY = 0.997"
definition CADENCE_MS_DEFAULT :: real where [simp]: "CADENCE_MS_DEFAULT = 5000"

definition clamp01 :: "real \<Rightarrow> real" where
  "clamp01 v = (if v < 0 then 0 else if v > 1 then 1 else v)"

definition ri :: "real \<Rightarrow> int" where
  "ri v = \<lfloor>v + 0.5\<rfloor>"

definition num :: "jval \<Rightarrow> real" where
  "num v = (case js_Number v of Fin r \<Rightarrow> r | _ \<Rightarrow> 0)"

definition f1 :: "real \<Rightarrow> string" where
  "f1 v = toFixed 1 v"

definition STATE_ENUM :: "(string \<times> real) list" where
  "STATE_ENUM = [(''ok'', ST_OK), (''up'', ST_OK), (''degraded'', ST_DEGRADED),
     (''down'', ST_DOWN), (''unknown'', ST_UNKNOWN), (''maint'', ST_MAINT)]"

fun stateEnum :: "jval \<Rightarrow> real" where
  "stateEnum (JNum s) = (if s \<ge> 0 \<and> s \<le> 4 then s else ST_UNKNOWN)"
| "stateEnum s =
     (case map_of STATE_ENUM (map low_char (js_String (jor s (JStr [])))) of
        None \<Rightarrow> ST_UNKNOWN | Some v \<Rightarrow> v)"

definition stateColor :: "real \<Rightarrow> rgb" where
  "stateColor s = (if s = 0 then cOk else if s = 1 then cWarn else if s = 2 then cCrit
     else if s = 3 then cUnknown else if s = 4 then cMaint else cUnknown)"

definition sampleMs :: "jval \<Rightarrow> real" where
  "sampleMs d = (let ts = num (jget d ''ts'') in if ts > 10 ^ 11 then ts else ts * 1000)"

subsection \<open>resampleRings\<close>

text \<open>The inner \<open>while\<close>: move on while the next sample is not later than the slot allows.\<close>

function advance :: "real list \<Rightarrow> real \<Rightarrow> nat \<Rightarrow> nat" where
  "advance ms lmt j =
     (if j + 1 < length ms \<and> ms ! (j + 1) \<le> lmt then advance ms lmt (j + 1) else j)"
  by pat_completeness auto
termination by (relation "measure (\<lambda>(ms, lmt, j). length ms - j)") auto

declare advance.simps [simp del]

text \<open>One slot: what it picks (nothing when even the current sample is later) and whether the
  pick is older than two cadences.\<close>

definition slotTime :: "real \<Rightarrow> real \<Rightarrow> nat \<Rightarrow> real" where
  "slotTime newest cadenceMs i = newest - real (HIST_LEN - 1 - i) * cadenceMs"

definition slot_step :: "jval list \<Rightarrow> real \<Rightarrow> nat \<Rightarrow> nat \<times> (jval option \<times> bool) list
    \<Rightarrow> nat \<times> (jval option \<times> bool) list" where
  "slot_step samples cadenceMs i st =
     (let ms = map sampleMs samples;
          slotT = slotTime (last ms) cadenceMs i;
          half = cadenceMs / 2;
          j = advance ms (slotT + half) (fst st);
          s = samples ! j
      in if sampleMs s > slotT + half then (j, snd st @ [(None, False)])
         else (j, snd st @ [(Some s, slotT - sampleMs s > 2 * cadenceMs)]))"

definition resample_slots :: "jval list \<Rightarrow> real \<Rightarrow> (jval option \<times> bool) list" where
  "resample_slots samples cadenceMs =
     snd (fold (slot_step samples cadenceMs) [0..<HIST_LEN] (0, []))"

definition firstReal :: "(jval option \<times> bool) list \<Rightarrow> nat" where
  "firstReal slots =
     (let k = length (takeWhile (\<lambda>p. fst p = None) slots)
      in if k \<ge> HIST_LEN then HIST_LEN - 1 else k)"

record ring_cell =
  rc_thru :: real
  rc_egress :: real
  rc_cpu :: real
  rc_rtt :: real

text \<open>One slot of the chronological replay: the peak decays, follows a higher sum and never
  falls under its floor; the slot is normalised against it.\<close>

definition peak_step :: "real \<Rightarrow> real \<Rightarrow> real \<Rightarrow> real" where
  "peak_step peak rx tx =
     (let p = peak * PEAK_DECAY;
          q = (if rx + tx > p then rx + tx else p)
      in if q < PEAK_FLOOR_KBPS then PEAK_FLOOR_KBPS else q)"

definition ring_step :: "jval \<Rightarrow> jval option \<times> bool \<Rightarrow> real \<times> nat \<times> ring_cell list
    \<Rightarrow> real \<times> nat \<times> ring_cell list" where
  "ring_step newest p st =
     (let (peak, gaps, cells) = st;
          s = (case fst p of Some q \<Rightarrow> q | None \<Rightarrow> newest);
          gaps' = (if snd p then gaps + 1 else gaps);
          rx = num (jget s ''rxKbps''); tx = num (jget s ''txKbps'');
          peak' = peak_step peak rx tx
      in (peak', gaps', cells @ [\<lparr>
            rc_thru = clamp01 (rx / peak'),
            rc_egress = clamp01 (tx / peak'),
            rc_cpu = clamp01 (num (jget s ''meanLoadPct'') / 100),
            rc_rtt = clamp01 (num (jget s ''rttTenthMs'') / 10 / 100)\<rparr>]))"

record rings =
  rg_cells :: "ring_cell list"
  rg_histFill :: nat
  rg_gaps :: nat
  rg_peakKbps :: real

definition resampleRings :: "jval list \<Rightarrow> real \<Rightarrow> rings" where
  "resampleRings samples cadenceMs =
     (let slots = resample_slots samples cadenceMs;
          k = firstReal slots;
          (peak, gaps, cells) =
            fold (ring_step (last samples)) (drop k slots) (PEAK_FLOOR_KBPS, 0, [])
      in \<lparr> rg_cells = replicate k (hd cells) @ cells,
           rg_histFill = HIST_LEN - k, rg_gaps = gaps, rg_peakKbps = peak \<rparr>)"

subsection \<open>buildEnv\<close>

text \<open>\<open>a.copyWithin(0, 1)\<close> followed by a store in the last slot.\<close>

definition push :: "real \<Rightarrow> real list \<Rightarrow> real list" where
  "push v a = tl a @ [v]"

definition unfilled :: "real list" where
  "unfilled = replicate HIST_LEN (-1)"

definition total_rate :: "string \<Rightarrow> jval \<Rightarrow> real" where
  "total_rate k q =
     (let totals = jget q ''totals'' in
      if truthy totals \<and> \<not> nullish (jget totals k) then num (jget totals k) else -1)"

definition cpu_local :: "jval \<Rightarrow> real" where
  "cpu_local q = num (jget q ''meanLoadPct'') / 100"

definition rtt_local :: "jval \<Rightarrow> real" where
  "rtt_local q = (if num (jget q ''lossPermille'') \<ge> 1000 then -1 else num (jget q ''rttTenthMs'') / 10)"

definition probe_cell :: "nat \<Rightarrow> jval \<Rightarrow> real" where
  "probe_cell k q =
     (let probe = jidx (jarr (jget q ''probes'')) (int k) in
      if truthy probe
      then (if num (jget probe ''lossPermille'') \<ge> 500 then 65535 else num (jget probe ''rttTenthMs''))
      else -1)"

definition replay :: "(jval \<Rightarrow> real) \<Rightarrow> jval list \<Rightarrow> real list" where
  "replay val samples = fold (\<lambda>q. push (val q)) samples unfilled"

record env =
  env_haveData :: bool
  env_raw :: jval
  env_alarmActive :: bool
  env_dataStale :: bool
  env_score :: real
  env_episodeId :: real
  env_up :: real
  env_deg :: real
  env_down :: real
  env_unknown :: real
  env_maint :: real
  env_total :: real
  env_histFill :: nat
  env_gaps :: nat
  env_wanDown :: "real list"
  env_wanUp :: "real list"
  env_lanDown :: "real list"
  env_lanUp :: "real list"
  env_probeHist :: "real list list"
  env_cpuLocal :: "real list"
  env_rttLocal :: "real list"
  env_hasAlert :: bool
  env_subject :: string
  env_detail :: string

definition roll_up :: "jval \<Rightarrow> real" where
  "roll_up roll = num (if \<not> nullish (jget roll ''up'') then jget roll ''up'' else jget roll ''ok'')"

definition buildEnv :: "jval list \<Rightarrow> real \<Rightarrow> env" where
  "buildEnv samples cadenceMs =
     (let d = last samples;
          roll = jor (jget d ''stateRoll'') (JObj []);
          rings = resampleRings samples cadenceMs;
          ta = jget d ''topAlert''
      in \<lparr> env_haveData = True, env_raw = d,
           env_alarmActive = truthy (jget d ''alarmActive''),
           env_dataStale = truthy (jget d ''dataStale''),
           env_score = num (jget d ''score''), env_episodeId = num (jget d ''episodeId''),
           env_up = roll_up roll, env_deg = num (jget roll ''degraded''),
           env_down = num (jget roll ''down''), env_unknown = num (jget roll ''unknown''),
           env_maint = num (jget roll ''maint''),
           env_total = roll_up roll + num (jget roll ''degraded'') + num (jget roll ''down'')
             + num (jget roll ''unknown'') + num (jget roll ''maint''),
           env_histFill = rg_histFill rings, env_gaps = rg_gaps rings,
           env_wanDown = replay (total_rate ''wanDownKbps'') samples,
           env_wanUp = replay (total_rate ''wanUpKbps'') samples,
           env_lanDown = replay (total_rate ''lanDownKbps'') samples,
           env_lanUp = replay (total_rate ''lanUpKbps'') samples,
           env_probeHist = map (\<lambda>k. replay (probe_cell k) samples) [0..<11],
           env_cpuLocal = replay cpu_local samples,
           env_rttLocal = replay rtt_local samples,
           env_hasAlert = truthy ta,
           env_subject = (if truthy ta then js_String (jor (jget ta ''subject'') (JStr []))
             else ''ALL NOMINAL''),
           env_detail = (if truthy ta then js_String (jor (jget ta ''detail'') (JStr []))
             else ''NO FINDINGS'') \<rparr>)"

subsection \<open>Helper facts\<close>

lemma clamp01_range [simp]: "0 \<le> clamp01 v" "clamp01 v \<le> 1"
  by (auto simp: clamp01_def)

lemma rgb_ok_stateColor [range_intros, simp]: "rgb_ok (stateColor s)"
  by (simp add: stateColor_def rgb_ok_palette)

lemma stateEnum_range: "0 \<le> stateEnum s \<and> stateEnum s \<le> 4"
  by (cases s) (auto simp: STATE_ENUM_def)

text \<open>\<open>advance\<close> stops at the last sample not after the limit, when the times are sorted and the
  walk starts at or before it.\<close>

lemma advance_ge: "j \<le> advance ms lmt j"
proof (induction ms lmt j rule: advance.induct)
  case (1 ms lmt j)
  then show ?case by (subst advance.simps) (auto dest: Suc_leD)
qed

lemma advance_bound: "j < length ms \<Longrightarrow> advance ms lmt j < length ms"
proof (induction ms lmt j rule: advance.induct)
  case (1 ms lmt j)
  then show ?case by (subst advance.simps) auto
qed

lemma advance_stop:
  "\<not> (advance ms lmt j + 1 < length ms \<and> ms ! (advance ms lmt j + 1) \<le> lmt)"
proof (induction ms lmt j rule: advance.induct)
  case (1 ms lmt j)
  then show ?case
    by (cases "j + 1 < length ms \<and> ms ! (j + 1) \<le> lmt") (simp_all add: advance.simps [of ms lmt j])
qed

lemma advance_le_lim: "j < advance ms lmt j \<Longrightarrow> ms ! advance ms lmt j \<le> lmt"
proof (induction ms lmt j rule: advance.induct)
  case (1 ms lmt j)
  show ?case
  proof (cases "j + 1 < length ms \<and> ms ! (j + 1) \<le> lmt")
    case True
    then have eq: "advance ms lmt j = advance ms lmt (j + 1)"
      by (simp add: advance.simps [of ms lmt j])
    show ?thesis
    proof (cases "j + 1 < advance ms lmt (j + 1)")
      case True
      with 1 eq \<open>j + 1 < length ms \<and> _\<close> show ?thesis by simp
    next
      case False
      with advance_ge [of "j + 1" ms lmt] have "advance ms lmt (j + 1) = j + 1" by simp
      with True eq show ?thesis by simp
    qed
  next
    case False
    then have "advance ms lmt j = j" by (subst advance.simps) auto
    with 1 show ?thesis by simp
  qed
qed

subsection \<open>The slots against a reference\<close>

text \<open>The reference: the latest sample not after a limit, by filtering the whole history.\<close>

definition latest :: "real \<Rightarrow> jval list \<Rightarrow> jval option" where
  "latest lmt samples =
     (let xs = filter (\<lambda>s. sampleMs s \<le> lmt) samples in if xs = [] then None else Some (last xs))"

definition slot_ref :: "jval list \<Rightarrow> real \<Rightarrow> nat \<Rightarrow> jval option \<times> bool" where
  "slot_ref samples cadenceMs i =
     (let slotT = slotTime (sampleMs (last samples)) cadenceMs i
      in case latest (slotT + cadenceMs / 2) samples of
           None \<Rightarrow> (None, False)
         | Some s \<Rightarrow> (Some s, slotT - sampleMs s > 2 * cadenceMs))"

lemma filter_le_prefix:
  assumes "sorted (map f xs)" "a < length xs" "f (xs ! a) \<le> (m::real)"
    and "a + 1 < length xs \<Longrightarrow> m < f (xs ! (a + 1))"
  shows "filter (\<lambda>x. f x \<le> m) xs = take (a + 1) xs"
proof -
  have "f (xs ! k) \<le> m" if "k \<le> a" for k
    using that assms(1-3) sorted_nth_mono [of "map f xs" k a] by simp
  then have front: "filter (\<lambda>x. f x \<le> m) (take (a + 1) xs) = take (a + 1) xs"
    by (auto simp: filter_id_conv in_set_conv_nth)
  have "m < f (xs ! k)" if "a < k" "k < length xs" for k
    using that assms(1,4) sorted_nth_mono [of "map f xs" "a + 1" k] by fastforce
  then have "filter (\<lambda>x. f x \<le> m) (drop (a + 1) xs) = []"
    by (auto simp: filter_empty_conv in_set_conv_nth not_le)
  with front show ?thesis
    by (metis append_Nil2 append_take_drop_id filter_append)
qed

lemma advance_latest:
  assumes "sorted (map sampleMs samples)" "j < length samples"
    and "j = 0 \<or> sampleMs (samples ! j) \<le> lmt"
  defines "a \<equiv> advance (map sampleMs samples) lmt j"
  shows "latest lmt samples =
    (if sampleMs (samples ! a) > lmt then None else Some (samples ! a))"
    and "a < length samples" and "a = 0 \<or> sampleMs (samples ! a) \<le> lmt"
proof -
  show len: "a < length samples"
    using advance_bound [of j "map sampleMs samples" lmt] assms(2) by (simp add: a_def)
  have stop: "a + 1 < length samples \<Longrightarrow> lmt < sampleMs (samples ! (a + 1))"
    using advance_stop [of "map sampleMs samples" lmt j] by (force simp: a_def)
  show start: "a = 0 \<or> sampleMs (samples ! a) \<le> lmt"
  proof (cases "j < a")
    case True
    then show ?thesis
      using advance_le_lim [of j "map sampleMs samples" lmt] len by (simp add: a_def)
  next
    case False
    with advance_ge [of j "map sampleMs samples" lmt] have "a = j" by (simp add: a_def)
    with assms(3) show ?thesis by simp
  qed
  show "latest lmt samples = (if sampleMs (samples ! a) > lmt then None else Some (samples ! a))"
  proof (cases "sampleMs (samples ! a) \<le> lmt")
    case True
    have "filter (\<lambda>s. sampleMs s \<le> lmt) samples = take (a + 1) samples"
      by (rule filter_le_prefix [OF assms(1) len True stop])
    with True len show ?thesis by (simp add: latest_def take_Suc_conv_app_nth)
  next
    case False
    with start have "a = 0" by simp
    with False have "lmt < sampleMs (samples ! k)" if "k < length samples" for k
      using that assms(1) len sorted_nth_mono [of "map sampleMs samples" 0 k] by simp
    then have "filter (\<lambda>s. sampleMs s \<le> lmt) samples = []"
      by (auto simp: filter_empty_conv in_set_conv_nth not_le)
    with False show ?thesis by (simp add: latest_def)
  qed
qed

lemma slots_prefix:
  assumes "sorted (map sampleMs samples)" "samples \<noteq> []" "0 \<le> cad" "n \<le> HIST_LEN"
  shows "\<exists>j. fold (slot_step samples cad) [0..<n] (0, []) = (j, map (slot_ref samples cad) [0..<n]) \<and>
    j < length samples \<and>
    (j = 0 \<or> (0 < n \<and> sampleMs (samples ! j) \<le> slotTime (sampleMs (last samples)) cad (n - 1) + cad / 2))"
  using assms(4)
proof (induction n)
  case 0
  then show ?case using assms(2) by simp
next
  case (Suc n)
  then obtain j where j: "fold (slot_step samples cad) [0..<n] (0, []) =
      (j, map (slot_ref samples cad) [0..<n])" "j < length samples"
    "j = 0 \<or> (0 < n \<and> sampleMs (samples ! j) \<le> slotTime (sampleMs (last samples)) cad (n - 1) + cad / 2)"
    by auto
  let ?T = "slotTime (sampleMs (last samples)) cad n"
  have "slotTime (sampleMs (last samples)) cad (n - 1) \<le> ?T"
    using Suc.prems assms(3) by (simp add: slotTime_def mult_right_mono)
  with j(3) have "j = 0 \<or> sampleMs (samples ! j) \<le> ?T + cad / 2" by fastforce
  note adv = advance_latest [OF assms(1) j(2) this]
  let ?a = "advance (map sampleMs samples) (?T + cad / 2) j"
  have "slot_step samples cad n (j, map (slot_ref samples cad) [0..<n]) =
    (?a, map (slot_ref samples cad) [0..<Suc n])"
    using adv(1) assms(2)
    by (simp add: slot_step_def slot_ref_def Let_def last_map split: if_splits)
  with j(1) adv(2,3) show ?case by simp
qed

lemma slots_eq_ref:
  assumes "sorted (map sampleMs samples)" "samples \<noteq> []" "0 \<le> cad"
  shows "resample_slots samples cad = map (slot_ref samples cad) [0..<HIST_LEN]"
  using slots_prefix [OF assms, of HIST_LEN] by (auto simp: resample_slots_def)

text \<open>Property C16. When the samples are in chronological order, the single forward sweep of
  \<open>resampleRings\<close> gives every one of the 53 slots exactly what a search of the whole history
  would: the latest sample not later than half a cadence after the slot's time, nothing when
  there is none, and a gap flag exactly when that sample is more than two cadences old.\<close>

theorem resample_slots_reference:
  assumes "sorted (map sampleMs samples)" "samples \<noteq> []" "0 \<le> cadenceMs"
  shows "resample_slots samples cadenceMs =
    map (\<lambda>i. let slotT = slotTime (sampleMs (last samples)) cadenceMs i
      in case latest (slotT + cadenceMs / 2) samples of
           None \<Rightarrow> (None, False)
         | Some s \<Rightarrow> (Some s, slotT - sampleMs s > 2 * cadenceMs)) [0..<HIST_LEN]"
  using slots_eq_ref [OF assms] by (simp add: slot_ref_def [abs_def])

definition two_samples :: "jval list" where
  "two_samples = [JObj [(''ts'', JNum 200000000000), (''meanLoadPct'', JNum 10)],
     JObj [(''ts'', JNum 200000005000), (''meanLoadPct'', JNum 50)]]"

lemma two_samples_ms: "map sampleMs two_samples = [200000000000, 200000005000]"
  by (simp add: two_samples_def sampleMs_def num_def)

theorem resample_slots_reference_witness:
  "sorted (map sampleMs two_samples) \<and> two_samples \<noteq> [] \<and> (0::real) \<le> 5000 \<and>
   resample_slots two_samples 5000 =
    map (\<lambda>i. let slotT = slotTime (sampleMs (last two_samples)) 5000 i
      in case latest (slotT + 5000 / 2) two_samples of
           None \<Rightarrow> (None, False)
         | Some s \<Rightarrow> (Some s, slotT - sampleMs s > 2 * 5000)) [0..<HIST_LEN]"
proof -
  have h: "sorted (map sampleMs two_samples)" "two_samples \<noteq> []"
    by (simp add: two_samples_ms) (simp add: two_samples_def)
  show ?thesis using h resample_slots_reference [OF h, of 5000] by simp
qed

subsection \<open>The rings\<close>

definition cell_ok :: "ring_cell \<Rightarrow> bool" where
  "cell_ok c \<longleftrightarrow> 0 \<le> rc_thru c \<and> rc_thru c \<le> 1 \<and> 0 \<le> rc_egress c \<and> rc_egress c \<le> 1 \<and>
     0 \<le> rc_cpu c \<and> rc_cpu c \<le> 1 \<and> 0 \<le> rc_rtt c \<and> rc_rtt c \<le> 1"

definition cpu_of :: "jval \<Rightarrow> jval option \<times> bool \<Rightarrow> real" where
  "cpu_of newest p =
     clamp01 (num (jget (case fst p of Some q \<Rightarrow> q | None \<Rightarrow> newest) ''meanLoadPct'') / 100)"

lemma peak_step_floor: "1000 \<le> peak_step peak rx tx"
  by (simp add: peak_step_def Let_def)

lemma peak_step_covers: "rx + tx \<le> peak_step peak rx tx"
  by (simp add: peak_step_def Let_def)

lemma ring_fold:
  assumes "1000 \<le> peak" "list_all cell_ok cells"
    and "fold (ring_step nw) ps (peak, gaps, cells) = (peak', gaps', cells')"
  shows "1000 \<le> peak' \<and> list_all cell_ok cells' \<and> length cells' = length cells + length ps \<and>
    gaps' = gaps + length (filter snd ps) \<and>
    map rc_cpu cells' = map rc_cpu cells @ map (cpu_of nw) ps"
  using assms
proof (induction ps arbitrary: peak gaps cells)
  case Nil
  then show ?case by simp
next
  case (Cons p ps)
  obtain pk gp cs where st: "ring_step nw p (peak, gaps, cells) = (pk, gp, cs)"
    by (cases "ring_step nw p (peak, gaps, cells)") auto
  note eqs = st [symmetric, unfolded ring_step_def Let_def, simplified]
  have "1000 \<le> pk" using eqs peak_step_floor by simp
  moreover have "\<exists>c. cs = cells @ [c] \<and> cell_ok c"
    unfolding conjunct2 [OF conjunct2 [OF eqs]] by (simp add: cell_ok_def)
  then have "list_all cell_ok cs" using Cons.prems(2) by auto
  moreover note this
  moreover have "length cs = length cells + 1" "gp = gaps + (if snd p then 1 else 0)"
    "map rc_cpu cs = map rc_cpu cells @ [cpu_of nw p]" using eqs by (simp_all add: cpu_of_def)
  ultimately show ?case using Cons.IH [of pk cs gp] Cons.prems(3) st by simp
qed

lemma length_slots: "length (resample_slots samples cad) = HIST_LEN"
proof -
  have "length (snd (fold (slot_step samples cad) is st)) = length (snd st) + length is" for "is" st
    by (induction "is" arbitrary: st) (auto simp: slot_step_def Let_def)
  from this [of "[0..<HIST_LEN]" "(0, [])"] show ?thesis
    by (simp add: resample_slots_def)
qed

lemma firstReal_less: "firstReal slots < HIST_LEN"
  by (simp add: firstReal_def Let_def)

lemma rings_shape:
  fixes cad :: real
  assumes "samples \<noteq> []"
  defines "r \<equiv> resampleRings samples cad" and "slots \<equiv> resample_slots samples cad"
  shows "length (rg_cells r) = HIST_LEN" "list_all cell_ok (rg_cells r)" "1000 \<le> rg_peakKbps r"
    "1 \<le> rg_histFill r" "rg_histFill r \<le> HIST_LEN"
    "rc_cpu (last (rg_cells r)) = cpu_of (last samples) (last slots)"
proof -
  let ?k = "firstReal slots"
  obtain pk gp cs where f: "fold (ring_step (last samples)) (drop ?k slots) (PEAK_FLOOR_KBPS, 0, []) = (pk, gp, cs)"
    by (metis prod_cases3)
  have len: "length (drop ?k slots) = HIST_LEN - ?k" and k: "?k < HIST_LEN"
    using length_slots firstReal_less by (simp_all add: slots_def)
  note g = ring_fold [OF _ _ f, simplified]
  have r: "r = \<lparr> rg_cells = replicate ?k (hd cs) @ cs, rg_histFill = HIST_LEN - ?k,
      rg_gaps = gp, rg_peakKbps = pk \<rparr>"
    using f by (simp add: r_def resampleRings_def slots_def Let_def)
  have ne: "cs \<noteq> []" "drop ?k slots \<noteq> []"
    using g len k by auto
  have "hd cs \<in> set cs" using ne by simp
  then have hd: "cell_ok (hd cs)" using g by (simp add: list_all_iff)
  show "length (rg_cells r) = HIST_LEN" "1000 \<le> rg_peakKbps r" "1 \<le> rg_histFill r"
    "rg_histFill r \<le> HIST_LEN" using g len k by (auto simp: r)
  show "list_all cell_ok (rg_cells r)"
    using g hd by (auto simp: r list_all_iff)
  have "rc_cpu (last cs) = last (map rc_cpu cs)" using ne by (simp add: last_map)
  also have "\<dots> = cpu_of (last samples) (last (drop ?k slots))"
    using g ne by (simp add: last_map)
  finally show "rc_cpu (last (rg_cells r)) = cpu_of (last samples) (last slots)"
    using ne by (simp add: r last_drop)
qed

text \<open>For every non-empty history the resampled rings are well formed: 53 cells, each
  of their four values within 0 and 1, a filled span of 1 to 53 slots and a normalising peak of
  at least 1000 kbit/s.\<close>

theorem resampleRings_wellformed:
  assumes "samples \<noteq> []"
  shows "length (rg_cells (resampleRings samples cad)) = HIST_LEN \<and>
    list_all (\<lambda>c. 0 \<le> rc_thru c \<and> rc_thru c \<le> 1 \<and> 0 \<le> rc_egress c \<and> rc_egress c \<le> 1 \<and>
      0 \<le> rc_cpu c \<and> rc_cpu c \<le> 1 \<and> 0 \<le> rc_rtt c \<and> rc_rtt c \<le> 1)
      (rg_cells (resampleRings samples cad)) \<and>
    1000 \<le> rg_peakKbps (resampleRings samples cad) \<and>
    1 \<le> rg_histFill (resampleRings samples cad) \<and>
    rg_histFill (resampleRings samples cad) \<le> HIST_LEN"
  using rings_shape [OF assms, of cad] by (simp add: cell_ok_def [abs_def])

theorem resampleRings_wellformed_witness:
  "two_samples \<noteq> [] \<and> length (rg_cells (resampleRings two_samples 5000)) = HIST_LEN"
  using resampleRings_wellformed [of two_samples 5000] by (simp add: two_samples_def)

subsection \<open>The replayed rings\<close>

lemma fold_push: "length r = Suc n \<Longrightarrow> fold push vs r = keep_last (Suc n) (r @ vs)"
proof (induction vs arbitrary: r)
  case Nil
  then show ?case by (simp add: keep_last_def)
next
  case (Cons v vs)
  then have len: "length (push v r) = Suc n" by (simp add: push_def)
  have "fold push (v # vs) r = keep_last (Suc n) (push v r @ vs)"
    using Cons.IH [OF len] by simp
  also have "\<dots> = keep_last (Suc n) (r @ v # vs)"
    using Cons.prems by (cases r) (auto simp: push_def keep_last_def)
  finally show ?case .
qed

lemma replay_keeps_last:
  "replay val samples = keep_last HIST_LEN (unfilled @ map val samples)"
proof -
  have "replay val samples = fold push (map val samples) unfilled"
    by (simp add: replay_def fold_map comp_def)
  also have "\<dots> = keep_last HIST_LEN (unfilled @ map val samples)"
    using fold_push [of unfilled 52] by (simp add: unfilled_def)
  finally show ?thesis .
qed

text \<open>A firmware-local ring holds, newest at the right, the values of the last 53
  samples, and the unfilled marker -1 in front of them while fewer have arrived.\<close>

theorem replay_keeps_last_53:
  "replay val samples = keep_last HIST_LEN (replicate HIST_LEN (-1) @ map val samples)"
  by (simp only: replay_keeps_last unfilled_def)

lemma length_replay: "length (replay val samples) = HIST_LEN"
  by (simp add: replay_keeps_last unfilled_def)

end
