(* ===== verification/PanelClock.thy ===== *)
theory PanelClock
  imports PanelFont PanelHist
begin

section \<open>The renderers' module state, page clock and labels\<close>

text \<open>
  The sixteen renderers of \<^verbatim>\<open>screens-panel.jsx\<close> share three module-level variables: the page
  clocks, the particle phases of the traffic lanes and the aurora's phase.  They are the record
  \<open>ms\<close>, passed in and returned.  A renderer is a function of the environment and the module
  state; its result is the new module state and the drawing, an operation on the framebuffer.

  A row of a payload's table that is \<open>null\<close> reads as a row with no properties here; the
  source raises a \<open>TypeError\<close> where it does not test the row first.
\<close>

record ms =
  ms_pageClock :: "real list"
  ms_lanePhase :: "nat \<Rightarrow> real"
  ms_auroraPhase :: real

definition ms_init :: ms where
  "ms_init = \<lparr> ms_pageClock = replicate 16 0, ms_lanePhase = (\<lambda>_. 0), ms_auroraPhase = 0 \<rparr>"

definition ms_ok :: "ms \<Rightarrow> bool" where
  "ms_ok m \<longleftrightarrow> length (ms_pageClock m) = 16 \<and> list_all (\<lambda>c. 0 \<le> c \<and> c < 768) (ms_pageClock m) \<and>
     (\<forall>k. 0 \<le> ms_lanePhase m k)"

text \<open>The remainder operator: the sign is the dividend's.\<close>

definition js_fmod :: "real \<Rightarrow> real \<Rightarrow> real" where
  "js_fmod x m = x - m * of_int (js_trunc (x / m))"

definition js_rem :: "int \<Rightarrow> int \<Rightarrow> int" where
  "js_rem a b = (if a < 0 then - ((- a) mod b) else a mod b)"

definition pageFor :: "nat \<Rightarrow> real \<Rightarrow> int \<Rightarrow> ms \<Rightarrow> int \<times> ms" where
  "pageFor i dt p m =
     (let clk = js_fmod (ms_pageClock m ! i + dt) (3 * 256)
      in (js_rem \<lfloor>clk / 3\<rfloor> (max 1 p), m\<lparr>ms_pageClock := (ms_pageClock m)[i := clk]\<rparr>))"

text \<open>The source calls \<open>Math.log10\<close> above 1 only, where it agrees with the real logarithm.\<close>

definition panelRateLevel :: "real \<Rightarrow> real" where
  "panelRateLevel v = (if v \<le> 1 then 0 else min 1 (log 10 v / 6))"

definition RATE_MAX :: real where
  "RATE_MAX = 4294967294"

definition rateLabel :: "real option \<Rightarrow> string" where
  "rateLabel k0 = (case k0 of None \<Rightarrow> ''--'' | Some k \<Rightarrow>
     (if k < 1000 then int_str \<lfloor>k\<rfloor> @ ''K''
      else let m = k / 1000 in
        if m < 9.95 then toFixed 1 m @ ''M''
        else if m < 999.5 then int_str \<lfloor>m + 0.5\<rfloor> @ ''M''
        else if m < 9950 then toFixed 1 (m / 1000) @ ''G''
        else int_str \<lfloor>m / 1000 + 0.5\<rfloor> @ ''G''))"

definition linkKind :: "jval \<Rightarrow> real" where
  "linkKind k = (case k of
       JStr s \<Rightarrow> (case map_of [(''wan'', 0), (''trunk'', 1), (''wifi'', 2), (''host'', 3)] (map low_char s)
                  of Some v \<Rightarrow> v | None \<Rightarrow> 0)
     | _ \<Rightarrow> num k)"

text \<open>\<open>[cInk, cAzure, cMaint, cOk][kind] || cOk\<close>.\<close>

definition kindColor :: "real \<Rightarrow> rgb" where
  "kindColor k = (if k = 0 then cInk else if k = 1 then cAzure else if k = 2 then cMaint else cOk)"

text \<open>\<open>for (z = z0; z <= lmt; z += step)\<close>.  The source's step is positive (see
  \<open>spacing_pos\<close>); without that the loop would not end.\<close>

function every :: "real \<Rightarrow> real \<Rightarrow> real \<Rightarrow> real list" where
  "every step lmt z = (if step \<le> 0 \<or> lmt < z then [] else z # every step lmt (z + step))"
  by auto
termination
proof (relation "measure (\<lambda>(step, lmt, z). nat \<lceil>(lmt - z) / step + 1\<rceil>)", simp)
  fix step lmt z :: real
  assume "\<not> (step \<le> 0 \<or> lmt < z)"
  then have s: "0 < step" and "0 \<le> (lmt - z) / step" by auto
  moreover have "(lmt - (z + step)) / step = (lmt - z) / step - 1"
    using s by (simp add: field_simps)
  ultimately show "((step, lmt, z + step), step, lmt, z) \<in> measure (\<lambda>(step, lmt, z). nat \<lceil>(lmt - z) / step + 1\<rceil>)"
    by simp
qed

declare every.simps [simp del]

definition spacing :: "real \<Rightarrow> real" where
  "spacing rate = 14 - 11 * panelRateLevel rate"

definition speed :: "real \<Rightarrow> real" where
  "speed rate = 2 + 22 * panelRateLevel rate"

subsection \<open>Facts\<close>

lemma panelRateLevel_range: "0 \<le> panelRateLevel v" "panelRateLevel v \<le> 1"
  by (auto simp: panelRateLevel_def)

lemma panelRateLevel_mono: "v \<le> w \<Longrightarrow> panelRateLevel v \<le> panelRateLevel w"
  by (auto simp: panelRateLevel_def divide_right_mono min_def)
    (smt (verit) log_le_cancel_iff)+

lemma spacing_pos: "3 \<le> spacing rate" "spacing rate \<le> 14"
  using panelRateLevel_range [of rate] by (simp_all add: spacing_def)

lemma speed_pos: "2 \<le> speed rate" "speed rate \<le> 24"
  using panelRateLevel_range [of rate] by (simp_all add: speed_def)

lemma js_fmod_range: "0 \<le> x \<Longrightarrow> 0 < m \<Longrightarrow> 0 \<le> js_fmod x m \<and> js_fmod x m < m"
proof -
  assume "0 \<le> x" "0 < m"
  then have "0 \<le> x / m" by simp
  then have "js_trunc (x / m) = \<lfloor>x / m\<rfloor>" by (simp only: js_trunc_def if_False not_less [symmetric])
  moreover have "of_int \<lfloor>x / m\<rfloor> * m \<le> x"
    using \<open>0 < m\<close> of_int_floor_le [of "x / m"] by (simp only: pos_le_divide_eq)
  moreover have "x < (of_int \<lfloor>x / m\<rfloor> + 1) * m"
    using \<open>0 < m\<close> floor_correct [of "x / m"] by (simp only: pos_divide_less_eq of_int_add of_int_1)
  ultimately show ?thesis by (simp add: js_fmod_def algebra_simps)
qed

lemma js_rem_range: "0 \<le> a \<Longrightarrow> 0 < b \<Longrightarrow> 0 \<le> js_rem a b \<and> js_rem a b < b"
  by (simp add: js_rem_def)

lemma rgb_ok_kindColor [range_intros, simp]: "rgb_ok (kindColor k)"
  by (simp add: kindColor_def rgb_ok_palette)

lemma ms_ok_init: "ms_ok ms_init"
  by (simp add: ms_ok_def ms_init_def list_all_iff)

lemma pageFor_props:
  assumes "ms_ok m" "i < 16" "0 \<le> dt" and e: "pageFor i dt p m = (k, m')"
  shows "0 \<le> k" "k < max 1 p" "ms_ok m'"
proof -
  let ?c = "js_fmod (ms_pageClock m ! i + dt) (3 * 256)"
  have "0 \<le> ms_pageClock m ! i"
    using assms(1,2) by (simp add: ms_ok_def list_all_length)
  with \<open>0 \<le> dt\<close> have c: "0 \<le> ?c" "?c < 768"
    using js_fmod_range [of "ms_pageClock m ! i + dt" "3 * 256"] by auto
  have "0 \<le> \<lfloor>?c / 3\<rfloor>" using c(1) by simp
  then show "0 \<le> k" "k < max 1 p"
    using e js_rem_range [of "\<lfloor>?c / 3\<rfloor>" "max 1 p"] by (auto simp: pageFor_def Let_def)
  have "list_all (\<lambda>c. 0 \<le> c \<and> c < 768) ((ms_pageClock m)[i := ?c])"
    using assms(1) c set_update_subset_insert [of "ms_pageClock m" i ?c]
    by (auto simp: ms_ok_def list_all_iff)
  with assms(1) e show "ms_ok m'"
    by (auto simp: ms_ok_def pageFor_def Let_def)
qed

subsection \<open>What a renderer keeps\<close>

text \<open>
  A renderer's result is acceptable when the new module state is well formed, the drawing keeps
  the framebuffer well formed and it keeps the channels in range.  The rules follow the
  structure of the renderers.
\<close>

definition renders :: "ms \<times> (fb \<Rightarrow> fb) \<Rightarrow> bool" where
  "renders r \<longleftrightarrow> ms_ok (fst r) \<and> touches anywhere (snd r) \<and> keeps_range (snd r)"

named_theorems render_intros \<open>introduction rules for renderers\<close>

lemma renders_pair [render_intros]:
  "ms_ok m \<Longrightarrow> touches anywhere op \<Longrightarrow> keeps_range op \<Longrightarrow> renders (m, op)"
  by (simp add: renders_def)

lemma renders_if [render_intros]:
  "(b \<Longrightarrow> renders r) \<Longrightarrow> (\<not> b \<Longrightarrow> renders s) \<Longrightarrow> renders (if b then r else s)"
  by simp

lemma renders_Let: "(\<And>x. renders (g x)) \<Longrightarrow> renders (Let a g)"
  by simp

lemma renders_page:
  assumes "ms_ok m" "i < 16" "0 \<le> dt"
    and "\<And>p m'. ms_ok m' \<Longrightarrow> 0 \<le> p \<Longrightarrow> p < max 1 n \<Longrightarrow> renders (g p m')"
  shows "renders (Let (pageFor i dt n m) (\<lambda>(p, m'). g p m'))"
proof -
  obtain p m' where e: "pageFor i dt n m = (p, m')" by (cases "pageFor i dt n m")
  show ?thesis using pageFor_props [OF assms(1-3) e] assms(4) by (simp add: e)
qed

lemma renders_then:
  assumes "renders r"
    and "\<And>m' op. ms_ok m' \<Longrightarrow> touches anywhere op \<Longrightarrow> keeps_range op \<Longrightarrow> renders (g m' op)"
  shows "renders (Let r (\<lambda>(m', op). g m' op))"
  using assms by (cases r) (simp add: renders_def)

lemma renders_phase: "ms_ok m \<Longrightarrow> 0 \<le> ph \<Longrightarrow> ms_ok (m\<lparr>ms_lanePhase := (ms_lanePhase m)(k := ph)\<rparr>)"
  by (simp add: ms_ok_def)

text \<open>Local names for a colour or a drawing are expanded; the others are generalised.\<close>

lemma Let_ops:
  "Let (kindColor k) g = g (kindColor k)" "Let (stateColor s) g = g (stateColor s)"
  "Let (textFit x y t n c b) f = f (textFit x y t n c b)" "Let (pageBar p n) f = f (pageBar p n)"
  by simp_all

lemmas screen_intros = renders_page renders_then renders_Let render_intros

end
