(* ===== verification/PanelFleet.thy ===== *)
theory PanelFleet
  imports PanelClock
begin

unbundle bit_operations_syntax

section \<open>The fleet screens A0 to A3\<close>

text \<open>
  The renderers \<open>sA0\<close> (host tiles), \<open>sA1\<close> (roster), \<open>sA2\<close> (pools) and \<open>sA3\<close> (head count) of
  \<^verbatim>\<open>screens-panel.jsx\<close>.  The properties are about the tile grid of \<open>sA0\<close>: up to one host per
  LED, the tiles lie on the panel, none is empty and no two overlap, so every host shows.
\<close>

subsection \<open>A0: the tiles\<close>

record tile =
  tile_state :: real
  tile_load :: real

text \<open>The entries of \<open>systems\<close> are the objects that the panel route builds; a null entry, on which the screen would raise, reads
  here as a host without fields.\<close>

definition host_tile :: "jval \<Rightarrow> tile" where
  "host_tile q = \<lparr> tile_state = stateEnum (jget q ''state''), tile_load = num (jget q ''loadPct'') / 100 \<rparr>"

text \<open>A packed byte of \<open>popTail\<close>: \<open>num(b) >> 5 & 7\<close> and \<open>(num(b) & 31) / 31\<close>.\<close>

definition tail_tile :: "jval \<Rightarrow> tile" where
  "tail_tile b = (let w = to_int32 (num b) in
     \<lparr> tile_state = of_int (sint (signed_drop_bit 5 w AND 7)), tile_load = of_int (sint (w AND 31)) / 31 \<rparr>)"

definition all_tiles :: "jval \<Rightarrow> tile list" where
  "all_tiles raw = map host_tile (jarr (jget raw ''systems'')) @ map tail_tile (jarr (jget raw ''popTail''))"

record grid =
  g_cols :: int
  g_rows :: int
  g_gx :: int
  g_gy :: int
  g_ba :: int
  g_bg :: int

definition grid_try :: "int \<Rightarrow> int \<Rightarrow> int \<Rightarrow> grid \<Rightarrow> grid" where
  "grid_try n r g G =
     (let c = \<lceil>(of_int n :: real) / of_int r\<rceil> in
      if c > PW then G
      else let ux = g mod 2; uy = g div 2;
               tw = (PW - (c - 1) * ux) div c; th = (PH - (r - 1) * uy) div r in
        if tw < 1 \<or> th < 1 then G
        else let ar = tw * th; gu = ux + uy in
          if ar > g_ba G \<or> ar = g_ba G \<and> gu > g_bg G
          then \<lparr> g_cols = c, g_rows = r, g_gx = ux, g_gy = uy, g_ba = ar, g_bg = gu \<rparr>
          else G)"

definition grid_init :: grid where
  "grid_init = \<lparr> g_cols = 1, g_rows = 1, g_gx = 0, g_gy = 0, g_ba = -1, g_bg = -1 \<rparr>"

definition tile_grid :: "int \<Rightarrow> grid" where
  "tile_grid n = for_up 1 (PH + 1) (\<lambda>r. for_up 0 4 (\<lambda>g. grid_try n r g)) grid_init"

definition tile_x0 :: "grid \<Rightarrow> int \<Rightarrow> int" where
  "tile_x0 G i = (i mod g_cols G) * (PW + g_gx G) div g_cols G"

definition tile_x1 :: "grid \<Rightarrow> int \<Rightarrow> int" where
  "tile_x1 G i = (i mod g_cols G + 1) * (PW + g_gx G) div g_cols G - g_gx G"

definition tile_y0 :: "grid \<Rightarrow> int \<Rightarrow> int" where
  "tile_y0 G i = (i div g_cols G) * (PH + g_gy G) div g_rows G"

definition tile_y1 :: "grid \<Rightarrow> int \<Rightarrow> int" where
  "tile_y1 G i = (i div g_cols G + 1) * (PH + g_gy G) div g_rows G - g_gy G"

text \<open>The brightness of a tile's row \<open>y\<close>.\<close>

definition tile_b :: "tile \<Rightarrow> int \<Rightarrow> int \<Rightarrow> int \<Rightarrow> real" where
  "tile_b q y0 y1 y =
     (let st = tile_state q; h = y1 - y0 in
      if st = ST_DOWN \<or> st = ST_UNKNOWN \<or> st = ST_MAINT then (if st = ST_DOWN then 1 else 0.35)
      else if h \<ge> 3 then
        (let lit = max 1 (ri (tile_load q * of_int h)) in if y \<ge> y1 - lit then 1 else 0.28)
      else 0.2 + 0.8 * tile_load q)"

definition draw_tile :: "grid \<Rightarrow> tile list \<Rightarrow> int \<Rightarrow> fb \<Rightarrow> fb" where
  "draw_tile G a i =
     (let q = a ! nat i; y0 = tile_y0 G i; y1 = tile_y1 G i in
      for_up y0 y1 (\<lambda>y. for_up (tile_x0 G i) (tile_x1 G i) (\<lambda>x.
        fbSet x y (stateColor (tile_state q)) (tile_b q y0 y1 y))))"

definition sA0 :: "env \<Rightarrow> fb \<Rightarrow> fb" where
  "sA0 e =
     (let a = all_tiles (env_raw e); n = int (length a) in
      if n = 0 then noop
      else for_up 0 n (draw_tile (tile_grid n) a))"

subsection \<open>A1: the roster\<close>

definition roster_word :: "real \<Rightarrow> jval \<Rightarrow> string" where
  "roster_word st q =
     (if st = ST_DOWN then ''DOWN'' else if st = ST_MAINT then ''MNT'' else if st = ST_UNKNOWN then ''?''
      else num_str (num (jget q ''loadPct'')) @ ''%'')"

definition roster_row :: "jval \<Rightarrow> int \<Rightarrow> fb \<Rightarrow> fb" where
  "roster_row q y =
     (let st = stateEnum (jget q ''state''); h = stateColor st in
      if \<not> truthy q then noop
      else draw [
        for_up 0 5 (\<lambda>r. draw [fbSet 0 (y + r) h 1, fbSet 1 (y + r) h 1]),
        textFit 3 y (js_String (jget q ''name'')) 8 cInk 1,
        textRight 52 y (roster_word st q) (if st = ST_OK then cAzure else h) 1])"

definition sA1 :: "env \<Rightarrow> real \<Rightarrow> ms \<Rightarrow> ms \<times> (fb \<Rightarrow> fb)" where
  "sA1 e dt m =
     (let a = jarr (jget (env_raw e) ''systems'');
          (p, m') = pageFor 1 dt (pageCount (length a) 2) m
      in (m', draw [
           for_up 0 2 (\<lambda>j. roster_row (jidx a (p * 2 + j)) (if j \<noteq> 0 then 6 else 0)),
           pageBar p (pageCount (length a) 2)]))"

subsection \<open>A2: the pools\<close>

text \<open>\<open>while (k < 4 && run >= num(counts[k])) { k++; run = 0; }\<close>, and the loop over the cells:
  each cell's index into the state order.\<close>

function pool_next :: "real list \<Rightarrow> nat \<Rightarrow> real \<Rightarrow> nat \<times> real" where
  "pool_next counts k run = (if k < 4 \<and> run \<ge> counts ! k then pool_next counts (k + 1) 0 else (k, run))"
  by auto
termination by (relation "measure (\<lambda>(counts, k, run). 4 - k)") auto

declare pool_next.simps [simp del]

definition pool_step :: "real list \<Rightarrow> real \<Rightarrow> real \<Rightarrow> int \<Rightarrow> nat \<times> real \<times> nat list \<Rightarrow> nat \<times> real \<times> nat list" where
  "pool_step counts tot cells x st =
     (let (k, run, ks) = st; (k', run') = pool_next counts k run;
          used = \<lfloor>(of_int x + 1) * tot / cells\<rfloor> - \<lfloor>of_int x * tot / cells\<rfloor>
      in (k', run' + of_int used, ks @ [k']))"

definition pool_cells :: "real list \<Rightarrow> real \<Rightarrow> nat list" where
  "pool_cells counts tot =
     (let cells = min 20 tot
      in snd (snd (for_up 0 \<lceil>cells\<rceil> (pool_step counts tot cells) (0, 0, []))))"

definition pool_order :: "real list" where
  "pool_order = [ST_DOWN, ST_DEGRADED, ST_UNKNOWN, ST_MAINT, ST_OK]"

definition pool_row :: "jval \<Rightarrow> int \<Rightarrow> fb \<Rightarrow> fb" where
  "pool_row q y =
     (let total = num (jget q ''total''); cells = min 20 total;
          gap = (if total \<le> 10 then 1 else 0 :: int);
          counts = map (\<lambda>k. num (jget q k)) [''down'', ''degraded'', ''unknown'', ''maint'', ''up''];
          ks = pool_cells counts total; load = num (jget q ''loadPct'');
          lit = max (if load > 0 then 1 else 0) \<lfloor>(load * 20 + 50) / 100\<rfloor>
      in if \<not> truthy q then noop
         else draw [
           textFit 0 y (js_String (jget q ''name'')) 8 cInk 1,
           (if total = 0 then noop
            else draw [
              for_up 0 \<lceil>cells\<rceil> (\<lambda>x.
                for_up 0 3 (\<lambda>r.
                  for_up (33 + \<lfloor>of_int (x * (20 + gap)) / cells\<rfloor>)
                    (33 + \<lfloor>of_int ((x + 1) * (20 + gap)) / cells\<rfloor> - gap)
                    (\<lambda>xx. fbSet xx (y + r) (stateColor (pool_order ! (ks ! nat x))) 1))),
              for_up 0 20 (\<lambda>x. fbSet (33 + x) (y + 4) cAzure (if x < lit then 1 else 0.1))])])"

definition sA2 :: "env \<Rightarrow> real \<Rightarrow> ms \<Rightarrow> ms \<times> (fb \<Rightarrow> fb)" where
  "sA2 e dt m =
     (let a = jarr (jget (env_raw e) ''pools'');
          (p, m') = pageFor 2 dt (pageCount (length a) 2) m
      in (m', draw [
           for_up 0 2 (\<lambda>j. pool_row (jidx a (p * 2 + j)) (if j \<noteq> 0 then 6 else 0)),
           pageBar p (pageCount (length a) 2)]))"

subsection \<open>A3: the head count\<close>

definition sA3 :: "env \<Rightarrow> fb \<Rightarrow> fb" where
  "sA3 e =
     (let r = jor (jget (env_raw e) ''stateRoll'') (JObj []);
          up = num (jget r ''up''); d = num (jget r ''down''); g = num (jget r ''degraded'');
          u = num (jget r ''unknown''); mt = num (jget r ''maint'');
          h = (if d \<noteq> 0 then cCrit else if g \<noteq> 0 then cWarn else if u \<noteq> 0 then cUnknown
               else if mt \<noteq> 0 then cMaint else cOk);
          line = (if d \<noteq> 0 then num_str d @ '' DOWN'' else if g \<noteq> 0 then num_str g @ '' DEGRADED''
               else if u \<noteq> 0 then num_str u @ '' UNKNOWN'' else if mt \<noteq> 0 then num_str mt @ '' MAINT''
               else ''ALL OK'');
          x = fst (panelBigRet 0 2 (num_str up) h 1 []) + 1;
          w = (PW - x + 1) div 4
      in draw [
        panelBig 0 2 (num_str up) h 1,
        textFit x 0 (''OF '' @ num_str (env_total e)) w cInk 1,
        textFit x 6 line w h 1])"

subsection \<open>The tile grid\<close>

definition grid_fits :: "int \<Rightarrow> grid \<Rightarrow> bool" where
  "grid_fits n G \<longleftrightarrow> 1 \<le> g_cols G \<and> 1 \<le> g_rows G \<and> n \<le> g_cols G * g_rows G \<and>
     0 \<le> g_gx G \<and> 0 \<le> g_gy G \<and>
     (1 + g_gx G) * g_cols G \<le> PW + g_gx G \<and> (1 + g_gy G) * g_rows G \<le> PH + g_gy G"

lemma fit_iff: "0 < (c::int) \<Longrightarrow> 1 \<le> (w - (c - 1) * u) div c \<Longrightarrow> (1 + u) * c \<le> w + u"
  using div_le_iff_less [of c "w - (c - 1) * u" 0] by (simp add: algebra_simps)

lemma ceil_cols:
  assumes "1 \<le> n" "1 \<le> r"
  shows "1 \<le> \<lceil>(of_int n :: real) / of_int r\<rceil>" "n \<le> \<lceil>(of_int n :: real) / of_int r\<rceil> * r"
proof -
  show "1 \<le> \<lceil>(of_int n :: real) / of_int r\<rceil>" using assms by (simp add: le_ceiling_iff)
  have "(of_int n :: real) / of_int r \<le> of_int \<lceil>(of_int n :: real) / of_int r\<rceil>" by simp
  with assms have "(of_int n :: real) \<le> of_int (\<lceil>(of_int n :: real) / of_int r\<rceil> * r)"
    by (simp only: pos_divide_le_eq of_int_mult of_int_0_less_iff)
  then show "n \<le> \<lceil>(of_int n :: real) / of_int r\<rceil> * r" by (simp only: of_int_le_iff)
qed

lemma grid_try_mono: "g_ba G \<le> g_ba (grid_try n r g G)"
  by (simp add: grid_try_def Let_def)

lemma grid_try_fits:
  assumes "1 \<le> n" "1 \<le> r" "0 \<le> g" "-1 < g_ba G \<longrightarrow> grid_fits n G"
  shows "-1 < g_ba (grid_try n r g G) \<longrightarrow> grid_fits n (grid_try n r g G)"
proof -
  let ?c = "\<lceil>(of_int n :: real) / of_int r\<rceil>"
  have c: "1 \<le> ?c" "n \<le> ?c * r" using ceil_cols assms by auto
  have "0 \<le> g mod 2" "0 \<le> g div 2" using assms(3) by auto
  then show ?thesis
    using assms c fit_iff [of ?c PW "g mod 2"] fit_iff [of r PH "g div 2"]
    by (auto simp: grid_try_def Let_def grid_fits_def)
qed

lemma grid_try_eleven:
  assumes "1 \<le> n" "n \<le> 583"
  shows "1 \<le> g_ba (grid_try n 11 0 G)"
proof -
  let ?c = "\<lceil>(of_int n :: real) / of_int 11\<rceil>"
  have c: "1 \<le> ?c" "?c \<le> 53" using ceil_cols [of n 11] assms by (auto simp: ceiling_le_iff)
  then have "1 \<le> 53 div ?c" using div_le_iff_less [of ?c 53 0] by fastforce
  with c show ?thesis by (auto simp: grid_try_def Let_def)
qed

lemma tile_grid_fits:
  assumes "1 \<le> n" "n \<le> 583"
  shows "grid_fits n (tile_grid n)"
proof -
  let ?row = "\<lambda>r. for_up 0 4 (\<lambda>g. grid_try n r g)"
  have inv: "-1 < g_ba (tile_grid n) \<longrightarrow> grid_fits n (tile_grid n)"
    unfolding tile_grid_def
    by (intro for_up_inv [where P = "\<lambda>G. -1 < g_ba G \<longrightarrow> grid_fits n G"] grid_try_fits)
      (use assms in \<open>auto simp: grid_init_def\<close>)
  have "tile_grid n = ?row 11 (for_up 1 11 ?row grid_init)"
    using for_up_last [of 1 11 ?row grid_init] by (simp add: tile_grid_def)
  also have "\<dots> = for_up 1 4 (grid_try n 11) (grid_try n 11 0 (for_up 1 11 ?row grid_init))"
    by (subst for_up_rec) simp
  finally have "1 \<le> g_ba (tile_grid n)"
    by (simp only:)
      (rule for_up_inv [where P = "\<lambda>G. 1 \<le> g_ba G"],
        auto intro: grid_try_eleven [OF assms] order_trans [OF _ grid_try_mono])
  with inv show ?thesis by simp
qed

lemma tile_bounds:
  assumes "grid_fits n G" "0 \<le> i" "i < n"
  shows "0 \<le> tile_x0 G i" "tile_x0 G i < tile_x1 G i" "tile_x1 G i \<le> PW"
    "0 \<le> tile_y0 G i" "tile_y0 G i < tile_y1 G i" "tile_y1 G i \<le> PH"
proof -
  note G = assms(1) [unfolded grid_fits_def]
  have col: "0 \<le> i mod g_cols G" "i mod g_cols G < g_cols G" using G by simp_all
  have "i < g_rows G * g_cols G" using G assms(3) by (simp add: mult.commute)
  then have row: "0 \<le> i div g_cols G" "i div g_cols G < g_rows G"
    using G assms(2) div_le_iff_less [of "g_cols G" i "g_rows G - 1"] by (simp_all add: pos_imp_zdiv_nonneg_iff)
  show "0 \<le> tile_x0 G i" "0 \<le> tile_y0 G i"
    using G col row by (auto simp: tile_x0_def tile_y0_def intro!: seg_start)
  show "tile_x1 G i \<le> PW" "tile_y1 G i \<le> PH"
    using G seg_end [OF col(2), of "PW + g_gx G"] seg_end [OF row(2), of "PH + g_gy G"]
    by (auto simp: tile_x1_def tile_y1_def)
  show "tile_x0 G i < tile_x1 G i" "tile_y0 G i < tile_y1 G i"
    using G seg_step [of "g_cols G" "1 + g_gx G" "PW + g_gx G" "i mod g_cols G"]
      seg_step [of "g_rows G" "1 + g_gy G" "PH + g_gy G" "i div g_cols G"]
    by (auto simp: tile_x0_def tile_x1_def tile_y0_def tile_y1_def)
qed

definition in_tile :: "grid \<Rightarrow> int \<Rightarrow> int \<Rightarrow> int \<Rightarrow> bool" where
  "in_tile G i x y \<longleftrightarrow> tile_x0 G i \<le> x \<and> x < tile_x1 G i \<and> tile_y0 G i \<le> y \<and> y < tile_y1 G i"

lemma tiles_ordered:
  assumes "grid_fits n G"
  shows "i mod g_cols G < j mod g_cols G \<Longrightarrow> tile_x1 G i \<le> tile_x0 G j"
    and "i div g_cols G < j div g_cols G \<Longrightarrow> tile_y1 G i \<le> tile_y0 G j"
  using assms seg_mono [of "i mod g_cols G + 1" "j mod g_cols G" "PW + g_gx G" "g_cols G"]
    seg_mono [of "i div g_cols G + 1" "j div g_cols G" "PH + g_gy G" "g_rows G"]
  by (auto simp: grid_fits_def tile_x0_def tile_x1_def tile_y0_def tile_y1_def)

lemma tiles_disjoint:
  assumes "grid_fits n G" "i \<noteq> j"
  shows "\<not> (in_tile G i x y \<and> in_tile G j x y)"
proof -
  have "i mod g_cols G \<noteq> j mod g_cols G \<or> i div g_cols G \<noteq> j div g_cols G"
    using assms(2) div_mult_mod_eq [of i "g_cols G"] div_mult_mod_eq [of j "g_cols G"] by metis
  then show ?thesis
    using tiles_ordered [OF assms(1), of i j] tiles_ordered [OF assms(1), of j i]
    by (auto simp: in_tile_def neq_iff)
qed

lemma pix_draw_tile:
  assumes "fb_ok f" "on_panel x y" "in_tile G i x y"
  shows "pix (draw_tile G a i f) x y =
    shade (stateColor (tile_state (a ! nat i))) (tile_b (a ! nat i) (tile_y0 G i) (tile_y1 G i) y)"
  using assms(3) lit.pread_rect [OF assms(1,2)] by (simp add: draw_tile_def in_tile_def Let_def)

lemma touches_draw_tile: "touches (in_tile G i) (draw_tile G a i)"
  unfolding draw_tile_def Let_def by (intro touch_intros) (auto simp: in_tile_def)

lemma for_up_one:
  assumes "\<And>i. touches (R i) (g i)" "a \<le> k" "k < b" "\<And>i. i \<noteq> k \<Longrightarrow> \<not> R i x y"
    and "\<And>f. fb_ok f \<Longrightarrow> pix (g k f) x y = v" "fb_ok f" "on_panel x y"
  shows "pix (for_up a b g f) x y = v"
proof -
  have ok: "fb_ok (for_up a k g f)" and ok': "fb_ok (g k (for_up a k g f))"
    using assms(1,6) by (auto intro!: touches_ok [OF assms(1)] for_up_inv)
  have "touches (\<lambda>x' y'. \<exists>i. i \<noteq> k \<and> R i x' y') (for_up (k + 1) b g)"
    by (intro touches_for_up touches_mono [OF assms(1)]) (metis add1_zle_eq less_irrefl)
  from touches_pix [OF this ok' assms(7)] assms(4)
  have "pix (for_up (k + 1) b g (g k (for_up a k g f))) x y = pix (g k (for_up a k g f)) x y" by blast
  then show ?thesis by (simp add: for_up_split_at [OF assms(2,3)] assms(5) [OF ok])
qed

text \<open>For 1 to 583 hosts the tile grid shows all of them: every host's tile is a
  non-empty rectangle on the panel, and no two hosts' tiles share a pixel.\<close>

theorem tile_grid_shows_all:
  assumes "1 \<le> n" "n \<le> 583" "0 \<le> i" "i < n"
  shows "0 \<le> tile_x0 (tile_grid n) i \<and> tile_x0 (tile_grid n) i < tile_x1 (tile_grid n) i \<and>
    tile_x1 (tile_grid n) i \<le> PW \<and>
    0 \<le> tile_y0 (tile_grid n) i \<and> tile_y0 (tile_grid n) i < tile_y1 (tile_grid n) i \<and>
    tile_y1 (tile_grid n) i \<le> PH \<and>
    (\<forall>j x y. j \<noteq> i \<longrightarrow> \<not> (in_tile (tile_grid n) i x y \<and> in_tile (tile_grid n) j x y))"
  using tile_bounds [OF tile_grid_fits [OF assms(1,2)] assms(3,4)]
    tiles_disjoint [OF tile_grid_fits [OF assms(1,2)]] by blast

theorem tile_grid_shows_all_witness:
  "(1::int) \<le> 40 \<and> (40::int) \<le> 583 \<and> tile_x0 (tile_grid 40) 7 < tile_x1 (tile_grid 40) 7"
  using tile_grid_shows_all [of 40 7] by simp

text \<open>Property C18. Screen A0 paints, for a fleet of up to 583 hosts, every pixel of a host's tile
  in that host's state colour at the brightness its load gives, whatever was drawn before and
  whatever the other tiles are.\<close>

theorem sA0_paints_tiles:
  assumes "n = int (length (all_tiles (env_raw e)))" "n \<le> 583" "0 \<le> i" "i < n"
    and "in_tile (tile_grid n) i x y" "fb_ok f"
  defines "q \<equiv> all_tiles (env_raw e) ! nat i"
  shows "pix (sA0 e f) x y = shade (stateColor (tile_state q))
    (tile_b q (tile_y0 (tile_grid n) i) (tile_y1 (tile_grid n) i) y)"
proof -
  have fits: "grid_fits n (tile_grid n)" using tile_grid_fits assms(2-4) by simp
  have on: "on_panel x y"
    using tile_bounds [OF fits assms(3,4)] assms(5) by (auto simp: on_panel_iff in_tile_def)
  have "pix (for_up 0 n (draw_tile (tile_grid n) (all_tiles (env_raw e))) f) x y =
    shade (stateColor (tile_state q)) (tile_b q (tile_y0 (tile_grid n) i) (tile_y1 (tile_grid n) i) y)"
    by (rule for_up_one [OF touches_draw_tile assms(3,4) _ _ assms(6) on])
      (use tiles_disjoint [OF fits] assms(5) on in \<open>auto simp: pix_draw_tile q_def\<close>)
  moreover have "n \<noteq> 0" using assms(3,4) by simp
  ultimately show ?thesis by (simp only: sA0_def Let_def assms(1) [symmetric] if_False)
qed

definition one_host :: "jval list" where
  "one_host = [JObj [(''ts'', JNum 200000000000),
     (''systems'', JArr [JObj [(''state'', JStr ''ok''), (''loadPct'', JNum 50)]])]]"

lemma one_host_tiles:
  "all_tiles (env_raw (buildEnv one_host 5000)) = [\<lparr> tile_state = 0, tile_load = 1 / 2 \<rparr>]"
  by (simp add: buildEnv_def one_host_def all_tiles_def host_tile_def num_def Let_def STATE_ENUM_def
      jor_def low_char_def)

theorem sA0_paints_tiles_witness:
  "pix (sA0 (buildEnv one_host 5000) fbNew) (tile_x0 (tile_grid 1) 0) (tile_y0 (tile_grid 1) 0) =
   shade cOk (tile_b \<lparr> tile_state = 0, tile_load = 1 / 2 \<rparr> (tile_y0 (tile_grid 1) 0)
     (tile_y1 (tile_grid 1) 0) (tile_y0 (tile_grid 1) 0))"
proof -
  have "in_tile (tile_grid 1) 0 (tile_x0 (tile_grid 1) 0) (tile_y0 (tile_grid 1) 0)"
    using tile_bounds [OF tile_grid_fits, of 1 0] by (simp add: in_tile_def)
  then show ?thesis
    using sA0_paints_tiles [of 1 "buildEnv one_host 5000" 0 "tile_x0 (tile_grid 1) 0"
      "tile_y0 (tile_grid 1) 0" fbNew]
    by (simp add: one_host_tiles stateColor_def)
qed

subsection \<open>Well-formedness of the fleet screens\<close>

lemma fleet_rows [touch_intros, range_intros]:
  "touches anywhere (roster_row q y)" "keeps_range (roster_row q y)"
  "touches anywhere (pool_row q y)" "keeps_range (pool_row q y)"
  unfolding roster_row_def pool_row_def Let_ops
  by (intro touch_intros range_intros rgb_if; simp)+

lemma fleet_renders:
  assumes "ms_ok m" "0 \<le> dt"
  shows "renders (sA1 e dt m)" "renders (sA2 e dt m)" "renders (m, sA3 e)"
proof -
  show "renders (sA1 e dt m)" "renders (sA2 e dt m)"
    unfolding sA1_def sA2_def
    using assms by (intro screen_intros touch_intros range_intros; (assumption | simp))+
  show "renders (m, sA3 e)"
    unfolding sA3_def Let_def
    using assms by (intro screen_intros touch_intros range_intros rgb_if; (assumption | simp))
qed

lemma touches_sA0: "touches anywhere (sA0 e)"
  unfolding sA0_def draw_tile_def by (intro touch_intros) simp

lemma range_sA0:
  assumes "list_all (\<lambda>q. 0 \<le> tile_load q \<and> tile_load q \<le> 1) (all_tiles (env_raw e))"
  shows "keeps_range (sA0 e)"
proof -
  have b: "0 \<le> tile_b q y0 y1 y \<and> tile_b q y0 y1 y \<le> 1" if "q \<in> set (all_tiles (env_raw e))" for q y0 y1 y
    using assms that by (auto simp: tile_b_def list_all_iff Let_def)
  show ?thesis
    unfolding sA0_def draw_tile_def Let_def
    by (intro range_intros) (use b in \<open>simp_all add: nat_less_iff\<close>)
qed

end
