(* ===== verification/PanelTraffic.thy ===== *)
theory PanelTraffic
  imports PanelFleet
begin

section \<open>The traffic screens B0 to B3\<close>

text \<open>
  The renderers \<open>sB0\<close> (swim lanes), \<open>sB1\<close> (WAN and LAN), \<open>sB2\<close> (top talkers) and \<open>sB3\<close> (flow
  map) of \<^verbatim>\<open>screens-panel.jsx\<close>.  The particle phases are threaded through the module state.
  \<open>sB3\<close> follows the links' \<open>parent\<close> indexes; an index that is negative or not whole leaves the
  table and the source raises a \<open>TypeError\<close>, which is \<open>None\<close> here.  The properties are about
  the climb to the root and the drawing order of that tree.
\<close>

subsection \<open>B0: swim lanes\<close>

definition lane_dot :: "int \<Rightarrow> int \<Rightarrow> int \<Rightarrow> int \<Rightarrow> rgb \<Rightarrow> real \<Rightarrow> fb \<Rightarrow> fb" where
  "lane_dot x0 x1 y dir h z =
     (let d = \<lfloor>z\<rfloor>; head = (if dir > 0 then x0 + d else x1 - d); tail = head - dir in
      if d < 0 \<or> d > x1 - x0 then noop
      else draw [fbSet head y h 1, if tail \<ge> x0 \<and> tail \<le> x1 then fbSet tail y h 0.4 else noop])"

definition lane :: "int \<Rightarrow> int \<Rightarrow> int \<Rightarrow> jval \<Rightarrow> nat \<Rightarrow> int \<Rightarrow> rgb \<Rightarrow> real \<Rightarrow> ms \<Rightarrow> ms \<times> (fb \<Rightarrow> fb)" where
  "lane x0 x1 y rate0 key dir h step m =
     (if nullish rate0 then (m, for_up 0 ((x1 - x0) div 4 + 1) (\<lambda>k. fbSet (x0 + 4 * k) y cUnknown 0.35))
      else let rate = num rate0 in
        if rate = 0 then (m, for_up x0 (x1 + 1) (\<lambda>x. fbSet x y h 0.06))
        else let sp = spacing rate;
                 ph = js_fmod (ms_lanePhase m key + speed rate * step) (sp * 64)
             in (m\<lparr>ms_lanePhase := (ms_lanePhase m)(key := ph)\<rparr>,
                 draw [
                   for_up x0 (x1 + 1) (\<lambda>x. fbSet x y h 0.08),
                   fold (lane_dot x0 x1 y dir h) (every sp (of_int (x1 - x0)) (js_fmod ph sp - sp))]))"

definition lane_row :: "jval \<Rightarrow> nat \<Rightarrow> int \<Rightarrow> real \<Rightarrow> ms \<Rightarrow> ms \<times> (fb \<Rightarrow> fb)" where
  "lane_row q i y dt m =
     (let st = stateEnum (jget q ''state''); kind = linkKind (jget q ''kind''); h = kindColor kind;
          name = js_String (jget q ''name'');
          label = (if kind = 0 then (if starts_with ''BACKUP'' name then ''WAN2'' else ''WAN'') else name);
          txt = textFit 0 y label 5 (if st = ST_DOWN then cCrit else cInk) 1
      in if st = ST_DOWN
         then (m, draw [txt, for_up 21 PW (\<lambda>x. draw [fbSet x y cCrit 0.6, fbSet x (y + 4) cCrit 0.6])])
         else let (m1, o1) = lane 21 52 y (jget q ''downKbps'') (i * 2) (-1) h dt m;
                  (m2, o2) = lane 21 52 (y + 1) (jget q ''downKbps'') (i * 2) (-1) h 0 m1;
                  (m3, o3) = lane 21 52 (y + 3) (jget q ''upKbps'') (i * 2 + 1) 1 h dt m2;
                  (m4, o4) = lane 21 52 (y + 4) (jget q ''upKbps'') (i * 2 + 1) 1 h 0 m3
              in (m4, draw [txt, o1, o2, o3, o4]))"

definition sB0 :: "env \<Rightarrow> real \<Rightarrow> ms \<Rightarrow> ms \<times> (fb \<Rightarrow> fb)" where
  "sB0 e dt m =
     (let a = jarr (jget (env_raw e) ''links'') in
      if a = [] then (m, textCentre 3 ''NO LINK DATA'' cAzure 1)
      else let (p, m0) = pageFor 4 dt (pageCount (length a) 2) m;
               q0 = jidx a (p * 2); q1 = jidx a (p * 2 + 1);
               bar = pageBar p (pageCount (length a) 2)
           in if \<not> truthy q0 then (m0, bar)
              else let (m1, o0) = lane_row q0 (nat (p * 2)) 0 dt m0 in
                if \<not> truthy q1 then (m1, draw [o0, bar])
                else let (m2, o1) = lane_row q1 (nat (p * 2 + 1)) 6 dt m1 in (m2, draw [o0, o1, bar]))"

subsection \<open>B1: WAN and LAN\<close>

definition total_of :: "jval \<Rightarrow> jval \<Rightarrow> real option" where
  "total_of d u =
     (if nullish d then (if nullish u then None else Some (num u))
      else if nullish u then Some (num d) else Some (min (num d + num u) RATE_MAX))"

definition pos_part :: "real \<Rightarrow> real" where
  "pos_part v = (if v > 0 then v else 0)"

definition spark_peak :: "int \<Rightarrow> real list \<Rightarrow> real list \<Rightarrow> real" where
  "spark_peak cols dr ur =
     for_up 0 cols (\<lambda>a peak.
       let v = pos_part (dr ! nat (52 - a)) + pos_part (ur ! nat (52 - a))
       in if v > peak then v else peak) 1"

definition spark_col :: "int \<Rightarrow> rgb \<Rightarrow> real \<Rightarrow> real list \<Rightarrow> real list \<Rightarrow> int \<Rightarrow> fb \<Rightarrow> fb" where
  "spark_col y h peak dr ur a =
     (let dn0 = dr ! nat (52 - a); up0 = ur ! nat (52 - a);
          dn = (if dn0 < 0 then 0 else dn0); up = (if up0 < 0 then 0 else up0);
          xx = PW - 1 - a;
          hd0 = ri (dn / peak * 5); hu0 = ri ((dn + up) / peak * 5) - hd0;
          hd = (if hd0 < 1 \<and> dn > 0 then 1 else hd0); hu = (if hu0 < 0 then 0 else hu0)
      in if dn0 < 0 \<and> up0 < 0 then noop
         else draw [
           for_up 0 (min hd 5) (\<lambda>r. fbSet xx (y + 4 - r) h 1),
           for_up hd (min (hd + hu) 5) (\<lambda>r. fbSet xx (y + 4 - r) cMaint 1)])"

definition rate_row :: "int \<Rightarrow> string \<Rightarrow> jval \<Rightarrow> jval \<Rightarrow> real list \<Rightarrow> real list \<Rightarrow> rgb \<Rightarrow> fb \<Rightarrow> fb" where
  "rate_row y l d u dr ur h =
     (let label = l @ '' ''; rate = rateLabel (total_of d u);
          x1 = fst (panelTextRet 0 y label cInk 1 []);
          x2 = fst (panelTextRet x1 y rate h 1 []);
          x0 = max 33 x2; cols = PW - x0; peak = spark_peak cols dr ur
      in draw [
        panelText 0 y label cInk 1,
        panelText x1 y rate h 1,
        for_up 0 cols (spark_col y h peak dr ur)])"

definition sB1 :: "env \<Rightarrow> fb \<Rightarrow> fb" where
  "sB1 e =
     (let q = jget (env_raw e) ''totals'' in
      if \<not> truthy q then textCentre 3 ''NO RATE DATA'' cAzure 1
      else draw [
        rate_row 0 ''WAN'' (jget q ''wanDownKbps'') (jget q ''wanUpKbps'') (env_wanDown e) (env_wanUp e) cAzure,
        rate_row 6 ''LAN'' (jget q ''lanDownKbps'') (jget q ''lanUpKbps'') (env_lanDown e) (env_lanUp e) cOk])"

subsection \<open>B2: top talkers\<close>

definition talk_rate :: "jval \<Rightarrow> real" where
  "talk_rate q = (if nullish (jget q ''rxKbps'') then 0 else num (jget q ''rxKbps'')) +
     (if nullish (jget q ''txKbps'') then 0 else num (jget q ''txKbps''))"

definition talkers :: "jval list \<Rightarrow> jval list" where
  "talkers systems = slice0 8 (sort_key (\<lambda>q. - talk_rate q)
     (filter (\<lambda>q. \<not> nullish (jget q ''rxKbps'') \<or> \<not> nullish (jget q ''txKbps'')) systems))"

definition talker_row :: "jval list \<Rightarrow> int \<Rightarrow> int \<Rightarrow> fb \<Rightarrow> fb" where
  "talker_row a k y =
     (if 0 \<le> k \<and> k < int (length a)
      then draw [
        textFit 0 y (js_String (jget (a ! nat k) ''name'')) 8 cInk 1,
        textRight 52 y (rateLabel (Some (min (talk_rate (a ! nat k)) RATE_MAX))) cAzure 1]
      else noop)"

definition sB2 :: "env \<Rightarrow> real \<Rightarrow> ms \<Rightarrow> ms \<times> (fb \<Rightarrow> fb)" where
  "sB2 e dt m =
     (let a = talkers (jarr (jget (env_raw e) ''systems''));
          (p, m') = pageFor 6 dt (pageCount (length a) 2) m
      in (m', draw [
           for_up 0 2 (\<lambda>j. talker_row a (p * 2 + j) (if j \<noteq> 0 then 6 else 0)),
           pageBar p (pageCount (length a) 2)]))"

subsection \<open>B3: the flow map's tree\<close>

datatype hop = Top | Up nat | Off_table

text \<open>One test of the climbing loops: no parent or one past the table ends the climb; an index that is negative or
  not whole leads to no entry, and the next read raises, as it does on an entry that is null.\<close>

definition link_next :: "jval list \<Rightarrow> nat \<Rightarrow> hop" where
  "link_next a cur =
     (let p = jget (a ! cur) ''parent'' in
      if nullish (a ! cur) then Off_table
      else if nullish p \<or> num p \<ge> real (length a) then Top
      else if num p < 0 \<or> of_int \<lfloor>num p\<rfloor> \<noteq> num p then Off_table
      else Up (nat \<lfloor>num p\<rfloor>))"

datatype climb = Stopped nat nat | Too_long | Raised

function climb_from :: "jval list \<Rightarrow> nat \<Rightarrow> nat \<Rightarrow> climb" where
  "climb_from a cur steps =
     (case link_next a cur of
        Top \<Rightarrow> Stopped cur steps
      | Off_table \<Rightarrow> Raised
      | Up p \<Rightarrow> if steps + 1 > length a then Too_long else climb_from a p (steps + 1))"
  by auto
termination by (relation "measure (\<lambda>(a, cur, steps). Suc (length a) - steps)") auto

declare climb_from.simps [simp del]

definition parentOf :: "jval list \<Rightarrow> nat \<Rightarrow> int option" where
  "parentOf a i =
     (case link_next a i of
        Top \<Rightarrow> Some (-1)
      | Off_table \<Rightarrow> None
      | Up p \<Rightarrow> (case climb_from a i 0 of
          Stopped stop _ \<Rightarrow> Some (if stop = i then -1 else int p)
        | Too_long \<Rightarrow> Some (-1)
        | Raised \<Rightarrow> None))"

definition depth_of :: "jval list \<Rightarrow> nat \<Rightarrow> nat" where
  "depth_of a i = (case climb_from a i 0 of Stopped _ d \<Rightarrow> d | _ \<Rightarrow> 0)"

definition link_parents :: "jval list \<Rightarrow> int list option" where
  "link_parents a =
     (let ps = map (parentOf a) [0..<length a]
      in if None \<in> set ps then None else Some (map the ps))"

definition link_depths :: "jval list \<Rightarrow> int list \<Rightarrow> nat list" where
  "link_depths a par = map (\<lambda>i. if par ! i < 0 then 0 else depth_of a i) [0..<length a]"

definition kids :: "int list \<Rightarrow> nat \<Rightarrow> nat list" where
  "kids par n = filter (\<lambda>c. par ! c = int n) [0..<length par]"

text \<open>The stack has its top at the head.\<close>

function link_order :: "int list \<Rightarrow> nat list \<Rightarrow> nat list \<Rightarrow> nat list" where
  "link_order par stack order =
     (if stack = [] \<or> length order \<ge> length par then order
      else link_order par (kids par (hd stack) @ tl stack) (order @ [hd stack]))"
  by auto
termination by (relation "measure (\<lambda>(par, stack, order). length par - length order)") auto

declare link_order.simps [simp del]

definition link_roots :: "int list \<Rightarrow> nat list" where
  "link_roots par = filter (\<lambda>i. par ! i < 0) [0..<length par]"

definition has_kid :: "int list \<Rightarrow> nat \<Rightarrow> bool" where
  "has_kid par i \<longleftrightarrow> list_ex (\<lambda>x. x = int i) par"

definition leaf_count :: "int list \<Rightarrow> nat list \<Rightarrow> nat" where
  "leaf_count par order =
     (let l = length (filter (\<lambda>i. \<not> has_kid par i) order) in if l = 0 then 1 else l)"

definition place_step :: "int list \<Rightarrow> nat list \<Rightarrow> nat \<Rightarrow> nat \<Rightarrow> nat \<Rightarrow> nat \<times> (int \<times> int) list
    \<Rightarrow> nat \<times> (int \<times> int) list" where
  "place_step par dep md leaves i st =
     (let (leaf, pos) = st;
          nx = 5 + int (dep ! i) * 45 div int (if md = 0 then 1 else md);
          ny = 1 + (2 * int leaf + 1) * 9 div (2 * int leaves)
      in ((if has_kid par i then leaf else leaf + 1), pos[i := (nx, ny)]))"

text \<open>The positions, of every link in the drawing order.\<close>

definition place_links :: "int list \<Rightarrow> nat list \<Rightarrow> nat list \<Rightarrow> (int \<times> int) list" where
  "place_links par dep order =
     snd (fold (place_step par dep (fold max dep 0) (leaf_count par order)) order
       (0, replicate (length par) (0, 0)))"

definition point :: "int \<Rightarrow> int \<Rightarrow> int \<Rightarrow> int \<Rightarrow> int \<Rightarrow> int \<times> int" where
  "point px py cx cy d =
     (let dy = \<bar>cy - py\<bar> in
      if d \<le> dy then (px, py + (if cy > py then d else - d)) else (px + d - dy, cy))"

subsection \<open>B3: the drawing\<close>

definition set_at :: "int \<times> int \<Rightarrow> rgb \<Rightarrow> real \<Rightarrow> fb \<Rightarrow> fb" where
  "set_at p c b = fbSet (fst p) (snd p) c b"

definition flow_dots :: "jval \<Rightarrow> nat \<Rightarrow> bool \<Rightarrow> int \<Rightarrow> (int \<Rightarrow> int \<times> int) \<Rightarrow> rgb \<Rightarrow> real \<Rightarrow> ms \<Rightarrow> ms \<times> (fb \<Rightarrow> fb)" where
  "flow_dots q i up len pt h dt m =
     (let rate0 = jget q (if up then ''upKbps'' else ''downKbps'') in
      if nullish rate0 \<or> num rate0 = 0 \<or> stateEnum (jget q ''state'') = ST_DOWN \<or> len \<le> 0 then (m, noop)
      else let rate = num rate0; key = 16 + (i * 2 + (if up then 1 else 0));
               ph = ms_lanePhase m key + speed rate * dt;
               sp = (if spacing rate > of_int len then of_int len + 1 else spacing rate)
           in (m\<lparr>ms_lanePhase := (ms_lanePhase m)(key := ph)\<rparr>,
               fold (\<lambda>z. set_at (pt (if up then len - \<lfloor>z\<rfloor> else \<lfloor>z\<rfloor>)) h 1)
                 (every sp (of_int len) (js_fmod ph sp))))"

definition link_color :: "jval \<Rightarrow> rgb" where
  "link_color q = (if stateEnum (jget q ''state'') = ST_DOWN then cCrit else kindColor (linkKind (jget q ''kind'')))"

definition flow_link :: "jval list \<Rightarrow> int list \<Rightarrow> (int \<times> int) list \<Rightarrow> real \<Rightarrow> nat \<Rightarrow> ms \<times> (fb \<Rightarrow> fb)
    \<Rightarrow> ms \<times> (fb \<Rightarrow> fb)" where
  "flow_link a par pos dt i st =
     (let (m, before) = st; q = a ! i; (nx, ny) = pos ! i;
          px = (if par ! i < 0 then 0 else fst (pos ! nat (par ! i)));
          py = (if par ! i < 0 then ny else snd (pos ! nat (par ! i)));
          len = \<bar>ny - py\<bar> + nx - px;
          pt = point px py nx ny;
          down = (stateEnum (jget q ''state'') = ST_DOWN);
          h = link_color q;
          (m1, o1) = flow_dots q i False len pt h dt m;
          (m2, o2) = flow_dots q i True len pt h dt m1
      in (m2, draw [before,
            for_up 0 (len + 1) (\<lambda>d. set_at (pt d) h (if down then 0.6 else 0.22)), o1, o2]))"

definition link_node :: "jval list \<Rightarrow> (int \<times> int) list \<Rightarrow> nat \<Rightarrow> fb \<Rightarrow> fb" where
  "link_node a pos i =
     for_up 0 2 (\<lambda>yy. for_up 0 2 (\<lambda>xx.
       fbSet (fst (pos ! i) + xx) (snd (pos ! i) + yy) (stateColor (stateEnum (jget (a ! i) ''state''))) 1))"

definition sB3 :: "env \<Rightarrow> real \<Rightarrow> ms \<Rightarrow> (ms \<times> (fb \<Rightarrow> fb)) option" where
  "sB3 e dt m =
     (let a = jarr (jget (env_raw e) ''links'') in
      if a = [] then Some (m, textCentre 3 ''NO LINK DATA'' cAzure 1)
      else case link_parents a of
        None \<Rightarrow> None
      | Some par \<Rightarrow>
          (let dep = link_depths a par; order = link_order par (link_roots par) [];
               pos = place_links par dep order;
               (m', lines) = fold (flow_link a par pos dt) order (m, noop)
           in Some (m', draw [lines, fold (link_node a pos) order])))"

subsection \<open>The climb to the root\<close>

lemma climb_shift:
  "climb_from a i (s + k) = Stopped t d \<Longrightarrow> climb_from a i s = Stopped t (d - k) \<and> s + k \<le> d"
proof (induction a i "s + k" arbitrary: s rule: climb_from.induct)
  case (1 a i)
  show ?case
  proof (cases "link_next a i")
    case (Up p)
    from "1.prems" Up have lt: "\<not> s + k + 1 > length a" and e: "climb_from a p (s + k + 1) = Stopped t d"
      by (auto simp: climb_from.simps [of a i "s + k"] split: if_splits)
    have "climb_from a p (s + 1) = Stopped t (d - k) \<and> s + 1 + k \<le> d"
      using "1.hyps" [OF Up lt, of "s + 1"] e by simp
    with Up lt show ?thesis by (subst climb_from.simps) simp
  next
    case Top
    have "climb_from a i s = Stopped i s" "climb_from a i (s + k) = Stopped i (s + k)"
      using Top by (simp_all add: climb_from.simps [of a i])
    with "1.prems" show ?thesis by auto
  next
    case Off_table
    with "1.prems" show ?thesis by (simp add: climb_from.simps [of a i "s + k"])
  qed
qed

lemma climb_up:
  assumes "link_next a i = Up p" "climb_from a i 0 = Stopped t d"
  shows "climb_from a p 0 = Stopped t (d - 1)" "0 < d"
proof -
  have "climb_from a p (0 + 1) = Stopped t d"
    using assms by (simp add: climb_from.simps [of a i 0] split: if_splits)
  from climb_shift [OF this] show "climb_from a p 0 = Stopped t (d - 1)" "0 < d" by auto
qed

lemma link_next_bound: "link_next a i = Up p \<Longrightarrow> p < length a"
  by (auto simp: link_next_def Let_def nat_less_iff floor_less_iff split: if_splits)

lemma parentOf_up:
  assumes "parentOf a i = Some v" "0 \<le> v"
  shows "link_next a i = Up (nat v) \<and> (\<exists>t d. climb_from a i 0 = Stopped t d)"
  using assms by (auto simp: parentOf_def split: hop.splits climb.splits if_splits)

lemma link_parents_nth:
  assumes "link_parents a = Some par"
  shows "length par = length a" "i < length a \<Longrightarrow> parentOf a i = Some (par ! i)"
proof -
  have ps: "None \<notin> set (map (parentOf a) [0..<length a])" and par: "par = map the (map (parentOf a) [0..<length a])"
    using assms by (auto simp: link_parents_def Let_def split: if_splits)
  show "length par = length a" by (simp add: par)
  show "parentOf a i = Some (par ! i)" if "i < length a"
    using ps that by (cases "parentOf a i") (force simp: par image_iff)+
qed

definition forest :: "int list \<Rightarrow> bool" where
  "forest par \<longleftrightarrow> (\<exists>rank. \<forall>i < length par. 0 \<le> par ! i \<longrightarrow>
     nat (par ! i) < length par \<and> rank (nat (par ! i)) < (rank i :: nat))"

lemma link_parents_forest:
  assumes "link_parents a = Some par"
  shows "forest par"
  unfolding forest_def
proof (intro exI allI impI)
  fix i assume i: "i < length par" and v: "0 \<le> par ! i"
  have "parentOf a i = Some (par ! i)" using link_parents_nth [OF assms] i by simp
  from parentOf_up [OF this v] obtain t d
    where up: "link_next a i = Up (nat (par ! i))" and c: "climb_from a i 0 = Stopped t d" by blast
  show "nat (par ! i) < length par \<and> depth_of a (nat (par ! i)) < depth_of a i"
    using link_next_bound [OF up] climb_up [OF up c] c link_parents_nth(1) [OF assms]
    by (simp add: depth_of_def)
qed

text \<open>A table without null entries whose parents are absent, past the table or whole and not negative never makes
  the climb leave it.\<close>

definition link_index_ok :: "jval \<Rightarrow> bool" where
  "link_index_ok q = (let p = jget q ''parent'' in \<not> nullish q \<and> (nullish p \<or> 0 \<le> num p \<and> of_int \<lfloor>num p\<rfloor> = num p))"

lemma climb_no_raise:
  assumes "list_all link_index_ok a" "i < length a"
  shows "climb_from a i s \<noteq> Raised"
  using assms
proof (induction a i s rule: climb_from.induct)
  case (1 a i s)
  then have "link_next a i \<noteq> Off_table"
    by (auto simp: link_next_def Let_def list_all_length link_index_ok_def)
  with 1 show ?case
    by (subst climb_from.simps) (auto split: hop.splits dest: link_next_bound)
qed

subsection \<open>The drawing order\<close>

definition order_inv :: "int list \<Rightarrow> nat list \<Rightarrow> nat list \<Rightarrow> bool" where
  "order_inv par stack order \<longleftrightarrow>
     distinct (order @ stack) \<and> set (order @ stack) \<subseteq> {..<length par} \<and>
     (\<forall>i < length par. par ! i < 0 \<longrightarrow> i \<in> set (order @ stack)) \<and>
     (\<forall>i < length par. 0 \<le> par ! i \<longrightarrow> (nat (par ! i) \<in> set order \<longleftrightarrow> i \<in> set (order @ stack))) \<and>
     (\<forall>k < length order. 0 \<le> par ! (order ! k) \<longrightarrow> nat (par ! (order ! k)) \<in> set (take k order))"

lemma set_kids: "set (kids par x) = {c. c < length par \<and> par ! c = int x}"
  by (auto simp: kids_def)

lemma order_inv_step:
  assumes "order_inv par (x # st) order"
  shows "order_inv par (kids par x @ st) (order @ [x])"
proof -
  note I = assms [unfolded order_inv_def]
  have x: "x \<notin> set order" "x < length par" using I by auto
  have fresh: "c \<notin> set order \<union> set (x # st)" if "c \<in> set (kids par x)" for c
    using I that x by (auto simp: set_kids)
  have "distinct ((order @ [x]) @ kids par x @ st)"
    using I fresh by (auto simp: kids_def)
  moreover have "\<forall>i < length par. 0 \<le> par ! i \<longrightarrow>
      (nat (par ! i) \<in> set (order @ [x]) \<longleftrightarrow> i \<in> set ((order @ [x]) @ kids par x @ st))"
    using I by (auto simp: set_kids)
  moreover have "\<forall>k < length (order @ [x]). 0 \<le> par ! ((order @ [x]) ! k) \<longrightarrow>
      nat (par ! ((order @ [x]) ! k)) \<in> set (take k (order @ [x]))"
    using I x by (auto simp: nth_append less_Suc_eq)
  ultimately show ?thesis using I by (auto simp: order_inv_def set_kids)
qed

lemma order_inv_init: "order_inv par (link_roots par) []"
  by (auto simp: order_inv_def link_roots_def)

lemma order_inv_all:
  assumes "forest par" "order_inv par stack order" "stack = [] \<or> length order \<ge> length par"
  shows "set order = {..<length par}"
proof (cases "length order \<ge> length par")
  case True
  have "distinct order" "set order \<subseteq> {..<length par}" using assms(2) by (auto simp: order_inv_def)
  with True show ?thesis
    by (metis card_lessThan card_subset_eq distinct_card finite_lessThan card_mono le_antisym)
next
  case False
  with assms have st: "stack = []" by simp
  obtain rank :: "nat \<Rightarrow> nat" where r: "\<forall>i < length par. 0 \<le> par ! i \<longrightarrow>
    nat (par ! i) < length par \<and> rank (nat (par ! i)) < rank i"
    using assms(1) by (auto simp: forest_def)
  have "i \<in> set order" if "i < length par" for i
    using that
  proof (induction "rank i" arbitrary: i rule: less_induct)
    case less
    then show ?case
      using assms(2) r st by (cases "par ! i < 0") (auto simp: order_inv_def)
  qed
  then show ?thesis using assms(2) by (auto simp: order_inv_def)
qed

lemma link_order_inv:
  assumes "order_inv par stack order"
  shows "\<exists>st. order_inv par st (link_order par stack order) \<and>
    (st = [] \<or> length (link_order par stack order) \<ge> length par)"
  using assms
proof (induction par stack order rule: link_order.induct)
  case (1 par stack order)
  show ?case
  proof (cases "stack = [] \<or> length order \<ge> length par")
    case True
    then show ?thesis using "1.prems" by (subst (1 2) link_order.simps) auto
  next
    case False
    then have "order_inv par (kids par (hd stack) @ tl stack) (order @ [hd stack])"
      using "1.prems" order_inv_step by (cases stack) auto
    with "1.IH" False show ?thesis by (subst (1 2) link_order.simps) simp
  qed
qed

lemma link_order_props:
  assumes "forest par"
  defines "order \<equiv> link_order par (link_roots par) []"
  shows "distinct order" "set order = {..<length par}"
    "k < length order \<Longrightarrow> 0 \<le> par ! (order ! k) \<Longrightarrow> nat (par ! (order ! k)) \<in> set (take k order)"
proof -
  obtain st where inv: "order_inv par st order" and fin: "st = [] \<or> length order \<ge> length par"
    using link_order_inv [OF order_inv_init, of par] by (auto simp: order_def)
  note I = inv [unfolded order_inv_def]
  show "distinct order" using conjunct1 [OF I] by simp
  show "set order = {..<length par}" by (rule order_inv_all [OF assms(1) inv fin])
  show "nat (par ! (order ! k)) \<in> set (take k order)"
    if "k < length order" "0 \<le> par ! (order ! k)"
    using I that by blast
qed

subsection \<open>The placement\<close>

lemma fold_max_ge: "x \<in> set xs \<or> x \<le> z \<Longrightarrow> x \<le> fold max xs (z :: nat)"
proof (induction xs arbitrary: z)
  case (Cons y ys)
  then have "x \<in> set ys \<or> x \<le> max y z" by fastforce
  from Cons.IH [OF this] show ?case by (simp only: fold_simps)
qed simp

lemma scaled_div:
  assumes "0 \<le> d" "d \<le> m" "0 < m"
  shows "0 \<le> d * 45 div m \<and> d * 45 div m \<le> (45::int)"
proof
  show "0 \<le> d * 45 div m" using assms seg_start [of d 45 m] by simp
  have "d * 45 < (45 + 1) * m" using assms by simp
  then show "d * 45 div m \<le> 45" by (simp only: div_le_iff_less [OF assms(3)])
qed

lemma leaf_div:
  assumes "0 \<le> l" "l < L"
  shows "0 \<le> (2 * l + 1) * 9 div (2 * L) \<and> (2 * l + 1) * 9 div (2 * L) \<le> (8::int)"
proof
  have L: "0 < 2 * L" using assms by linarith
  show "0 \<le> (2 * l + 1) * 9 div (2 * L)" using assms L seg_start [of "2 * l + 1" 9 "2 * L"] by simp
  have "(2 * l + 1) * 9 < (8 + 1) * (2 * L)" using assms by simp
  then show "(2 * l + 1) * 9 div (2 * L) \<le> 8" by (simp only: div_le_iff_less [OF L])
qed

definition on_map :: "int \<times> int \<Rightarrow> bool" where
  "on_map p \<longleftrightarrow> 5 \<le> fst p \<and> fst p \<le> 50 \<and> 1 \<le> snd p \<and> snd p \<le> 9"

lemma place_fold:
  assumes "distinct xs" "set xs \<subseteq> {..<length pos}" "\<forall>i \<in> set xs. dep ! i \<le> md"
    and "\<forall>k < length xs. leaf + length (filter (\<lambda>i. \<not> has_kid par i) (take k xs)) < leaves"
  defines "r \<equiv> snd (fold (place_step par dep md leaves) xs (leaf, pos))"
  shows "length r = length pos \<and> (\<forall>i \<in> set xs. on_map (r ! i)) \<and> (\<forall>i. i \<notin> set xs \<longrightarrow> r ! i = pos ! i)"
  using assms(1-4) unfolding r_def
proof (induction xs arbitrary: leaf pos)
  case Nil
  then show ?case by simp
next
  case (Cons x xs)
  obtain leaf' pos' where st: "place_step par dep md leaves x (leaf, pos) = (leaf', pos')"
    by (cases "place_step par dep md leaves x (leaf, pos)")
  have leaf': "leaf' = leaf + (if has_kid par x then 0 else 1)" and pos': "length pos' = length pos"
    "\<forall>i. i \<noteq> x \<longrightarrow> pos' ! i = pos ! i"
    using st by (auto simp: place_step_def Let_def)
  have "leaf < leaves" using Cons.prems(4) by force
  then have x: "on_map (pos' ! x)"
    using st Cons.prems(2,3) scaled_div [of "int (dep ! x)" "int (if md = 0 then 1 else md)"]
      leaf_div [of "int leaf" "int leaves"]
    by (auto simp: place_step_def Let_def on_map_def)
  have "leaf' + length (filter (\<lambda>i. \<not> has_kid par i) (take k xs)) < leaves" if "k < length xs" for k
    using Cons.prems(4) [rule_format, of "Suc k"] that by (simp add: leaf' split: if_splits)
  with Cons.IH [of pos' leaf'] Cons.prems pos' x show ?case by (auto simp: st)
qed

lemma last_is_leaf:
  assumes "forest par" "par \<noteq> []"
  defines "order \<equiv> link_order par (link_roots par) []"
  shows "order \<noteq> [] \<and> \<not> has_kid par (last order)"
proof -
  note P = link_order_props [OF assms(1), folded order_def]
  have ne: "order \<noteq> []" using P(2) assms(2) by (cases order) auto
  have "\<not> has_kid par (last order)"
  proof
    assume "has_kid par (last order)"
    then obtain c where c: "c < length par" "par ! c = int (last order)"
      by (auto simp: has_kid_def list_ex_iff in_set_conv_nth)
    then obtain k where k: "k < length order" "order ! k = c"
      using P(2) by (metis in_set_conv_nth lessThan_iff)
    then have "last order \<in> set (take k order)" using P(3) [of k] c by simp
    then obtain j where "j < k" "order ! j = last order"
      using k(1) by (auto simp: in_set_conv_nth)
    with P(1) k(1) ne have "j = length order - 1"
      by (subst nth_eq_iff_index_eq [OF P(1), symmetric]) (auto simp: last_conv_nth)
    with \<open>j < k\<close> k(1) show False by simp
  qed
  with ne show ?thesis by simp
qed

lemma leaves_before:
  assumes "forest par" "par \<noteq> []"
  defines "order \<equiv> link_order par (link_roots par) []"
  assumes "k < length order"
  shows "length (filter (\<lambda>i. \<not> has_kid par i) (take k order)) < leaf_count par order"
proof -
  let ?P = "\<lambda>i. \<not> has_kid par i"
  have ne: "order \<noteq> []" and l: "?P (last order)"
    using last_is_leaf [OF assms(1,2)] by (auto simp: order_def)
  have "last order \<in> set (drop k order)" using assms(4) ne by (metis last_drop last_in_set drop_eq_Nil not_less)
  with l have "0 < length (filter ?P (drop k order))" by (auto simp: filter_empty_conv)
  moreover have "filter ?P order = filter ?P (take k order) @ filter ?P (drop k order)"
    by (metis append_take_drop_id filter_append)
  ultimately have "length (filter ?P (take k order)) < length (filter ?P order)" by simp
  then show ?thesis by (cases "filter ?P order = []") (auto simp: leaf_count_def Let_def)
qed

lemma place_links_on_map:
  assumes "forest par" "length dep = length par" "i < length par"
  shows "on_map (place_links par dep (link_order par (link_roots par) []) ! i)"
proof -
  let ?o = "link_order par (link_roots par) []"
  have ne: "par \<noteq> []" using assms(3) by auto
  note P = link_order_props [OF assms(1)]
  have dep: "\<forall>i \<in> set ?o. dep ! i \<le> fold max dep 0"
  proof
    fix j assume "j \<in> set ?o"
    then have "j < length dep" using P(2) assms(2) by simp
    then show "dep ! j \<le> fold max dep 0" by (rule fold_max_ge [OF disjI1, OF nth_mem])
  qed
  have sub: "set ?o \<subseteq> {..<length (replicate (length par) (0::int, 0::int))}"
    unfolding P(2) by simp
  have lv: "\<forall>k < length ?o. 0 + length (filter (\<lambda>i. \<not> has_kid par i) (take k ?o)) < leaf_count par ?o"
    unfolding add_0 using leaves_before [OF assms(1) ne] by blast
  have "i \<in> set ?o" unfolding P(2) using assms(3) by simp
  then show ?thesis
    unfolding place_links_def
    by (rule bspec [OF conjunct1 [OF conjunct2 [OF place_fold [OF P(1) sub dep lv]]]])
qed

definition four_links :: "jval list" where
  "four_links = [JObj [], JObj [(''parent'', JNum 0)], JObj [(''parent'', JNum 3)], JObj [(''parent'', JNum 2)]]"

subsection \<open>Well-formedness of the traffic screens\<close>

lemma touches_traffic_parts [touch_intros]:
  "touches anywhere (lane_dot x0 x1 y dir h z)" "touches anywhere (spark_col y h peak dr ur a)"
  "touches anywhere (set_at p c b)" "touches anywhere (link_node a' pos i)"
  unfolding lane_dot_def spark_col_def set_at_def link_node_def by (intro touch_intros; simp)+

lemma range_traffic_parts [range_intros]:
  "rgb_ok h \<Longrightarrow> keeps_range (lane_dot x0 x1 y dir h z)"
  "rgb_ok h \<Longrightarrow> keeps_range (spark_col y h peak dr ur a)"
  "rgb_ok h \<Longrightarrow> 0 \<le> b \<Longrightarrow> b \<le> 1 \<Longrightarrow> keeps_range (set_at p h b)"
  "keeps_range (link_node a' pos i)"
  unfolding lane_dot_def spark_col_def set_at_def link_node_def
  by (intro range_intros; (assumption | simp))+

lemma traffic_rows [touch_intros, range_intros]:
  "touches anywhere (rate_row y l d u dr ur h)" "rgb_ok h \<Longrightarrow> keeps_range (rate_row y l d u dr ur h)"
  "touches anywhere (talker_row a k y)" "keeps_range (talker_row a k y)"
  unfolding rate_row_def talker_row_def by (intro touch_intros range_intros; (assumption | simp))+

lemma lane_renders:
  assumes "ms_ok m" "0 \<le> step" "rgb_ok h"
  shows "renders (lane x0 x1 y rate key dir h step m)"
proof -
  have "0 \<le> js_fmod (ms_lanePhase m key + speed r * step) (spacing r * 64)" for r
    using assms(1,2) speed_pos(1) [of r] spacing_pos(1) [of r]
    by (intro conjunct1 [OF js_fmod_range]) (auto simp: ms_ok_def)
  then show ?thesis
    unfolding lane_def Let_def
    by (intro screen_intros renders_phase touch_intros range_intros) (use assms in simp_all)
qed

lemma lane_row_renders:
  assumes "ms_ok m" "0 \<le> dt"
  shows "renders (lane_row q i y dt m)"
  unfolding lane_row_def Let_ops
  using assms by (intro screen_intros lane_renders touch_intros range_intros; (assumption | simp))

lemma sB0_renders:
  assumes "ms_ok m" "0 \<le> dt"
  shows "renders (sB0 e dt m)"
  unfolding sB0_def Let_ops
  using assms by (intro screen_intros lane_row_renders touch_intros range_intros; (assumption | simp))

lemma sB1_renders: "ms_ok m \<Longrightarrow> renders (m, sB1 e)"
  unfolding sB1_def by (intro screen_intros touch_intros range_intros; (assumption | simp))

lemma sB2_renders: "ms_ok m \<Longrightarrow> 0 \<le> dt \<Longrightarrow> renders (sB2 e dt m)"
  unfolding sB2_def by (intro screen_intros touch_intros range_intros; (assumption | simp))

lemma flow_dots_renders:
  assumes "ms_ok m" "0 \<le> dt" "rgb_ok h"
  shows "renders (flow_dots q i up len pt h dt m)"
proof -
  have "0 \<le> ms_lanePhase m key + speed r * dt" for r key
    using assms(1,2) speed_pos(1) [of r] by (simp add: ms_ok_def)
  then show ?thesis
    unfolding flow_dots_def Let_def
    by (intro screen_intros renders_phase touch_intros range_intros) (use assms in simp_all)
qed

lemma rgb_link_color: "rgb_ok (link_color q)"
  by (simp add: link_color_def)

lemma flow_link_renders:
  assumes "renders st" "0 \<le> dt"
  shows "renders (flow_link a par pos dt i st)"
proof -
  obtain nx ny where p: "pos ! i = (nx, ny)" by (cases "pos ! i")
  show ?thesis
    unfolding flow_link_def p Let_def [of "(nx, ny)"] Let_def [of "a ! i"] Let_def [of "link_color (a ! i)"]
      case_prod_conv
    by (intro screen_intros flow_dots_renders touch_intros range_intros; simp add: assms rgb_link_color)
qed

lemma sB3_renders:
  assumes "ms_ok m" "0 \<le> dt" "sB3 e dt m = Some r"
  shows "renders r"
proof -
  let ?a = "jarr (jget (env_raw e) ''links'')"
  have start: "renders (m, noop)" "renders (m, textCentre 3 ''NO LINK DATA'' cAzure 1)"
    using assms(1) by (auto intro: renders_pair touch_intros range_intros)
  have lines: "renders (fold (flow_link ?a par pos dt) order (m, noop))" for par pos order
    by (rule fold_inv [where P = renders, OF start(1)]) (rule flow_link_renders [OF _ assms(2)])
  have "renders (fst s, draw [snd s, fold (link_node ?a pos) order])" if "renders s" for s pos order
    using that unfolding renders_def by (auto intro!: touch_intros range_intros)
  with lines start(2) assms(3) show ?thesis
    by (auto simp: sB3_def Let_def case_prod_beta simp del: PW_def split: if_splits option.splits)
qed

subsection \<open>What the flow map shows\<close>

text \<open>The ancestor \<open>k\<close> hops up, while there is one; a link whose ancestors never run out hangs on a cycle.\<close>

primrec ancestor :: "jval list \<Rightarrow> nat \<Rightarrow> nat \<Rightarrow> nat option" where
  "ancestor a 0 i = Some i"
| "ancestor a (Suc k) i = (case link_next a i of Up p \<Rightarrow> ancestor a k p | _ \<Rightarrow> None)"

lemma climb_too_long:
  assumes "list_all link_index_ok a" "i < length a" "s \<le> length a"
  shows "climb_from a i s = Too_long \<longleftrightarrow> ancestor a (Suc (length a - s)) i \<noteq> None"
  using assms
proof (induction a i s rule: climb_from.induct)
  case (1 a i s)
  show ?case
  proof (cases "link_next a i")
    case (Up p)
    show ?thesis
    proof (cases "s = length a")
      case False
      then have "Suc (length a - (s + 1)) = length a - s" using "1.prems"(3) by simp
      then show ?thesis using "1.IH" [OF Up] "1.prems" False link_next_bound [OF Up] Up by (subst climb_from.simps) simp
    qed (use Up in \<open>subst climb_from.simps, simp\<close>)
  qed (subst climb_from.simps, simp)+
qed

lemma climb_stops_at_top: "climb_from a i s = Stopped t d \<Longrightarrow> link_next a t = Top"
proof (induction a i s rule: climb_from.induct)
  case (1 a i s)
  then show ?case by (subst (asm) climb_from.simps) (auto split: hop.splits if_splits)
qed

lemma link_parents_total:
  assumes "list_all link_index_ok a"
  shows "\<exists>par. link_parents a = Some par"
proof -
  have "parentOf a i \<noteq> None" if "i < length a" for i
  proof -
    have "link_next a i \<noteq> Off_table"
      using assms that by (auto simp: link_next_def Let_def list_all_length link_index_ok_def)
    with climb_no_raise [OF assms that, of 0] show ?thesis
      by (auto simp: parentOf_def split: hop.splits climb.splits)
  qed
  then have "None \<notin> set (map (parentOf a) [0..<length a])" by force
  then show ?thesis by (simp add: link_parents_def Let_def)
qed

lemma link_parent_is:
  assumes "list_all link_index_ok a" "link_parents a = Some par" "i < length a"
  shows "par ! i < 0 \<longleftrightarrow> link_next a i = Top \<or> ancestor a (Suc (length a)) i \<noteq> None"
    "0 \<le> par ! i \<Longrightarrow> link_next a i = Up (nat (par ! i))"
proof -
  have p: "parentOf a i = Some (par ! i)" by (rule link_parents_nth(2) [OF assms(2,3)])
  show "0 \<le> par ! i \<Longrightarrow> link_next a i = Up (nat (par ! i))" using parentOf_up [OF p] by blast
  have l: "climb_from a i 0 = Too_long \<longleftrightarrow> ancestor a (Suc (length a)) i \<noteq> None" using climb_too_long [OF assms(1,3), of 0] by simp
  show "par ! i < 0 \<longleftrightarrow> link_next a i = Top \<or> ancestor a (Suc (length a)) i \<noteq> None"
    unfolding l [symmetric] using p climb_stops_at_top [of a i 0] by (auto simp: parentOf_def split: hop.splits climb.splits if_splits)
qed

definition in_node :: "(int \<times> int) list \<Rightarrow> nat \<Rightarrow> int \<Rightarrow> int \<Rightarrow> bool" where
  "in_node pos i x y \<longleftrightarrow> x \<in> {fst (pos ! i), fst (pos ! i) + 1} \<and> y \<in> {snd (pos ! i), snd (pos ! i) + 1}"

lemma link_node_pix:
  assumes "fb_ok f" "on_panel x y"
  shows "pix (link_node a pos i f) x y = (if in_node pos i x y then shade (stateColor (stateEnum (jget (a ! i) ''state''))) 1 else pix f x y)"
proof -
  have two: "for_up 0 2 g f = g 1 (g 0 f)" for g :: "int \<Rightarrow> fb \<Rightarrow> fb" and f
    by (simp add: for_up_rec [of 0 2] for_up_rec [of 1 2])
  show ?thesis unfolding link_node_def two using assms by (auto simp: pix_fbSet fb_ok_intros in_node_def)
qed

lemma nodes_pix:
  assumes "fb_ok f" "on_panel x y" "\<forall>j\<in>set ys. \<not> in_node pos j x y"
  shows "pix (fold (link_node a pos) ys f) x y = pix f x y"
  using assms
proof (induction ys arbitrary: f)
  case (Cons j ys)
  have "fb_ok (link_node a pos j f)" using touches_ok [OF touches_traffic_parts(4) Cons.prems(1)] .
  then show ?case using Cons link_node_pix [OF Cons.prems(1,2)] by simp
qed simp

lemma nodes_last:
  assumes "fb_ok f" "on_panel x y" "in_node pos i x y" "\<forall>j\<in>set ys. \<not> in_node pos j x y"
  shows "pix (fold (link_node a pos) (xs @ i # ys) f) x y = shade (stateColor (stateEnum (jget (a ! i) ''state''))) 1"
proof -
  let ?f = "fold (link_node a pos) xs f"
  have ok: "fb_ok ?f" by (rule touches_ok [OF touches_fold [OF touches_traffic_parts(4)] assms(1)])
  have "fb_ok (link_node a pos i ?f)" using touches_ok [OF touches_traffic_parts(4) ok] .
  then show ?thesis using nodes_pix [OF _ assms(2,4)] link_node_pix [OF ok assms(2)] assms(3) by simp
qed

lemma flow_link_touches:
  assumes "touches anywhere (snd st)"
  shows "touches anywhere (snd (flow_link a par pos dt i st))"
  unfolding flow_link_def flow_dots_def Let_def case_prod_beta snd_conv using assms
  by (intro touch_intros; simp add: touch_intros)

text \<open>Property C17. For a table of links whose parents are absent, past the table or whole numbers from 0 up (cycles and
  self-parents included) the flow map is drawn without an exception: every link's line and then every link's
  node exactly once, a link's parent before the link, where the parent drawn is the link's own and only a link
  without one, or above which the climb runs into a cycle, is drawn as a root; every node lies in columns 5 to 50
  and rows 1 to 9, and each pixel of a node ends in the state colour of the last link drawn over it.\<close>

theorem sB3_draws_each_link_once:
  fixes e :: env
  defines "a \<equiv> jarr (jget (env_raw e) ''links'')"
  assumes "a \<noteq> []" "list_all link_index_ok a"
  shows "\<exists>par order pos m' lines. distinct order \<and> set order = {..<length a} \<and>
    (\<forall>i < length a. (par ! i < 0 \<longleftrightarrow> link_next a i = Top \<or> ancestor a (Suc (length a)) i \<noteq> None) \<and>
       (0 \<le> par ! i \<longrightarrow> link_next a i = Up (nat (par ! i)))) \<and>
    (\<forall>k < length order. 0 \<le> par ! (order ! k) \<longrightarrow> nat (par ! (order ! k)) \<in> set (take k order)) \<and>
    (\<forall>i < length a. on_map (pos ! i)) \<and>
    fold (flow_link a par pos dt) order (m, noop) = (m', lines) \<and>
    sB3 e dt m = Some (m', draw [lines, fold (link_node a pos) order]) \<and>
    (\<forall>f xs i ys x y. fb_ok f \<and> order = xs @ i # ys \<and> in_node pos i x y \<and> (\<forall>j\<in>set ys. \<not> in_node pos j x y) \<longrightarrow>
       pix (draw [lines, fold (link_node a pos) order] f) x y = shade (stateColor (stateEnum (jget (a ! i) ''state''))) 1)"
proof -
  obtain par where par: "link_parents a = Some par" using link_parents_total [OF assms(3)] by blast
  define order where "order = link_order par (link_roots par) []"
  define pos where "pos = place_links par (link_depths a par) order"
  obtain m' lines where fl: "fold (flow_link a par pos dt) order (m, noop) = (m', lines)" by fastforce
  note F = link_parents_forest [OF par] and n = link_parents_nth(1) [OF par]
  have o: "distinct order" "set order = {..<length a}"
    "\<And>k. k < length order \<Longrightarrow> 0 \<le> par ! (order ! k) \<Longrightarrow> nat (par ! (order ! k)) \<in> set (take k order)"
    using link_order_props [OF F] n by (simp_all add: order_def)
  have on: "on_map (pos ! i)" if "i < length a" for i
    using place_links_on_map [OF F, of "link_depths a par" i] that n by (simp add: pos_def order_def link_depths_def)
  have "touches anywhere (snd (fold (flow_link a par pos dt) order (m, noop)))"
    by (rule fold_inv [where P = "\<lambda>st. touches anywhere (snd st)"]) (simp_all add: touches_noop flow_link_touches)
  then have lines: "touches anywhere lines" by (simp add: fl)
  have "pix (draw [lines, fold (link_node a pos) order] f) x y = shade (stateColor (stateEnum (jget (a ! i) ''state''))) 1"
    if h: "fb_ok f" "order = xs @ i # ys" "in_node pos i x y" "\<forall>j\<in>set ys. \<not> in_node pos j x y" for f xs i ys x y
  proof -
    have "i < length a" using o(2) h(2) by auto
    then have "on_panel x y" using on [of i] h(3) by (auto simp: on_map_def in_node_def on_panel_iff)
    then show ?thesis using nodes_last [OF touches_ok [OF lines h(1)] _ h(3,4)] by (simp add: h(2) draw_Cons)
  qed
  moreover have "sB3 e dt m = Some (m', draw [lines, fold (link_node a pos) order])"
    unfolding sB3_def a_def [symmetric] using assms(2) par fl by (simp add: Let_def order_def pos_def)
  ultimately show ?thesis using o on fl link_parent_is [OF assms(3) par] by blast
qed

lemma four_links_ok: "list_all link_index_ok four_links"
  by (simp add: four_links_def link_index_ok_def num_def Let_def nullish_def)

theorem sB3_draws_each_link_once_witness:
  "\<exists>m' op order. sB3 (buildEnv [JObj [(''links'', JArr four_links)]] 5000) 0 ms_init = Some (m', op) \<and> distinct order \<and> set order = {..<4 :: nat}"
proof -
  let ?e = "buildEnv [JObj [(''links'', JArr four_links)]] 5000"
  have a: "jarr (jget (env_raw ?e) ''links'') = four_links" by (simp add: buildEnv_def Let_def)
  have ne: "four_links \<noteq> []" and n: "length four_links = 4" by (simp_all add: four_links_def)
  obtain order m' op where "distinct order" "set order = {..<length four_links}" "sB3 ?e 0 ms_init = Some (m', op)"
    using sB3_draws_each_link_once [of ?e 0 ms_init, unfolded a, OF ne four_links_ok] by blast
  then show ?thesis using n by auto
qed

end
