(* ===== verification/PanelTrouble.thy ===== *)
theory PanelTrouble
  imports PanelFleet
begin

section \<open>The trouble and resource screens C0 to D3\<close>

text \<open>
  The renderers \<open>sC0\<close> (alerts), \<open>sC1\<close> (fault board), \<open>sC2\<close> (reachability), \<open>sC3\<close> (alert
  history), \<open>sD0\<close> (host detail), \<open>sD1\<close> (CPU and memory), \<open>sD2\<close> (trends) and \<open>sD3\<close> (aurora) of
  \<^verbatim>\<open>screens-panel.jsx\<close>.  The properties are about the strips of \<open>sC2\<close>, the bars of \<open>sC3\<close> and
  the columns of \<open>sD1\<close>.
\<close>

subsection \<open>C0: alerts\<close>

definition age_label :: "jval \<Rightarrow> string" where
  "age_label v =
     (let m = num v in
      if m < 60 then js_String v @ ''M''
      else if m < 1440 then int_str \<lfloor>m / 60\<rfloor> @ ''H''
      else int_str \<lfloor>m / 1440\<rfloor> @ ''D'')"

definition alert_color :: "jval \<Rightarrow> rgb" where
  "alert_color v = (if num v = 2 then cCrit else if num v = 1 then cWarn else cAzure)"

definition alert_pages :: "jval \<Rightarrow> nat" where
  "alert_pages a =
     (let n = length (jarr (jget a ''items''))
      in n + (if num (jget a ''total'') > real n then 1 else 0))"

definition alert_page :: "jval \<Rightarrow> int \<Rightarrow> fb \<Rightarrow> fb" where
  "alert_page a p =
     (let items = jarr (jget a ''items''); q = jidx items p in
      if p \<ge> int (length items)
      then draw [
        textCentre 0 (''+'' @ num_str (num (jget a ''total'') - real (length items)) @ '' MORE'') cInk 1,
        textCentre 6 ''SEE DASHBOARD'' cAzure 1]
      else draw [
        textFit 0 0 (js_String (jget q ''host'')) 9 cInk 1,
        textRight 52 0 (age_label (jget q ''ageMin'')) cAzure 1,
        textCentre 6 (js_String (jget q ''msg'')) (alert_color (jget q ''severity'')) 1])"

definition sC0 :: "env \<Rightarrow> real \<Rightarrow> ms \<Rightarrow> ms \<times> (fb \<Rightarrow> fb)" where
  "sC0 e dt m =
     (let a = jget (env_raw e) ''alertList'' in
      if \<not> truthy a then (m, textCentre 3 ''NO ALERT DATA'' cAzure 1)
      else if jarr (jget a ''items'') = [] then (m, textCentre 3 ''ALL CLEAR'' cOk 1)
      else let (p, m') = pageFor 8 dt (pageCount (alert_pages a) 1) m
           in (m', draw [alert_page a p, pageBar p (int (alert_pages a))]))"

subsection \<open>C1: the fault board\<close>

definition fault_cell :: "int \<Rightarrow> int \<Rightarrow> string \<Rightarrow> real \<Rightarrow> rgb \<Rightarrow> fb \<Rightarrow> fb" where
  "fault_cell x y l n h =
     panelText x y (l @ '' '' @ num_str (min 99 n)) (if n \<noteq> 0 then h else cOk) 1"

definition sC1 :: "env \<Rightarrow> real \<Rightarrow> ms \<Rightarrow> ms \<times> (fb \<Rightarrow> fb)" where
  "sC1 e dt m =
     (let a = jget (env_raw e) ''alertList'' in
      if \<not> truthy a then (m, textCentre 3 ''NO ALERT DATA'' cAzure 1)
      else let f = jarr (jget a ''faultCounts''); c = (\<lambda>i. num (jidx f i));
               pages = (if truthy (jidx f 0) then 2 else 1) in
        let (p, m') = pageFor 9 dt pages m
        in (m', draw [
             (if p \<noteq> 0 then draw [
                textCentre 0 (''OTHER '' @ num_str (c 0)) cWarn 1,
                textCentre 6 ''SEE DASHBOARD'' cAzure 1]
              else draw [
                fault_cell 0 0 ''NET'' (c 1) cCrit, fault_cell 28 0 ''SVC'' (c 2) cWarn,
                fault_cell 0 6 ''DSK'' (c 3 + c 4 + c 6) cWarn, fault_cell 28 6 ''KRN'' (c 5) cWarn]),
             pageBar p pages]))"

subsection \<open>C2: reachability\<close>

definition probe_base :: "real list \<Rightarrow> real" where
  "probe_base row =
     for_up 0 (int HIST_LEN) (\<lambda>x base.
       let v = row ! nat x in if v > 0 \<and> v < base then v else base) 65535"

definition probe_paint :: "real \<Rightarrow> real \<Rightarrow> real \<Rightarrow> rgb \<times> real" where
  "probe_paint st base cell =
     (if st = ST_UNKNOWN then (cUnknown, 0.25)
      else if cell \<ge> 65535 then (cCrit, 1)
      else if base \<noteq> 65535 \<and> cell \<ge> base * 2 + 5 then (cWarn, 1)
      else (cOk, 0.4))"

definition probe_gap :: "int \<Rightarrow> int" where
  "probe_gap n = (if n \<le> 6 then 1 else 0)"

definition probe_y0 :: "int \<Rightarrow> int \<Rightarrow> int" where
  "probe_y0 n p = p * (PH + probe_gap n) div n"

definition probe_y1 :: "int \<Rightarrow> int \<Rightarrow> int" where
  "probe_y1 n p = (p + 1) * (PH + probe_gap n) div n - probe_gap n"

definition probe_strip :: "jval list \<Rightarrow> real list list \<Rightarrow> int \<Rightarrow> int \<Rightarrow> fb \<Rightarrow> fb" where
  "probe_strip a hist n p =
     (let row = hist ! nat p; base = probe_base row; st = stateEnum (jget (a ! nat p) ''state'') in
      for_up 0 (int HIST_LEN) (\<lambda>x.
        if row ! nat x < 0 then noop
        else for_up (probe_y0 n p) (probe_y1 n p) (\<lambda>y.
          fbSet x y (fst (probe_paint st base (row ! nat x))) (snd (probe_paint st base (row ! nat x))))))"

definition sC2 :: "env \<Rightarrow> fb \<Rightarrow> fb" where
  "sC2 e =
     (let a = jarr (jget (env_raw e) ''probes'') in
      if a = [] then textCentre 3 ''NO PROBE DATA'' cAzure 1
      else let n = min 11 (int (length a)) in for_up 0 n (probe_strip a (env_probeHist e) n))"

subsection \<open>C3: alert history\<close>

text \<open>
  \<open>Math.log2\<close> of a negative number is \<open>NaN\<close> and of 0 is minus infinity: \<open>heat_log\<close> gives
  \<open>None\<close> for the first, and \<open>heat_height\<close> -1 for the second, whose column stays empty as well.
\<close>

definition heat_log :: "real \<Rightarrow> real \<Rightarrow> int option" where
  "heat_log scale v = (if v < 0 then None else if v = 0 then Some (-1) else Some \<lceil>log 2 v * scale\<rceil>)"

definition heat_peak :: "(int \<Rightarrow> real) \<Rightarrow> (int \<Rightarrow> real) \<Rightarrow> real" where
  "heat_peak w c = for_up 0 52 (\<lambda>i peak. max peak (w i + c i)) 3"

definition heat_height :: "real \<Rightarrow> real \<Rightarrow> real \<Rightarrow> int option" where
  "heat_height scale nw nc = map_option (\<lambda>h. min PH h) (heat_log scale (nw + nc + 1))"

definition heat_crit :: "real \<Rightarrow> real \<Rightarrow> int option" where
  "heat_crit scale nc =
     (if nc = 0 then Some 0 else if nc + 1 \<le> 0 then None else heat_log scale (nc + 1))"

definition heat_color :: "int option \<Rightarrow> int \<Rightarrow> int \<Rightarrow> rgb" where
  "heat_color hc h r = (case hc of None \<Rightarrow> cWarn | Some k \<Rightarrow> if r \<ge> h - k then cCrit else cWarn)"

definition heat_dot :: "int \<Rightarrow> fb \<Rightarrow> fb" where
  "heat_dot i = (if (51 - i) mod 12 = 0 then fbSet i 10 cAzure 0.3 else noop)"

definition heat_bar :: "int \<Rightarrow> int option \<Rightarrow> int \<Rightarrow> fb \<Rightarrow> fb" where
  "heat_bar i hc h =
     draw [for_up 0 h (\<lambda>r. fbSet i (PH - 1 - r) (heat_color hc h r) 1),
       if h = 0 then heat_dot i else noop]"

definition heat_col :: "real \<Rightarrow> real \<Rightarrow> real \<Rightarrow> int \<Rightarrow> fb \<Rightarrow> fb" where
  "heat_col scale nw nc i =
     (case heat_height scale nw nc of None \<Rightarrow> heat_dot i | Some h \<Rightarrow> heat_bar i (heat_crit scale nc) h)"

definition sC3 :: "env \<Rightarrow> fb \<Rightarrow> fb" where
  "sC3 e =
     (let heat = jget (env_raw e) ''alertHeat'' in
      if \<not> truthy heat then textCentre 3 ''NO HISTORY'' cAzure 1
      else let w = (\<lambda>i. num (jidx (jarr (jget heat ''warn'')) i));
               c = (\<lambda>i. num (jidx (jarr (jget heat ''crit'')) i));
               scale = of_int PH / log 2 (heat_peak w c + 1)
           in draw [
             for_up 0 52 (\<lambda>i. heat_col scale (w i) (c i) i),
             for_up 0 PH (\<lambda>y. fbSet 52 y cAzure 0.45)])"

subsection \<open>D0: host detail\<close>

definition state_word :: "real \<Rightarrow> string" where
  "state_word st =
     (if st = 0 then ''OK'' else if st = 1 then ''DEG'' else if st = 2 then ''DOWN''
      else if st = 3 then ''?'' else if st = 4 then ''MNT'' else ''undefined'')"

definition pct_color :: "real \<Rightarrow> rgb \<Rightarrow> rgb" where
  "pct_color pct col = (if pct \<ge> 90 then cCrit else if pct \<ge> 75 then cWarn else col)"

definition gauge :: "int \<Rightarrow> string \<Rightarrow> jval \<Rightarrow> rgb \<Rightarrow> fb \<Rightarrow> fb" where
  "gauge x l v col =
     (let valid = (\<not> nullish v \<and> num v \<le> 100) in
      draw [
        panelText x 6 l cInk 1,
        panelText (x + 4) 6 (if valid then num_str (num v) else ''--'')
          (if valid then pct_color (num v) col else cUnknown) 1])"

definition sD0 :: "env \<Rightarrow> real \<Rightarrow> ms \<Rightarrow> ms \<times> (fb \<Rightarrow> fb)" where
  "sD0 e dt m =
     (let a = jarr (jget (env_raw e) ''systems'') in
      if a = [] then (m, noop)
      else let (p, m') = pageFor 12 dt (int (length a)) m in
        let q = jidx a p; st = stateEnum (jget q ''state'') in
        (m', draw [
           textFit 0 0 (js_String (jget q ''name'')) 8 cInk 1,
           textRight 52 0 (state_word st) (stateColor st) 1,
           (if st = ST_DOWN \<or> st = ST_UNKNOWN then textCentre 6 ''NO READINGS'' cUnknown 1
            else draw [gauge 0 ''C'' (jget q ''loadPct'') cAzure, gauge 19 ''M'' (jget q ''memPct'') cMaint,
              gauge 38 ''D'' (jget q ''diskPct'') cOk]),
           pageBar p (int (length a))]))"

subsection \<open>D1: CPU and memory\<close>

definition wing_gap :: "int \<Rightarrow> int" where
  "wing_gap n = (if PW \<ge> n * 2 then 1 else 0)"

definition wing_x0 :: "int \<Rightarrow> int \<Rightarrow> int" where
  "wing_x0 n i = i * (PW + wing_gap n) div n"

definition wing_x1 :: "int \<Rightarrow> int \<Rightarrow> int" where
  "wing_x1 n i = (i + 1) * (PW + wing_gap n) div n - wing_gap n"

definition wing_mem :: "jval \<Rightarrow> real" where
  "wing_mem q = (if nullish (jget q ''memPct'') then 255 else num (jget q ''memPct''))"

definition wing_up :: "bool \<Rightarrow> real \<Rightarrow> int" where
  "wing_up measured load =
     (let up = (if measured then \<lfloor>(load * 5 + 50) / 100\<rfloor> else 0)
      in if measured \<and> up < 1 \<and> load > 0 then 1 else up)"

definition wing_dn :: "bool \<Rightarrow> real \<Rightarrow> int" where
  "wing_dn measured mem =
     (let dn = (if measured \<and> mem \<le> 100 then \<lfloor>(mem * 5 + 50) / 100\<rfloor> else 0)
      in if dn < 1 \<and> measured \<and> mem \<le> 100 \<and> mem > 0 then 1 else dn)"

definition wing :: "jval list \<Rightarrow> int \<Rightarrow> int \<Rightarrow> fb \<Rightarrow> fb" where
  "wing a n i =
     (let q = a ! nat i; st = stateEnum (jget q ''state''); load = num (jget q ''loadPct'');
          mem = wing_mem q; measured = (st \<noteq> ST_DOWN \<and> st \<noteq> ST_UNKNOWN) in
      for_up (wing_x0 n i) (wing_x1 n i) (\<lambda>x. draw [
        fbSet x 5 (stateColor st) 1,
        for_up 1 6 (\<lambda>r. draw [
          (if r \<le> wing_up measured load then fbSet x (5 - r) (pct_color load cAzure) 1 else noop),
          (if r \<le> wing_dn measured mem then fbSet x (5 + r) (pct_color mem cMaint) 1 else noop)])]))"

definition sD1 :: "env \<Rightarrow> fb \<Rightarrow> fb" where
  "sD1 e =
     (let a = jarr (jget (env_raw e) ''systems''); n = min PW (int (length a)) in
      if n = 0 then noop else for_up 0 n (wing a n))"

subsection \<open>D2: trends\<close>

text \<open>The value of strip \<open>k\<close> at age \<open>a\<close>; the first strip adds the upload to the download.\<close>

definition trend_value :: "env \<Rightarrow> int \<Rightarrow> int \<Rightarrow> real" where
  "trend_value e k a =
     (let at_age = (\<lambda>r. r ! nat (52 - a)) in
      if k = 0 then
        (let v = at_age (env_wanDown e); v2 = at_age (env_wanUp e)
         in if v2 > 0 then (if v > 0 then v else 0) + v2 else v)
      else if k = 1 then at_age (env_cpuLocal e) else at_age (env_rttLocal e))"

definition trend_peak :: "env \<Rightarrow> int \<Rightarrow> real" where
  "trend_peak e k =
     for_up 0 PW (\<lambda>a peak. if trend_value e k a > peak then trend_value e k a else peak)
       (if k = 0 then 1 else if k = 1 then 0.4 else 10)"

definition trend_color :: "int \<Rightarrow> rgb" where
  "trend_color k = (if k = 0 then cInk else if k = 1 then cAzure else cMaint)"

definition trend_cell :: "env \<Rightarrow> int \<Rightarrow> int \<Rightarrow> fb \<Rightarrow> fb" where
  "trend_cell e k a =
     (let v = trend_value e k a; rows = min 3 (v / trend_peak e k * 3) in
      if v < 0 then noop
      else for_up 0 3 (\<lambda>r.
        if rows - of_int r \<le> 0 then noop
        else fbSet (PW - 1 - a) (4 * k + 2 - r) (trend_color k)
          (if rows - of_int r \<ge> 1 then 1 else 0.25 + 0.75 * (rows - of_int r))))"

definition sD2 :: "env \<Rightarrow> fb \<Rightarrow> fb" where
  "sD2 e = for_up 0 PW (\<lambda>a. for_up 0 3 (\<lambda>k. trend_cell e k a))"

subsection \<open>D3: aurora\<close>

definition aurora_tiles :: "jval \<Rightarrow> tile list" where
  "aurora_tiles raw =
     map (\<lambda>q. (host_tile q)\<lparr>tile_load := clamp01 (tile_load (host_tile q))\<rparr>) (jarr (jget raw ''systems''))
     @ map tail_tile (jarr (jget raw ''popTail''))"

definition aurora_total :: "jval \<Rightarrow> real" where
  "aurora_total q =
     fold (\<lambda>k t. if nullish (jget q k) then t else t + num (jget q k))
       [''wanDownKbps'', ''wanUpKbps'', ''lanDownKbps'', ''lanUpKbps''] 0"

definition aurora_phase :: "real \<Rightarrow> real \<Rightarrow> real \<Rightarrow> real" where
  "aurora_phase tot dt ph =
     (if tot > 0 then js_fmod (ph + dt * (0.15 + 2.2 * panelRateLevel tot)) (pi * 32) else ph)"

definition aurora_col :: "tile list \<Rightarrow> real \<Rightarrow> int \<Rightarrow> fb \<Rightarrow> fb" where
  "aurora_col tiles ph x =
     (let n = int (length tiles);
          pos = (of_int x + 0.5) * of_int n / of_int PW - 0.5;
          a0 = \<lfloor>pos\<rfloor>; b0 = a0 + 1; mix = pos - of_int a0;
          a = (if a0 < 0 then 0 else a0); b = (if b0 \<ge> n then n - 1 else b0);
          ta = tiles ! nat a; tb = tiles ! nat b; own = (if mix < 0.5 then ta else tb);
          st = tile_state own;
          load = tile_load ta + (tile_load tb - tile_load ta) * mix;
          crest = of_int PH - (4 + load * 7)
            + (sin (ph + of_int x * 0.28) * 1.3 + sin (ph * 0.61 + of_int x * 0.11) * 0.9);
          ray = 0.62 + 0.38 * sin (ph * 2.3 + of_int x * 1.35)
      in if st = ST_DOWN then for_up 0 PH (\<lambda>y. fbSet x y cCrit 1)
         else for_up 0 PH (\<lambda>y.
           let d = of_int y - crest in
           if d < -0.5 then noop
           else fbSet x y
             (if d < 1 then (if st = ST_OK then cOk else stateColor st)
              else (if st = ST_OK then cAzure else stateColor st))
             (if d < 1 then 1 else ray / (1 + d * 0.28))))"

definition sD3 :: "env \<Rightarrow> real \<Rightarrow> ms \<Rightarrow> ms \<times> (fb \<Rightarrow> fb)" where
  "sD3 e dt m =
     (let tiles = aurora_tiles (env_raw e);
          tot = aurora_total (jor (jget (env_raw e) ''totals'') (JObj []));
          ph = aurora_phase tot dt (ms_auroraPhase m)
      in if tiles = [] then (m, noop)
         else (m\<lparr>ms_auroraPhase := ph\<rparr>, for_up 0 PW (aurora_col tiles ph)))"

subsection \<open>Well-formedness\<close>

lemma rgb_trouble [simp]:
  "rgb_ok (alert_color v)" "rgb_ok (fst (probe_paint st base cell))" "rgb_ok (heat_color hc h r)"
  "rgb_ok col \<Longrightarrow> rgb_ok (pct_color pct col)" "rgb_ok (trend_color k)"
  by (simp_all add: alert_color_def probe_paint_def heat_color_def pct_color_def trend_color_def
      split: option.split)

lemma probe_paint_range [simp]: "0 \<le> snd (probe_paint st base cell)" "snd (probe_paint st base cell) \<le> 1"
  by (simp_all add: probe_paint_def)

lemma trouble_cells [touch_intros, range_intros]:
  "touches anywhere (alert_page a p)" "keeps_range (alert_page a p)"
  "touches anywhere (fault_cell x y l n h)" "rgb_ok h \<Longrightarrow> keeps_range (fault_cell x y l n h)"
  "touches anywhere (probe_strip pa hist pn pp)" "keeps_range (probe_strip pa hist pn pp)"
  "touches anywhere (heat_dot i)" "keeps_range (heat_dot i)"
  "touches anywhere (gauge x l v h)" "rgb_ok h \<Longrightarrow> keeps_range (gauge x l v h)"
  "touches anywhere (wing wa wn i)" "keeps_range (wing wa wn i)"
  unfolding alert_page_def fault_cell_def probe_strip_def heat_dot_def gauge_def wing_def
  by (intro touch_intros range_intros rgb_if; (assumption | simp))+

lemma heat_ops [touch_intros, range_intros]:
  "touches anywhere (heat_bar i hc h)" "keeps_range (heat_bar i hc h)"
  "touches anywhere (heat_col scale nw nc i)" "keeps_range (heat_col scale nw nc i)"
proof -
  show bar: "touches anywhere (heat_bar i hc h)" "keeps_range (heat_bar i hc h)" for hc h
    unfolding heat_bar_def by (intro touch_intros range_intros trouble_cells; simp)+
  show "touches anywhere (heat_col scale nw nc i)" "keeps_range (heat_col scale nw nc i)"
    using bar trouble_cells by (simp_all add: heat_col_def split: option.split)
qed

lemma trend_peak_pos: "0 < trend_peak e k"
proof -
  have "(if k = 0 then 1 else if k = 1 then 0.4 else 10) \<le> trend_peak e k"
    unfolding trend_peak_def
    by (rule for_up_inv [where P = "\<lambda>p. (if k = 0 then 1 else if k = 1 then 0.4 else 10) \<le> p"]) auto
  then show ?thesis by (auto split: if_splits)
qed

lemma trend_ops [touch_intros, range_intros]:
  "touches anywhere (trend_cell e k a)" "keeps_range (trend_cell e k a)"
  unfolding trend_cell_def by (intro touch_intros range_intros; auto simp: field_simps)+

lemma ray_range:
  assumes "\<not> d < 1"
  shows "0 \<le> (0.62 + 0.38 * sin u) / (1 + d * 0.28 :: real)" "(0.62 + 0.38 * sin u) / (1 + d * 0.28 :: real) \<le> 1"
proof -
  define s where "s = sin u"
  have s: "-1 \<le> s" "s \<le> 1" by (simp_all add: s_def)
  have "0 < 1 + d * 0.28" using assms by simp
  moreover have "0.62 + 0.38 * s \<le> 1 + d * 0.28" "0 \<le> 0.62 + 0.38 * s"
    using s assms by (simp_all add: field_simps)
  ultimately show "0 \<le> (0.62 + 0.38 * sin u) / (1 + d * 0.28)" "(0.62 + 0.38 * sin u) / (1 + d * 0.28) \<le> 1"
    by (simp_all only: s_def zero_le_divide_iff divide_le_eq_1) auto
qed

lemma aurora_ops [touch_intros, range_intros]:
  "touches anywhere (aurora_col tiles ph x)" "keeps_range (aurora_col tiles ph x)"
proof -
  show "touches anywhere (aurora_col tiles ph x)"
    unfolding aurora_col_def by (intro touch_intros) simp_all
  have b: "0 \<le> (if d < 1 then 1 else (0.62 + 0.38 * sin u) / (1 + d * 0.28 :: real))"
    "(if d < 1 then 1 else (0.62 + 0.38 * sin u) / (1 + d * 0.28 :: real)) \<le> 1" for d u
    using ray_range by simp_all
  show "keeps_range (aurora_col tiles ph x)"
    unfolding aurora_col_def Let_def [of "0.62 + _"]
    by (intro range_intros rgb_if b) simp_all
qed

lemma trouble_renders:
  assumes "ms_ok m" "0 \<le> dt"
  shows "renders (sC0 e dt m)" "renders (sC1 e dt m)" "renders (m, sC2 e)" "renders (m, sC3 e)"
  unfolding sC0_def sC1_def sC2_def sC3_def
  using assms by (intro screen_intros touch_intros range_intros; (assumption | simp))+

lemma resource_renders:
  assumes "ms_ok m" "0 \<le> dt"
  shows "renders (sD0 e dt m)" "renders (m, sD1 e)" "renders (m, sD2 e)" "renders (sD3 e dt m)"
  unfolding sD0_def sD1_def sD2_def sD3_def
  using assms by (intro screen_intros touch_intros range_intros; (assumption | simp add: ms_ok_def))+

subsection \<open>The strips of C2 and the columns of D1\<close>

text \<open>With 1 to 11 probes, each probe's strip on the reachability screen is a
  non-empty band of rows of the panel, and the strip of an earlier probe ends above it.\<close>

theorem probe_strips_separate:
  assumes "1 \<le> n" "n \<le> 11" "0 \<le> p" "p < n"
  shows "0 \<le> probe_y0 n p \<and> probe_y0 n p < probe_y1 n p \<and> probe_y1 n p \<le> PH \<and>
    (\<forall>q. 0 \<le> q \<and> q < p \<longrightarrow> probe_y1 n q + probe_gap n \<le> probe_y0 n p)"
proof -
  have g: "(1 + probe_gap n) * n \<le> PH + probe_gap n" "0 \<le> PH + probe_gap n" "0 < n"
    using assms by (auto simp: probe_gap_def)
  have "probe_y0 n p < probe_y1 n p"
    using seg_step [OF g(3,1), of p] by (simp add: probe_y0_def probe_y1_def)
  moreover have "0 \<le> probe_y0 n p" "probe_y1 n p \<le> PH"
    using seg_start [OF assms(3) g(2,3)] seg_end [OF assms(4) g(2,3)]
    by (simp_all add: probe_y0_def probe_y1_def)
  moreover have "probe_y1 n q + probe_gap n \<le> probe_y0 n p" if "q < p" for q
    using seg_mono [of "q + 1" p "PH + probe_gap n" n] that g by (simp add: probe_y0_def probe_y1_def)
  ultimately show ?thesis by blast
qed

theorem probe_strips_separate_witness:
  "(1::int) \<le> 4 \<and> (4::int) \<le> 11 \<and> probe_y0 4 2 < probe_y1 4 2"
  using probe_strips_separate [of 4 2] by simp

text \<open>With 1 to 53 hosts, each host of the butterfly chart has a non-empty range of
  columns of its own, and for readings of 0 to 100 per cent its two bars are 0 to 5 pixels high,
  at least 1 for a reading above zero.\<close>

theorem wings_separate:
  assumes "1 \<le> n" "n \<le> PW" "0 \<le> i" "i < n" "0 \<le> v" "v \<le> 100"
  shows "0 \<le> wing_x0 n i \<and> wing_x0 n i < wing_x1 n i \<and> wing_x1 n i \<le> PW \<and>
    (\<forall>j. 0 \<le> j \<and> j < i \<longrightarrow> wing_x1 n j \<le> wing_x0 n i) \<and>
    (if 0 < v then 1 else 0) \<le> wing_up True v \<and> wing_up True v \<le> 5 \<and>
    (if 0 < v then 1 else 0) \<le> wing_dn True v \<and> wing_dn True v \<le> 5"
proof -
  have g: "(1 + wing_gap n) * n \<le> PW + wing_gap n" "0 \<le> PW + wing_gap n" "0 < n" "0 \<le> wing_gap n"
    using assms by (auto simp: wing_gap_def)
  have "wing_x0 n i < wing_x1 n i"
    using seg_step [OF g(3,1), of i] by (simp add: wing_x0_def wing_x1_def)
  moreover have "0 \<le> wing_x0 n i" "wing_x1 n i \<le> PW"
    using seg_start [OF assms(3) g(2,3)] seg_end [OF assms(4) g(2,3)]
    by (simp_all add: wing_x0_def wing_x1_def)
  moreover have "wing_x1 n j \<le> wing_x0 n i" if "j < i" for j
    using seg_mono [of "j + 1" i "PW + wing_gap n" n] that g by (simp add: wing_x0_def wing_x1_def)
  moreover have "0 \<le> \<lfloor>(v * 5 + 50) / 100\<rfloor>" "\<lfloor>(v * 5 + 50) / 100\<rfloor> \<le> 5"
    using assms(5,6) by (simp_all add: floor_le_iff)
  ultimately show ?thesis
    using assms(5,6) by (auto simp: wing_up_def wing_dn_def Let_def)
qed

theorem wings_separate_witness:
  "(1::int) \<le> 20 \<and> 20 \<le> PW \<and> wing_x0 20 3 < wing_x1 20 3 \<and> 1 \<le> wing_up True 2"
  using wings_separate [of 20 3 2] by simp

subsection \<open>The bars of C3\<close>

lemma heat_peak_ge: "3 \<le> heat_peak w c" "0 \<le> i \<Longrightarrow> i < 52 \<Longrightarrow> w i + c i \<le> heat_peak w c"
proof -
  show "3 \<le> heat_peak w c"
    unfolding heat_peak_def by (rule for_up_inv) auto
  assume i: "0 \<le> i" "i < 52"
  let ?f = "\<lambda>i peak. max peak (w i + c i)"
  have "w i + c i \<le> for_up (i + 1) 52 ?f (?f i (for_up 0 i ?f 3))"
    by (rule for_up_inv [where P = "\<lambda>p. w i + c i \<le> p"]) auto
  then show "w i + c i \<le> heat_peak w c"
    using for_up_split_at [OF i, of ?f] by (simp add: heat_peak_def)
qed

lemma heat_bar_height:
  assumes "0 \<le> nw" "0 \<le> nc" "3 \<le> peak" "nw + nc \<le> peak"
  shows "\<exists>h. heat_height (of_int PH / log 2 (peak + 1)) nw nc = Some h \<and>
    (nw + nc = 0 \<longrightarrow> h = 0) \<and> (0 < nw + nc \<longrightarrow> 1 \<le> h) \<and> h \<le> PH \<and> (nw + nc = peak \<longrightarrow> h = PH)"
proof -
  let ?l = "log 2 (nw + nc + 1)" and ?m = "log 2 (peak + 1)"
  have m: "0 < ?m" using assms by simp
  have "0 \<le> ?l" "?l \<le> ?m" using assms by simp_all
  then have le: "0 \<le> ?l * (11 / ?m)" "?l * (11 / ?m) \<le> 11" using m by (simp_all add: field_simps)
  have pos: "0 < nw + nc \<Longrightarrow> 0 < ?l * (11 / ?m)" using m by (simp add: field_simps)
  have eq: "nw + nc = peak \<Longrightarrow> ?l * (11 / ?m) = 11" using m by (simp add: field_simps)
  show ?thesis
    using assms le pos eq
    by (auto simp: heat_height_def heat_log_def le_ceiling_iff ceiling_le_iff min_def)
qed

text \<open>In the alert history a bucket without alerts has no bar, a bucket with at least
  one alert has a bar of 1 to 11 pixels, and the busiest bucket fills the panel's height.\<close>

theorem heat_bars:
  assumes "0 \<le> w i" "0 \<le> c i" "0 \<le> i" "i < 52"
  shows "\<exists>h. heat_height (of_int PH / log 2 (heat_peak w c + 1)) (w i) (c i) = Some h \<and>
    (w i + c i = 0 \<longrightarrow> h = 0) \<and> (0 < w i + c i \<longrightarrow> 1 \<le> h) \<and> h \<le> PH \<and>
    (w i + c i = heat_peak w c \<longrightarrow> h = PH)"
  by (rule heat_bar_height [OF assms(1,2) heat_peak_ge(1) heat_peak_ge(2) [OF assms(3,4), of w c]])

theorem heat_bars_witness:
  "\<exists>h. heat_height (of_int PH / log 2 (heat_peak (\<lambda>_. 1) (\<lambda>_. 2) + 1)) 1 2 = Some h \<and> 1 \<le> h \<and> h \<le> PH"
  using heat_bars [of "\<lambda>_. 1" 5 "\<lambda>_. 2"] by auto

end
