(* ===== verification/PanelPaint.thy ===== *)
theory PanelPaint
  imports PanelTraffic PanelTrouble
begin

section \<open>The frame: screen table, overlays and the canvas\<close>

text \<open>
  Sections 11 and 12 of \<^verbatim>\<open>screens-panel.jsx\<close>: the screen table, the overlays \<open>titleCard\<close>,
  \<open>inlay\<close>, \<open>beacon\<close>, \<open>screenNoData\<close> and \<open>screenLinkLost\<close>, the paint order of \<open>paintScreen\<close>, and
  the conversion of the framebuffer to image bytes in \<open>paintCanvas\<close> (the compositing calls on
  the browser's canvas that follow it are not modelled).  The properties are about the paint
  order: what the alarm shows whatever the screen below is, and that no payload drives the
  framebuffer out of shape.
\<close>

subsection \<open>The screen table\<close>

datatype screen_id = A0 | A1 | A2 | A3 | B0 | B1 | B2 | B3 | C0 | C1 | C2 | C3 | D0 | D1 | D2 | D3

record screen_row =
  sr_id :: screen_id
  sr_theme :: nat
  sr_screen :: nat
  sr_title :: string

definition SCREENS :: "screen_row list" where
  "SCREENS = map (\<lambda>(i, th, sc, ti). \<lparr> sr_id = i, sr_theme = th, sr_screen = sc, sr_title = ti \<rparr>)
    [(A0, 0, 0, ''Host Tiles''), (A1, 0, 1, ''Roster''), (A2, 0, 2, ''Pools''), (A3, 0, 3, ''Head Count''),
     (B0, 1, 0, ''Swim Lanes''), (B1, 1, 1, ''WAN and LAN''), (B2, 1, 2, ''Top Talkers''), (B3, 1, 3, ''Flow Map''),
     (C0, 2, 0, ''Alerts''), (C1, 2, 1, ''Fault Board''), (C2, 2, 2, ''Reachability''), (C3, 2, 3, ''Alert History''),
     (D0, 3, 0, ''Host Detail''), (D1, 3, 1, ''CPU and Memory''), (D2, 3, 2, ''Trends''), (D3, 3, 3, ''Aurora'')]"

definition SCREEN_LABELS :: "string list" where
  "SCREEN_LABELS = [''HOST TILES'', ''ROSTER'', ''POOLS'', ''HEAD COUNT'', ''SWIM LANES'', ''WAN AND LAN'',
    ''TOP TALKERS'', ''FLOW MAP'', ''ALERTS'', ''FAULT BOARD'', ''REACHABILITY'', ''ALERT HISTORY'',
    ''HOST DETAIL'', ''CPU AND MEM'', ''TRENDS'', ''AURORA'']"

definition HELP_TEXTS :: "(string \<times> string) list" where
  "HELP_TEXTS = [
    (''TILE IS HOST'', ''FILL IS LOAD''), (''HOST LIST'', ''WORST FIRST''), (''EACH POOL'', ''HOSTS LOAD''),
    (''HOSTS UP'', ''AND WORST NOW''), (''LINK TRAFFIC'', ''DOTS ARE RATE''), (''INTERNET AND'', ''LOCAL TRAFFIC''),
    (''BUSIEST HOSTS'', ''BY TRAFFIC''), (''NETWORK TREE'', ''DOTS ARE RATE''), (''OPEN ALERTS'', ''WORST FIRST''),
    (''OPEN FAULTS'', ''BY KIND''), (''PING HISTORY'', ''RED IS LOSS''), (''ALERTS 26 HRS'', ''NOW AT RIGHT''),
    (''ONE HOST'', ''CPU MEM DISK''), (''UP IS CPU'', ''DOWN IS MEM''), (''TRAFFIC CPU'', ''AND PING''),
    (''AMBIENT FLEET'', ''RED IS FAULT'')]"

text \<open>\<open>SCREENS[idx].render(env, t, dt, st)\<close>; only the flow map can raise.\<close>

definition render :: "screen_id \<Rightarrow> env \<Rightarrow> real \<Rightarrow> ms \<Rightarrow> (ms \<times> (fb \<Rightarrow> fb)) option" where
  "render i e dt m = (case i of
       A0 \<Rightarrow> Some (m, sA0 e) | A1 \<Rightarrow> Some (sA1 e dt m) | A2 \<Rightarrow> Some (sA2 e dt m) | A3 \<Rightarrow> Some (m, sA3 e)
     | B0 \<Rightarrow> Some (sB0 e dt m) | B1 \<Rightarrow> Some (m, sB1 e) | B2 \<Rightarrow> Some (sB2 e dt m) | B3 \<Rightarrow> sB3 e dt m
     | C0 \<Rightarrow> Some (sC0 e dt m) | C1 \<Rightarrow> Some (sC1 e dt m) | C2 \<Rightarrow> Some (m, sC2 e) | C3 \<Rightarrow> Some (m, sC3 e)
     | D0 \<Rightarrow> Some (sD0 e dt m) | D1 \<Rightarrow> Some (m, sD1 e) | D2 \<Rightarrow> Some (m, sD2 e) | D3 \<Rightarrow> Some (sD3 e dt m))"

subsection \<open>Overlays\<close>

definition helpOverlay :: "int \<Rightarrow> fb \<Rightarrow> fb" where
  "helpOverlay index =
     (if index < 0 \<or> index > 15 then noop
      else draw [textCentre 0 (fst (HELP_TEXTS ! nat index)) cInk 1,
        textCentre 6 (snd (HELP_TEXTS ! nat index)) cAzure 1])"

definition titleCard :: "nat \<Rightarrow> real \<Rightarrow> fb \<Rightarrow> fb" where
  "titleCard index age =
     (if age < 0 \<or> age \<ge> 1 then noop
      else draw [fbDimAll 0.08, textCentre 3 (SCREEN_LABELS ! index) cInk 1])"

definition pulse_of :: "real \<Rightarrow> real" where
  "pulse_of t = 0.55 + 0.45 * \<bar>sin (t * 2.2)\<bar>"

definition inlay :: "env \<Rightarrow> real \<Rightarrow> fb \<Rightarrow> fb" where
  "inlay e t = draw [
     fbDimAll 0.1,
     for_up 0 PH (\<lambda>y. draw [fbSet 0 y cCrit (pulse_of t), fbSet 52 y cCrit (pulse_of t)]),
     for_up 0 PH (\<lambda>y. for_up 1 52 (\<lambda>x. fbDim x y 0.2)),
     textCentre 0 (slice0 12 (if env_subject e = [] then ''ALERT'' else env_subject e)) cCrit 1,
     textCentre 6 (env_detail e) cInk 1]"

definition beacon :: "real \<Rightarrow> fb \<Rightarrow> fb" where
  "beacon t = (if js_fmod t 1 \<ge> 0.5 then noop else for_up 0 2 (\<lambda>y. for_up 51 53 (\<lambda>x. fbSet x y cCrit 1)))"

definition screenNoData :: "real \<Rightarrow> bool \<Rightarrow> fb \<Rightarrow> fb" where
  "screenNoData t haveData =
     textCentre 3 (if haveData then ''NO HOSTS'' else ''AWAITING DATA'') cAzure
       (0.6 + 0.4 * (0.5 + 0.5 * sin (t * 0.8)))"

definition screenLinkLost :: "real \<Rightarrow> fb \<Rightarrow> fb" where
  "screenLinkLost t = draw [
     fbDimAll 0.06, textCentre 0 ''NO DATA FEED'' cWarn 1, textCentre 6 ''SCREEN IS OLD'' cInk 1,
     fbSet (js_rem \<lfloor>t * 12\<rfloor> PW) 5 cWarn 0.6]"

subsection \<open>paintScreen\<close>

definition stale_mark :: "env \<Rightarrow> fb \<Rightarrow> fb" where
  "stale_mark e = (if env_dataStale e then draw [fbSet 0 10 cWarn 1, fbSet 1 10 cWarn 1] else noop)"

definition alarm_layer :: "env \<Rightarrow> real \<Rightarrow> bool \<Rightarrow> fb \<Rightarrow> fb" where
  "alarm_layer e t armed = (if armed then draw [inlay e t, beacon t] else noop)"

text \<open>The whole frame; \<open>None\<close> when the renderer raises.  No environment stands for no data.\<close>

definition paintScreen :: "nat \<Rightarrow> env option \<Rightarrow> real \<Rightarrow> real \<Rightarrow> bool \<Rightarrow> nat option \<Rightarrow> real option \<Rightarrow> ms \<Rightarrow> fb
    \<Rightarrow> (ms \<times> fb) option" where
  "paintScreen idx env t dt armed currentIdx titleAge m f =
     (let f0 = fbClear f in
      case env of
        None \<Rightarrow> Some (m, (if armed then draw [screenNoData t False, beacon t] else screenNoData t False) f0)
      | Some e \<Rightarrow>
          if \<not> env_haveData e \<or> env_total e = 0
          then Some (m, (if armed then draw [screenNoData t (env_haveData e), beacon t]
                         else screenNoData t (env_haveData e)) f0)
          else map_option (\<lambda>(m', op). (m',
                 draw [op, stale_mark e,
                   (if currentIdx = Some idx then titleCard idx (case titleAge of None \<Rightarrow> 99 | Some a \<Rightarrow> a) else noop),
                   alarm_layer e t armed] f0))
               (render (sr_id (SCREENS ! idx)) e dt m))"

subsection \<open>The canvas\<close>

definition driverGain :: "real option \<Rightarrow> real" where
  "driverGain pct =
     (let g = (case pct of None \<Rightarrow> 100 | Some p \<Rightarrow> p) / 100;
          g1 = (if g < 0.25 then 0.25 else g)
      in if g1 > 1 then 1 else g1)"

definition clamp_byte :: "real \<Rightarrow> real" where
  "clamp_byte v = (if v < 0 then 0 else if v > 255 then 255 else v)"

text \<open>The image's channels, four per LED, before the byte array rounds them.\<close>

definition image_data :: "fb \<Rightarrow> real \<Rightarrow> real list" where
  "image_data f gain =
     concat (map (\<lambda>n. [clamp_byte (f ! (3 * n) * gain), clamp_byte (f ! (3 * n + 1) * gain),
       clamp_byte (f ! (3 * n + 2) * gain), 255]) [0..<nat (PW * PH)])"

subsection \<open>Every frame is well formed\<close>

lemma pulse_range: "0.55 \<le> pulse_of t" "0 \<le> pulse_of t" "pulse_of t \<le> 1"
proof -
  define s where "s = \<bar>sin (t * 2.2)\<bar>"
  have "0 \<le> s" "s \<le> 1" by (simp_all add: s_def)
  then show "0.55 \<le> pulse_of t" "0 \<le> pulse_of t" "pulse_of t \<le> 1"
    unfolding pulse_of_def s_def [symmetric] by simp_all
qed

lemma overlays [touch_intros, range_intros]:
  "touches anywhere (titleCard k age)" "keeps_range (titleCard k age)"
  "touches anywhere (inlay e t)" "keeps_range (inlay e t)"
  "touches anywhere (beacon t)" "keeps_range (beacon t)"
  "touches anywhere (screenNoData t b)" "keeps_range (screenNoData t b)"
  "touches anywhere (stale_mark e)" "keeps_range (stale_mark e)"
  unfolding titleCard_def inlay_def beacon_def screenNoData_def stale_mark_def
  by (intro touch_intros range_intros; (simp add: pulse_range)?)+

lemma alarm_ops [touch_intros, range_intros]:
  "touches anywhere (alarm_layer e t armed)" "keeps_range (alarm_layer e t armed)"
  unfolding alarm_layer_def by (intro touch_intros range_intros)+

lemma render_ok:
  assumes "ms_ok m" "0 \<le> dt" "render i e dt m = Some (m', op)"
  shows "ms_ok m'" "touches anywhere op"
    "i \<noteq> A0 \<or> list_all (\<lambda>q. 0 \<le> tile_load q \<and> tile_load q \<le> 1) (all_tiles (env_raw e)) \<Longrightarrow> keeps_range op"
proof -
  note screens = fleet_renders [OF assms(1,2)] sB0_renders [OF assms(1,2)] sB1_renders [OF assms(1)]
    sB2_renders [OF assms(1,2)] sB3_renders [OF assms(1,2)] trouble_renders [OF assms(1,2)]
    resource_renders [OF assms(1,2)]
  have "renders r" if "i \<noteq> A0" "render i e dt m = Some r" for r
    using that by (cases i) (auto simp: render_def intro: screens)
  with assms(3) have "i \<noteq> A0 \<Longrightarrow> renders (m', op)" by blast
  moreover have "i = A0 \<Longrightarrow> m' = m \<and> op = sA0 e" using assms(3) by (simp add: render_def)
  ultimately show "ms_ok m'" "touches anywhere op"
    "i \<noteq> A0 \<or> list_all (\<lambda>q. 0 \<le> tile_load q \<and> tile_load q \<le> 1) (all_tiles (env_raw e)) \<Longrightarrow> keeps_range op"
    using assms(1) touches_sA0 range_sA0 by (auto simp: renders_def)
qed

text \<open>The drawing of a frame, over the cleared framebuffer.\<close>

definition frame_ops :: "nat \<Rightarrow> env \<Rightarrow> real \<Rightarrow> bool \<Rightarrow> nat option \<Rightarrow> real option \<Rightarrow> (fb \<Rightarrow> fb) \<Rightarrow> fb \<Rightarrow> fb" where
  "frame_ops idx e t armed currentIdx titleAge op =
     draw [op, stale_mark e,
       (if currentIdx = Some idx then titleCard idx (case titleAge of None \<Rightarrow> 99 | Some a \<Rightarrow> a) else noop),
       alarm_layer e t armed]"

lemma paintScreen_cases:
  assumes "paintScreen idx env t dt armed cur age m f = Some (m', f')"
  obtains b where "m' = m"
      "f' = (if armed then draw [screenNoData t b, beacon t] else screenNoData t b) (fbClear f)"
  | e op where "env = Some e" "env_haveData e" "env_total e \<noteq> 0"
      "render (sr_id (SCREENS ! idx)) e dt m = Some (m', op)"
      "f' = frame_ops idx e t armed cur age op (fbClear f)"
  using assms
  by (auto simp: paintScreen_def frame_ops_def Let_def split: option.splits if_splits)

lemma in_range_clear: "in_range (fbClear f)"
  by (simp add: fbClear_def in_range_def list_all_iff)

text \<open>Property C26. Whatever the payload, every frame that is painted leaves a framebuffer of 1749
  channels and well-formed animation state; the channels are within 0 and 255 as well, on screen
  A0 under the condition that the hosts' loads are percentages.\<close>

theorem paintScreen_wellformed:
  assumes "paintScreen idx env t dt armed cur age m f = Some (m', f')"
    and "ms_ok m" "0 \<le> dt" "fb_ok f"
    and "\<And>e. env = Some e \<Longrightarrow> sr_id (SCREENS ! idx) = A0 \<Longrightarrow>
      list_all (\<lambda>q. 0 \<le> tile_load q \<and> tile_load q \<le> 1) (all_tiles (env_raw e))"
  shows "fb_ok f' \<and> ms_ok m' \<and> in_range f'"
  using assms(1)
proof (cases rule: paintScreen_cases)
  case (1 b)
  let ?op = "if armed then draw [screenNoData t b, beacon t] else screenNoData t b"
  have "touches anywhere ?op" "keeps_range ?op" by (intro touch_intros range_intros)+
  with 1 assms(2,4) show ?thesis
    by (simp add: touches_ok fb_ok_intros keeps_range_def in_range_clear)
next
  case (2 e op)
  note R = render_ok [OF assms(2,3) 2(4)]
  have "touches anywhere (frame_ops idx e t armed cur age op)"
    "keeps_range (frame_ops idx e t armed cur age op)"
    unfolding frame_ops_def using R(2,3) assms(5) [OF 2(1)]
    by (intro touch_intros range_intros; blast)+
  with 2 R(1) assms(4) show ?thesis
    by (simp add: touches_ok fb_ok_intros keeps_range_def in_range_clear)
qed

lemma paint_no_env:
  "paintScreen 3 None 0 0 True (Some 3) None ms_init fbNew =
     Some (ms_init, draw [screenNoData 0 False, beacon 0] (fbClear fbNew))"
  by (simp add: paintScreen_def)

theorem paintScreen_wellformed_witness:
  "fb_ok (draw [screenNoData 0 False, beacon 0] (fbClear fbNew)) \<and> ms_ok ms_init \<and>
   in_range (draw [screenNoData 0 False, beacon 0] (fbClear fbNew))"
  using paintScreen_wellformed [OF paint_no_env] by (simp add: ms_ok_init)

text \<open>A frame does not depend on what the framebuffer held before it.\<close>

theorem paintScreen_no_ghosts:
  assumes "fb_ok f" "fb_ok g"
  shows "paintScreen idx env t dt armed cur age m f = paintScreen idx env t dt armed cur age m g"
proof -
  have "fbClear f = fbClear g" using assms by (simp add: fbClear_def fb_ok_def map_replicate_const)
  then show ?thesis by (simp add: paintScreen_def)
qed

theorem paintScreen_no_ghosts_witness:
  "fb_ok (fbSet 3 4 cInk 1 fbNew) \<and>
   paintScreen 3 None 0 0 True (Some 3) None ms_init (fbSet 3 4 cInk 1 fbNew) =
   paintScreen 3 None 0 0 True (Some 3) None ms_init fbNew"
  using paintScreen_no_ghosts [of "fbSet 3 4 cInk 1 fbNew" fbNew] by (simp add: fb_ok_intros)

subsection \<open>What the alarm shows\<close>

definition rail :: "int \<Rightarrow> int \<Rightarrow> bool" where
  "rail x y \<longleftrightarrow> x = 0 \<or> x = 52"

definition inner :: "int \<Rightarrow> int \<Rightarrow> bool" where
  "inner x y \<longleftrightarrow> 1 \<le> x \<and> x < 52"

lemma touches_inner_text [touch_intros]: "touches inner (textCentre y s c b)"
  by (rule touches_mono [OF touches_textCentre]) (simp add: box_def inner_def)

lemma pix_rails:
  assumes "fb_ok f" "0 \<le> y" "y < 11" "x = 0 \<or> x = 52"
  shows "pix (for_up 0 PH (\<lambda>y. draw [fbSet 0 y c b, fbSet 52 y c b]) f) x y = shade c b"
proof (rule for_up_one [where R = "\<lambda>i x' y'. y' = i" and k = y])
  show "touches (\<lambda>x' y'. y' = i) (draw [fbSet 0 i c b, fbSet 52 i c b])" for i
    by (intro touch_intros) simp_all
  show "pix (draw [fbSet 0 y c b, fbSet 52 y c b] g) x y = shade c b" if "fb_ok g" for g
    using assms that by (auto simp: draw_Cons pix_simps fb_ok_intros on_panel_iff)
qed (use assms in \<open>auto simp: on_panel_iff\<close>)

lemma pix_inlay_rail:
  assumes "fb_ok f" "0 \<le> y" "y < 11" "x = 0 \<or> x = 52"
  shows "pix (inlay e t f) x y = shade cCrit (pulse_of t)"
proof -
  let ?rails = "for_up 0 PH (\<lambda>y. draw [fbSet 0 y cCrit (pulse_of t), fbSet 52 y cCrit (pulse_of t)])"
  let ?rest = "draw [for_up 0 PH (\<lambda>y. for_up 1 52 (\<lambda>x. fbDim x y 0.2)),
     textCentre 0 (slice0 12 (if env_subject e = [] then ''ALERT'' else env_subject e)) cCrit 1,
     textCentre 6 (env_detail e) cInk 1]"
  have ok: "fb_ok (fbDimAll 0.1 f)" using assms(1) by (rule fb_ok_intros)
  have "touches anywhere ?rails" by (intro touch_intros) simp_all
  then have ok2: "fb_ok (?rails (fbDimAll 0.1 f))" using ok by (rule touches_ok)
  have "touches inner ?rest" by (intro touch_intros) (simp_all add: inner_def)
  from touches_pix [OF this ok2, of x y]
  have "pix (?rest (?rails (fbDimAll 0.1 f))) x y = pix (?rails (fbDimAll 0.1 f)) x y"
    using assms(2-4) by (auto simp: inner_def on_panel_iff)
  then show ?thesis
    using pix_rails [OF ok assms(2-4)] by (simp only: inlay_def draw_Cons)
qed

lemma pix_beacon:
  assumes "fb_ok f" "on_panel x y"
  shows "pix (beacon t f) x y =
    (if js_fmod t 1 < 0.5 \<and> y \<le> 1 \<and> 51 \<le> x then shade cCrit 1 else pix f x y)"
  using assms lit.pread_rect [OF assms, of 0 2 51 53 "\<lambda>_ _. cCrit" "\<lambda>_ _. 1"]
  by (auto simp: beacon_def noop_def on_panel_iff)

lemma pix_alarm:
  assumes "fb_ok f" "0 \<le> y" "y < 11" "x = 0 \<or> x = 52"
  shows "pix (alarm_layer e t True f) x y =
    (if js_fmod t 1 < 0.5 \<and> y \<le> 1 \<and> x = 52 then shade cCrit 1 else shade cCrit (pulse_of t))"
proof -
  have ok: "fb_ok (inlay e t f)" using touches_ok [OF overlays(3) assms(1)] .
  have on: "on_panel x y" using assms by (auto simp: on_panel_iff)
  have "pix (alarm_layer e t True f) x y = pix (beacon t (inlay e t f)) x y"
    by (simp add: alarm_layer_def draw_Cons)
  also have "\<dots> = (if js_fmod t 1 < 0.5 \<and> y \<le> 1 \<and> 51 \<le> x then shade cCrit 1
      else shade cCrit (pulse_of t))"
    by (simp only: pix_beacon [OF ok on] pix_inlay_rail [OF assms])
  also have "51 \<le> x \<longleftrightarrow> x = 52" using assms(4) by auto
  finally show ?thesis .
qed

text \<open>Property C27. While the alarm is armed and a screen is rendered, which takes data and at least one host, both edges of
  the panel show the alarm colour over their whole height on every screen, pulsing between 55 and 100 per cent, and the beacon is
  painted last: in the first half of each second it is at full brightness in the top right corner.\<close>

theorem armed_frame_shows_alarm:
  assumes "paintScreen idx (Some e) t dt True cur age m f = Some (m', f')"
    and "env_haveData e" "env_total e \<noteq> 0" "ms_ok m" "0 \<le> dt" "fb_ok f" "0 \<le> y" "y < PH"
  shows "pix f' 0 y = shade cCrit (pulse_of t) \<and>
    pix f' 52 y = (if js_fmod t 1 < 0.5 \<and> y \<le> 1 then shade cCrit 1 else shade cCrit (pulse_of t)) \<and>
    0.55 \<le> pulse_of t \<and> pulse_of t \<le> 1"
proof -
  obtain op where r: "render (sr_id (SCREENS ! idx)) e dt m = Some (m', op)"
    and f': "f' = frame_ops idx e t True cur age op (fbClear f)"
    using assms(1-3) by (auto simp: paintScreen_def frame_ops_def)
  let ?below = "draw [op, stale_mark e,
    (if cur = Some idx then titleCard idx (case age of None \<Rightarrow> 99 | Some a \<Rightarrow> a) else noop)]"
  have "touches anywhere ?below"
    by (intro touch_intros render_ok(2) [OF assms(4,5) r])
  then have ok: "fb_ok (?below (fbClear f))" using assms(6) by (simp add: touches_ok fb_ok_intros)
  have "f' = alarm_layer e t True (?below (fbClear f))" by (simp add: f' frame_ops_def draw_Cons)
  then show ?thesis
    using pix_alarm [OF ok assms(7), of 0] pix_alarm [OF ok assms(7), of 52] assms(8) pulse_range
    by simp
qed

definition head_count :: "jval list" where
  "head_count = [JObj [(''stateRoll'', JObj [(''up'', JNum 2), (''down'', JNum 1)])]]"

lemma env_haveData_buildEnv: "env_haveData (buildEnv samples cadence)"
  by (simp add: buildEnv_def Let_def)

lemma head_count_total: "env_total (buildEnv head_count 5000) = 3"
  by (simp add: head_count_def buildEnv_def roll_up_def num_def jor_def Let_def)

theorem armed_frame_shows_alarm_witness:
  "pix (snd (the (paintScreen 3 (Some (buildEnv head_count 5000)) 0 0 True None None ms_init fbNew))) 52 0
   = shade cCrit 1"
proof -
  have "render (sr_id (SCREENS ! 3)) e dt m = Some (m, sA3 e)" for e dt m
    by (simp add: SCREENS_def render_def)
  then have "paintScreen 3 (Some (buildEnv head_count 5000)) 0 0 True None None ms_init fbNew \<noteq> None"
    by (simp add: paintScreen_def Let_def)
  then obtain m' f' where
    p: "paintScreen 3 (Some (buildEnv head_count 5000)) 0 0 True None None ms_init fbNew = Some (m', f')" by auto
  show ?thesis
    using armed_frame_shows_alarm [OF p, of 0]
    by (simp add: p ms_ok_init env_haveData_buildEnv head_count_total js_fmod_def js_trunc_def)
qed

subsection \<open>The canvas bytes\<close>

text \<open>Whatever the framebuffer holds and whatever brightness is asked for, the driver
  gain is between 0.25 and 1 and the image has four channels per LED, each within 0 and 255.\<close>

theorem image_data_in_range:
  "0.25 \<le> driverGain pct \<and> driverGain pct \<le> 1 \<and>
   length (image_data f (driverGain pct)) = 4 * nat (PW * PH) \<and>
   list_all (\<lambda>v. 0 \<le> v \<and> v \<le> 255) (image_data f (driverGain pct))"
proof -
  have "length (concat (map (\<lambda>n. [a n, b n, c n, d n]) xs)) = 4 * length xs" for a b c d :: "nat \<Rightarrow> real" and xs
    by (induction xs) auto
  then have "length (image_data f g) = 4 * nat (PW * PH)" for g
    by (simp only: image_data_def length_upt diff_zero)
  moreover have "0 \<le> clamp_byte v \<and> clamp_byte v \<le> 255" for v by (simp add: clamp_byte_def)
  then have "list_all (\<lambda>v. 0 \<le> v \<and> v \<le> 255) (image_data f g)" for g
    by (auto simp: image_data_def list_all_iff)
  moreover have "0.25 \<le> driverGain pct" "driverGain pct \<le> 1" by (auto simp: driverGain_def Let_def)
  ultimately show ?thesis by blast
qed

end
