(* ===== verification/PanelCfg.thy ===== *)
theory PanelCfg
  imports PanelPaint
begin

unbundle bit_operations_syntax

section \<open>Commands and the panel's reported configuration\<close>

text \<open>
  Sections 13 and 13a of \<^verbatim>\<open>screens-panel.jsx\<close>: the command kinds and their argument packing, the
  keys of the pending commands, the decoder of the configuration the panel reports, the role
  gate and the two time helpers.  The arguments are 32-bit integers and are packed with the
  language's shift and or operators.  \<open>Date.parse\<close> of a string that is not a database datetime
  is implementation-defined: it is the parameter \<open>dateParse\<close>.
\<close>

subsection \<open>Command kinds and packing\<close>

definition POLL_MS :: int where "POLL_MS = 5000"
definition CMD_EXPIRY_MS :: int where "CMD_EXPIRY_MS = 120000"
definition CMD_GIVEUP_MS :: int where "CMD_GIVEUP_MS = 130000"
definition N_SCREENS :: nat where [simp]: "N_SCREENS = 16"

definition CMD_screenEn :: int where [simp]: "CMD_screenEn = 8"
definition CMD_screenWt :: int where [simp]: "CMD_screenWt = 9"

definition CMD_GROUP :: "(int \<times> string) list" where
  "CMD_GROUP = [(1, ''theme''), (2, ''screen''), (3, ''brightness''), (4, ''brightness''), (5, ''ack''),
     (6, ''dwell''), (7, ''sleep'')]"

definition CMD_LABEL :: "(int \<times> string) list" where
  "CMD_LABEL = [(1, ''theme''), (2, ''screen''), (3, ''brightness''), (4, ''auto-brightness''),
     (5, ''acknowledge''), (6, ''dwell''), (7, ''sleep/wake'')]"

definition shl32 :: "int \<Rightarrow> nat \<Rightarrow> 32 word" where
  "shl32 x n = push_bit n (word_of_int x)"

definition shr32 :: "int \<Rightarrow> nat \<Rightarrow> int" where
  "shr32 x n = sint (signed_drop_bit n (word_of_int x :: 32 word))"

definition packScreenEn :: "int \<Rightarrow> bool \<Rightarrow> int" where
  "packScreenEn idx enabled = sint (shl32 idx 1 OR (if enabled then 1 else 0))"

definition packScreenWt :: "int \<Rightarrow> int \<Rightarrow> int" where
  "packScreenWt idx code = sint (shl32 idx 3 OR (word_of_int code AND 7))"

text \<open>The key of a command's control; \<open>None\<close> is the property read of an unknown kind.\<close>

definition cmdGroup :: "int \<Rightarrow> int \<Rightarrow> string option" where
  "cmdGroup kind arg =
     (if kind = CMD_screenEn then Some (''screenEn:'' @ int_str (shr32 arg 1))
      else if kind = CMD_screenWt then Some (''screenWt:'' @ int_str (shr32 arg 3))
      else map_of CMD_GROUP kind)"

definition screen_name :: "screen_id \<Rightarrow> string" where
  "screen_name i = (case i of A0 \<Rightarrow> ''A0'' | A1 \<Rightarrow> ''A1'' | A2 \<Rightarrow> ''A2'' | A3 \<Rightarrow> ''A3''
     | B0 \<Rightarrow> ''B0'' | B1 \<Rightarrow> ''B1'' | B2 \<Rightarrow> ''B2'' | B3 \<Rightarrow> ''B3''
     | C0 \<Rightarrow> ''C0'' | C1 \<Rightarrow> ''C1'' | C2 \<Rightarrow> ''C2'' | C3 \<Rightarrow> ''C3''
     | D0 \<Rightarrow> ''D0'' | D1 \<Rightarrow> ''D1'' | D2 \<Rightarrow> ''D2'' | D3 \<Rightarrow> ''D3'')"

definition screen_or_number :: "int \<Rightarrow> string" where
  "screen_or_number k =
     (if 0 \<le> k \<and> k < int (length SCREENS) then screen_name (sr_id (SCREENS ! nat k))
      else ''screen '' @ int_str k)"

definition cmdLabel :: "int \<Rightarrow> int \<Rightarrow> string" where
  "cmdLabel kind arg =
     (if kind = CMD_screenEn then screen_or_number (shr32 arg 1) @ '' enable''
      else if kind = CMD_screenWt then screen_or_number (shr32 arg 3) @ '' weight''
      else case map_of CMD_LABEL kind of Some l \<Rightarrow> l | None \<Rightarrow> ''command'')"

subsection \<open>The reported configuration\<close>

record scfg =
  sc_enabled :: bool
  sc_weightCode :: int

text \<open>The multiplication sign and the fractions of the labels are written in ASCII.\<close>

definition WEIGHTS :: "(int \<times> string \<times> real) list" where
  "WEIGHTS = [(0, ''1/4x'', 0.25), (1, ''1/2x'', 0.5), (2, ''1x'', 1), (3, ''2x'', 2), (4, ''5x'', 5), (5, ''10x'', 10)]"

definition weightLabel :: "int \<Rightarrow> string option" where
  "weightLabel code = map_option fst (map_of WEIGHTS code)"

definition whole :: "real \<Rightarrow> bool" where
  "whole v \<longleftrightarrow> of_int \<lfloor>v\<rfloor> = v"

definition decode_byte :: "jnum \<Rightarrow> scfg option" where
  "decode_byte b = (case b of
       Fin v \<Rightarrow>
         if v < 0 \<or> v > 255 \<or> \<not> whole v then None
         else let w = to_int32 v; code = sint (signed_drop_bit 1 w AND 7) in
           if code > 5 then None
           else Some \<lparr> sc_enabled = (w AND 1 = 1), sc_weightCode = code \<rparr>
     | _ \<Rightarrow> None)"

definition decodeScreenByte :: "jval \<Rightarrow> scfg option" where
  "decodeScreenByte b = decode_byte (js_Number b)"

definition decode_object :: "jval \<Rightarrow> scfg option" where
  "decode_object e =
     (case js_Number (jnn (jget e ''weightCode'') (jget e ''weight'')) of
        Fin code \<Rightarrow>
          if code < 0 \<or> code > 5 \<or> \<not> whole code then None
          else (case jget e ''enabled'' of
              JBool b \<Rightarrow> Some \<lparr> sc_enabled = b, sc_weightCode = \<lfloor>code\<rfloor> \<rparr>
            | JNum r \<Rightarrow> Some \<lparr> sc_enabled = (r \<noteq> 0), sc_weightCode = \<lfloor>code\<rfloor> \<rparr>
            | _ \<Rightarrow> None)
      | _ \<Rightarrow> None)"

fun decodeScreenEntry :: "jval \<Rightarrow> scfg option" where
  "decodeScreenEntry (JNum r) = decodeScreenByte (JNum r)"
| "decodeScreenEntry (JObj kvs) = decode_object (JObj kvs)"
| "decodeScreenEntry (JArr xs) = decode_object (JArr xs)"
| "decodeScreenEntry _ = None"

definition default_cfg :: scfg where
  "default_cfg = \<lparr> sc_enabled = True, sc_weightCode = 2 \<rparr>"

definition is_hex :: "char \<Rightarrow> bool" where
  "is_hex c \<longleftrightarrow> hex_val c \<noteq> None"

definition hex_pair :: "string \<Rightarrow> nat \<Rightarrow> jnum" where
  "hex_pair hex i =
     (case (hex_val (hex ! (2 * i)), hex_val (hex ! (2 * i + 1))) of
        (Some h, Some l) \<Rightarrow> Fin (real (16 * h + l)) | _ \<Rightarrow> NaN)"

definition read_hex :: "string \<Rightarrow> scfg option list option" where
  "read_hex s =
     (let hex = js_trim s in
      if (length hex = 24 \<or> length hex = 32) \<and> list_all is_hex hex
      then Some (map (\<lambda>i. if i < 12 \<or> length hex = 32 then decode_byte (hex_pair hex i) else Some default_cfg)
        [0..<N_SCREENS])
      else None)"

fun read_src :: "jval \<Rightarrow> scfg option list option" where
  "read_src (JStr s) = read_hex s"
| "read_src (JArr xs) =
     (if length xs \<noteq> N_SCREENS \<and> length xs \<noteq> 12 then None
      else Some (map (\<lambda>i. if i < length xs then decodeScreenEntry (xs ! i) else Some default_cfg) [0..<N_SCREENS]))"
| "read_src _ = None"

fun readScreenCfg :: "jval \<Rightarrow> scfg option list option" where
  "readScreenCfg (JObj kvs) = read_src (jget (JObj kvs) ''screenCfg'')"
| "readScreenCfg raw = read_src raw"

fun readCfgPersisted :: "jval \<Rightarrow> bool" where
  "readCfgPersisted (JObj kvs) =
     (case js_Number (jget (JObj kvs) ''flags'') of
        Fin f \<Rightarrow> \<not> (f < 0 \<or> f > 255) \<and> to_int32 f AND 1 = 1
      | _ \<Rightarrow> False)"
| "readCfgPersisted _ = False"

subsection \<open>Role, time\<close>

definition roleFromProfile :: "jval \<Rightarrow> string option" where
  "roleFromProfile op =
     (case jget op ''role'' of
        JStr s \<Rightarrow> (let r = map low_char s in
          if r = ''operator'' \<or> r = ''admin'' then Some r else Some ''viewer'')
      | _ \<Rightarrow> None)"

text \<open>\<open>Date.UTC\<close>: the day number of a proleptic Gregorian date; months past the year carry over
  and a two-digit year means the twentieth century.\<close>

definition day_from_year :: "int \<Rightarrow> int" where
  "day_from_year y = 365 * (y - 1970) + (y - 1969) div 4 - (y - 1901) div 100 + (y - 1601) div 400"

definition leap_year :: "int \<Rightarrow> bool" where
  "leap_year y \<longleftrightarrow> y mod 4 = 0 \<and> (y mod 100 \<noteq> 0 \<or> y mod 400 = 0)"

definition month_start :: "bool \<Rightarrow> nat \<Rightarrow> int" where
  "month_start leap mn =
     [0, 31, 59, 90, 120, 151, 181, 212, 243, 273, 304, 334] ! mn + (if leap \<and> mn \<ge> 2 then 1 else 0)"

definition date_utc :: "int \<Rightarrow> int \<Rightarrow> int \<Rightarrow> int \<Rightarrow> int \<Rightarrow> int \<Rightarrow> int" where
  "date_utc y0 mo d h mi s =
     (let y = (if 0 \<le> y0 \<and> y0 \<le> 99 then 1900 + y0 else y0);
          ym = y + mo div 12; mn = nat (mo mod 12)
      in (((day_from_year ym + month_start (leap_year ym) mn + d - 1) * 24 + h) * 60 + mi) * 60000 + s * 1000)"

definition field :: "string \<Rightarrow> nat \<Rightarrow> nat \<Rightarrow> int" where
  "field s a n = int (dec_val (take n (drop a s)))"

text \<open>The pattern \<open>dddd-dd-dd[ T]dd:dd:dd\<close> at the start of a string.\<close>

definition is_datetime :: "string \<Rightarrow> bool" where
  "is_datetime s \<longleftrightarrow> 19 \<le> length s \<and>
     list_all (\<lambda>i. is_digit (s ! i)) [0, 1, 2, 3, 5, 6, 8, 9, 11, 12, 14, 15, 17, 18] \<and>
     s ! 4 = CHR ''-'' \<and> s ! 7 = CHR ''-'' \<and> (s ! 10 = CHR '' '' \<or> s ! 10 = CHR ''T'') \<and>
     s ! 13 = CHR '':'' \<and> s ! 16 = CHR '':''"

definition parseReportedAt :: "(string \<Rightarrow> real option) \<Rightarrow> jval \<Rightarrow> real option" where
  "parseReportedAt dateParse v =
     (if \<not> truthy v then None
      else case v of
          JNum r \<Rightarrow> Some (if r > 100000000000 then r else r * 1000)
        | _ \<Rightarrow> (let s = js_String v in
            if is_datetime s
            then Some (of_int (date_utc (field s 0 4) (field s 5 2 - 1) (field s 8 2) (field s 11 2) (field s 14 2) (field s 17 2)))
            else dateParse s))"

definition fmtAge :: "real \<Rightarrow> string" where
  "fmtAge ms =
     (let s = js_round (ms / 1000) in
      if s < 90 then int_str s @ ''s''
      else if s < 5400 then int_str (js_round (of_int s / 60)) @ ''m''
      else int_str (js_round (of_int s / 3600)) @ ''h'')"

subsection \<open>Packing round trips\<close>

lemma packScreenEn_val:
  assumes "0 \<le> i" "i < 2 ^ 28"
  shows "packScreenEn i b = i * 2 + (if b then 1 else 0)"
proof -
  have "shl32 i 1 OR (if b then 1 else 0) = word_of_int (i * 2 + (if b then 1 else 0))"
    using pack_small [OF assms(1), of "if b then 1 else 0" 1] by (auto simp: shl32_def)
  then show ?thesis using assms sint_small [of "i * 2 + (if b then 1 else 0)"] by (simp add: packScreenEn_def)
qed

lemma packScreenWt_val:
  assumes "0 \<le> i" "i < 2 ^ 28"
  shows "packScreenWt i c = i * 8 + c mod 8"
proof -
  have "(word_of_int c AND 7 :: 32 word) = word_of_int (c mod 8)"
    using and_mask_small [of c 3] by (simp add: mask_eq_exp_minus_1)
  then have "shl32 i 3 OR (word_of_int c AND 7) = word_of_int (i * 8 + c mod 8)"
    using pack_small [OF assms(1), of "c mod 8" 3] by (simp add: shl32_def)
  then show ?thesis using assms sint_small [of "i * 8 + c mod 8"] by (simp add: packScreenWt_def)
qed

lemma shr32_val: "0 \<le> x \<Longrightarrow> x < 2 ^ 31 \<Longrightarrow> shr32 x n = x div 2 ^ n"
  using sint_small(1) [of "x div 2 ^ n"] div_le_dividend
  by (simp add: shr32_def shr_small pos_imp_zdiv_nonneg_iff int_div_less_self)
    (smt (verit) div_by_1 int_one_le_iff_zero_less zdiv_mono2 zero_less_power)

text \<open>The two argument packings lose nothing: the screen index, the enable bit and the
  weight code are read back from the packed argument by the shifts the page uses for its keys.\<close>

theorem pack_round_trip:
  assumes "0 \<le> idx" "idx < 2 ^ 28" "0 \<le> code" "code < 8"
  shows "shr32 (packScreenEn idx b) 1 = idx \<and> (packScreenEn idx b mod 2 = 1 \<longleftrightarrow> b) \<and>
    shr32 (packScreenWt idx code) 3 = idx \<and> packScreenWt idx code mod 8 = code"
  using assms by (auto simp: packScreenEn_val packScreenWt_val shr32_val)

theorem pack_round_trip_witness:
  "shr32 (packScreenEn 11 True) 1 = 11 \<and> shr32 (packScreenWt 11 5) 3 = 11 \<and> packScreenWt 11 5 mod 8 = 5"
  using pack_round_trip [of 11 5 True] by simp

lemma cmdGroup_screen:
  assumes "0 \<le> i" "i < 2 ^ 28"
  shows "cmdGroup 8 (packScreenEn i b) = Some (''screenEn:'' @ int_str i)"
    "cmdGroup 9 (packScreenWt i c) = Some (''screenWt:'' @ int_str i)"
  using assms by (auto simp: cmdGroup_def packScreenEn_val packScreenWt_val shr32_val)

text \<open>A pending-command key names one control: two per-screen commands share a key
  exactly when they are of the same kind and address the same screen, and none shares a key with
  a global control.\<close>

theorem cmd_keys_distinct:
  assumes "0 \<le> i" "i < 2 ^ 28" "0 \<le> j" "j < 2 ^ 28"
  shows "(cmdGroup 8 (packScreenEn i b) = cmdGroup 8 (packScreenEn j b') \<longleftrightarrow> i = j) \<and>
    (cmdGroup 9 (packScreenWt i c) = cmdGroup 9 (packScreenWt j c') \<longleftrightarrow> i = j) \<and>
    cmdGroup 8 (packScreenEn i b) \<noteq> cmdGroup 9 (packScreenWt j c) \<and>
    (\<forall>k a. k \<noteq> 8 \<and> k \<noteq> 9 \<longrightarrow> cmdGroup k a \<noteq> cmdGroup 8 (packScreenEn i b) \<and>
       cmdGroup k a \<noteq> cmdGroup 9 (packScreenWt i c))"
proof -
  have mem: "cmdGroup k a \<in> {None, Some ''theme'', Some ''screen'', Some ''brightness'', Some ''ack'',
      Some ''dwell'', Some ''sleep''}" if "k \<noteq> 8" "k \<noteq> 9" for k a
    using that by (simp add: cmdGroup_def CMD_GROUP_def)
  have "cmdGroup k a \<noteq> Some (''screenEn:'' @ t) \<and> cmdGroup k a \<noteq> Some (''screenWt:'' @ t)"
    if "k \<noteq> 8" "k \<noteq> 9" for k a t
    using mem [OF that, of a] by (elim insertE) simp_all
  moreover have "int_str i = int_str j \<longleftrightarrow> i = j" using int_str_inj by blast
  ultimately show ?thesis using assms by (simp add: cmdGroup_screen)
qed

theorem cmd_keys_distinct_witness:
  "cmdGroup 8 (packScreenEn 1 True) \<noteq> cmdGroup 8 (packScreenEn 6 True) \<and>
   cmdGroup 8 (packScreenEn 1 True) \<noteq> cmdGroup 9 (packScreenWt 6 2)"
  using cmd_keys_distinct [of 1 6 True True 2 2] by simp

subsection \<open>Decoding the report\<close>

lemma decode_byte_val:
  assumes "v < 256"
  shows "decode_byte (Fin (real v)) =
    (if v div 2 mod 8 > 5 then None else Some \<lparr> sc_enabled = odd v, sc_weightCode = int (v div 2 mod 8) \<rparr>)"
proof -
  have w: "to_int32 (real v) = word_of_int (int v)" by (simp add: to_int32_def)
  have "signed_drop_bit 1 (word_of_int (int v) :: 32 word) AND 7 = word_of_int (int (v div 2 mod 8))"
    using shr_small [of "int v" 1] and_mask_small [of "int v div 2" 3] assms
    by (simp add: mask_eq_exp_minus_1 zdiv_int zmod_int)
  moreover have "sint (word_of_int (int (v div 2 mod 8)) :: 32 word) = int (v div 2 mod 8)"
    by (rule sint_small) auto
  ultimately have code: "sint (signed_drop_bit 1 (to_int32 (real v)) AND 7) = int (v div 2 mod 8)"
    by (simp only: w)
  have en: "to_int32 (real v) AND 1 = 1 \<longleftrightarrow> odd v" by (simp add: w and_one_eq mod_2_eq_odd)
  have "\<not> (real v < 0 \<or> real v > 255 \<or> \<not> whole (real v))" using assms by (simp add: whole_def)
  then show ?thesis by (simp only: decode_byte_def jnum.case if_False Let_def code en) simp
qed

text \<open>A reported byte decodes as the contract lays it out: bit 0 is the enable flag,
  bits 1 to 3 the weight code, bits 4 to 7 are ignored and the reserved codes 6 and 7 read as
  unknown.\<close>

theorem decodeScreenByte_layout:
  assumes "v < 256"
  shows "decodeScreenByte (JNum (real v)) =
    (if v div 2 mod 8 \<ge> 6 then None
     else Some \<lparr> sc_enabled = odd v, sc_weightCode = int (v div 2 mod 8) \<rparr>)"
  using decode_byte_val [OF assms] by (simp add: decodeScreenByte_def)

theorem decodeScreenByte_layout_witness:
  "decodeScreenByte (JNum (real 0xF5)) = Some \<lparr> sc_enabled = True, sc_weightCode = 2 \<rparr> \<and>
   decodeScreenByte (JNum (real 0x0C)) = None"
  using decodeScreenByte_layout [of "0xF5"] decodeScreenByte_layout [of "0x0C"] by simp

definition cfg_valid :: "scfg option \<Rightarrow> bool" where
  "cfg_valid c = (case c of None \<Rightarrow> True | Some k \<Rightarrow> 0 \<le> sc_weightCode k \<and> sc_weightCode k \<le> 5)"

lemma decode_byte_valid: "cfg_valid (decode_byte b)"
proof (cases b)
  case (Fin v)
  show ?thesis
  proof (cases "v < 0 \<or> v > 255 \<or> \<not> whole v")
    case False
    then have "v = real (nat \<lfloor>v\<rfloor>)" "nat \<lfloor>v\<rfloor> < 256" by (auto simp: whole_def)
    then show ?thesis
      using decode_byte_val [of "nat \<lfloor>v\<rfloor>"] Fin by (auto simp: cfg_valid_def)
  qed (auto simp: Fin decode_byte_def cfg_valid_def)
qed (auto simp: decode_byte_def cfg_valid_def)

lemma decodeScreenEntry_valid: "cfg_valid (decodeScreenEntry e)"
proof -
  have "cfg_valid (decode_object e')" for e'
    by (auto simp: decode_object_def cfg_valid_def floor_le_iff split: jnum.splits jval.splits)
  then show ?thesis
    using decode_byte_valid by (cases e) (auto simp: decodeScreenByte_def cfg_valid_def)
qed

lemma read_src_valid: "read_src v = Some r \<Longrightarrow> length r = 16 \<and> list_all cfg_valid r"
  using decode_byte_valid decodeScreenEntry_valid
  by (cases v) (auto simp: read_hex_def Let_def list_all_iff default_cfg_def cfg_valid_def split: if_splits)

lemma read_cfg_valid: "readScreenCfg raw = Some r \<Longrightarrow> length r = 16 \<and> list_all cfg_valid r"
proof -
  assume r: "readScreenCfg raw = Some r"
  have "\<exists>v. readScreenCfg raw = read_src v"
    by (cases raw) (simp_all del: read_src.simps, blast+)
  with r show ?thesis using read_src_valid by metis
qed

lemma read_cfg_length: "readScreenCfg raw = Some r \<Longrightarrow> length r = 16"
  by (simp add: read_cfg_valid)

text \<open>Whatever the payload holds, a configuration that is read has sixteen entries, and
  each entry is unknown or has one of the six weight codes that have a label.\<close>

theorem readScreenCfg_shape:
  assumes "readScreenCfg raw = Some r"
  shows "length r = N_SCREENS \<and>
    list_all (\<lambda>c. case c of None \<Rightarrow> True | Some k \<Rightarrow> weightLabel (sc_weightCode k) \<noteq> None) r"
proof -
  note read_cfg_valid [OF assms]
  moreover have "weightLabel (sc_weightCode k) \<noteq> None" if "cfg_valid (Some k)" for k
  proof -
    have "sc_weightCode k \<in> {0, 1, 2, 3, 4, 5}" using that by (auto simp: cfg_valid_def)
    then show ?thesis by (elim insertE) (simp_all add: weightLabel_def WEIGHTS_def)
  qed
  ultimately show ?thesis by (auto simp: list_all_iff split: option.split)
qed

theorem readScreenCfg_shape_witness:
  "\<exists>r. readScreenCfg (JArr (replicate 12 (JNum 5))) = Some r \<and> length r = N_SCREENS"
proof -
  obtain r where "readScreenCfg (JArr (replicate 12 (JNum 5))) = Some r" by simp
  with readScreenCfg_shape [OF this] show ?thesis by blast
qed

subsection \<open>The two forms of the report\<close>

definition hex_digit :: "nat \<Rightarrow> char" where
  "hex_digit d = char_of (if d < 10 then 48 + d else 87 + d)"

definition hex_bytes :: "nat list \<Rightarrow> string" where
  "hex_bytes bs = concat (map (\<lambda>b. [hex_digit (b div 16), hex_digit (b mod 16)]) bs)"

lemma of_hex_digit: "d < 16 \<Longrightarrow> (of_char (hex_digit d) :: nat) = (if d < 10 then 48 + d else 87 + d)"
  unfolding hex_digit_def of_char_of by simp

lemma hex_val_digit: "d < 16 \<Longrightarrow> hex_val (hex_digit d) = Some d"
  by (simp add: hex_val_def of_hex_digit Let_def)

lemma hex_digit_no_space: "d < 16 \<Longrightarrow> \<not> is_space (hex_digit d)"
  using of_hex_digit [of d] by (auto simp: is_space_def split: if_splits)

lemma length_hex_bytes: "length (hex_bytes bs) = 2 * length bs"
  by (induction bs) (auto simp: hex_bytes_def)

lemma hex_bytes_nth:
  "i < length bs \<Longrightarrow> hex_bytes bs ! (2 * i) = hex_digit (bs ! i div 16) \<and>
     hex_bytes bs ! (2 * i + 1) = hex_digit (bs ! i mod 16)"
proof (induction bs arbitrary: i)
  case (Cons b bs)
  then show ?case by (cases i) (auto simp: hex_bytes_def)
qed simp

lemma js_trim_id:
  assumes "list_all (\<lambda>c. \<not> is_space c) s"
  shows "js_trim s = s"
proof -
  have id: "dropWhile is_space t = t" if "set t \<subseteq> set s" for t
    using that assms by (cases t) (auto simp: list_all_iff)
  show ?thesis using id [of s] id [of "rev s"] by (simp add: js_trim_def)
qed

lemma set_hex_bytes:
  assumes "list_all (\<lambda>b. b < 256) bs" "c \<in> set (hex_bytes bs)"
  shows "\<exists>d < 16. c = hex_digit d"
proof -
  obtain b where "b \<in> set bs" and c: "c = hex_digit (b div 16) \<or> c = hex_digit (b mod 16)"
    using assms(2) by (auto simp: hex_bytes_def)
  then have "b div 16 < 16" "b mod 16 < 16" using assms(1) by (auto simp: list_all_iff)
  with c show ?thesis by blast
qed

text \<open>The hexadecimal report and the list of bytes are the same report: twelve or
  sixteen bytes decode alike in both forms.\<close>

theorem hex_report_same:
  assumes "length bs = 12 \<or> length bs = N_SCREENS" "list_all (\<lambda>b. b < 256) bs"
  shows "readScreenCfg (JStr (hex_bytes bs)) = readScreenCfg (JArr (map (\<lambda>b. JNum (real b)) bs))"
proof -
  have hex: "\<not> is_space c \<and> is_hex c" if "c \<in> set (hex_bytes bs)" for c
    using set_hex_bytes [OF assms(2) that] hex_digit_no_space hex_val_digit by (auto simp: is_hex_def)
  have trim: "js_trim (hex_bytes bs) = hex_bytes bs" "list_all is_hex (hex_bytes bs)"
    using hex js_trim_id by (auto simp: list_all_iff)
  have pair: "hex_pair (hex_bytes bs) i = Fin (real (bs ! i))" if "i < length bs" for i
  proof -
    have "bs ! i < 256" using assms(2) that by (simp add: list_all_length)
    then have "bs ! i div 16 < 16" "bs ! i mod 16 < 16" by auto
    then show ?thesis
      using hex_bytes_nth [OF that] by (simp add: hex_pair_def hex_val_digit)
  qed
  have "decode_byte (hex_pair (hex_bytes bs) i) = decodeScreenEntry (JNum (real (bs ! i)))" if "i < length bs" for i
    using pair [OF that] by (simp add: decodeScreenByte_def)
  then show ?thesis
    using assms(1) trim by (auto simp: read_hex_def length_hex_bytes)
qed

theorem hex_report_same_witness:
  "readScreenCfg (JStr (hex_bytes (replicate 12 7))) =
   readScreenCfg (JArr (map (\<lambda>b. JNum (real b)) (replicate 12 7)))"
  using hex_report_same [of "replicate 12 7"] by (simp add: list_all_iff)

end
