(* ===== verification/PanelCmd.thy ===== *)
theory PanelCmd
  imports PanelCfg
begin

section \<open>The command lifecycle\<close>

text \<open>
  The pending commands of the panel page (\<open>send\<close> and \<open>reconcile\<close> of \<open>PanelScreen\<close> in
  \<^verbatim>\<open>screens-panel.jsx\<close>): every control has at most one entry, keyed by \<open>cmdGroup\<close>.  A click makes
  an entry and a request; the request settles, or its 12 s timer gives up; every poll reconciles
  the entries with the server's recent commands.

  The page state has the entries twice: \<open>pg_pend\<close> is the state variable with all queued
  updates, \<open>pg_ref\<close> is what the last render saw (\<open>pendRef.current\<close>).  The updates of a click are rendered
  before the next task, so a click changes both; those of promises and timers are rendered by a later step.
  \<open>reconcile\<close> computes from \<open>pg_ref\<close> and replaces \<open>pg_pend\<close>.  The step relation has one rule per
  event; its flag \<open>strict\<close> restricts reconciling to moments with no queued update, where the two agree.
\<close>

datatype cmd_status = Sending | Pending | Applied | Failed

record pend_entry =
  pe_kind :: int
  pe_arg :: int
  pe_status :: cmd_status
  pe_at :: int
  pe_cmdId :: "jnum option"
  pe_reason :: jval

type_synonym pend = "(string \<times> pend_entry) list"

definition mk_entry :: "int \<Rightarrow> int \<Rightarrow> cmd_status \<Rightarrow> int \<Rightarrow> pend_entry" where
  "mk_entry kind arg st now =
     \<lparr> pe_kind = kind, pe_arg = arg, pe_status = st, pe_at = now, pe_cmdId = None, pe_reason = JUndef \<rparr>"

definition cmd_key :: "int \<Rightarrow> int \<Rightarrow> string" where
  "cmd_key kind arg = (case cmdGroup kind arg of Some k \<Rightarrow> k | None \<Rightarrow> ''undefined'')"

subsection \<open>send\<close>

text \<open>One click's attempt; the stamp is the time of the click.\<close>

record attempt =
  at_key :: string
  at_kind :: int
  at_arg :: int
  at_stamp :: int

definition mk_attempt :: "int \<Rightarrow> int \<Rightarrow> int \<Rightarrow> attempt" where
  "mk_attempt kind arg now =
     \<lparr> at_key = cmd_key kind arg, at_kind = kind, at_arg = arg, at_stamp = now \<rparr>"

definition send_start :: "attempt \<Rightarrow> pend \<Rightarrow> pend" where
  "send_start a p = put (at_key a) (mk_entry (at_kind a) (at_arg a) Sending (at_stamp a)) p"

definition send_no_api :: "attempt \<Rightarrow> pend \<Rightarrow> pend" where
  "send_no_api a p =
     put (at_key a) ((mk_entry (at_kind a) (at_arg a) Failed (at_stamp a))
       \<lparr>pe_reason := JStr ''the dashboard API client is unavailable''\<rparr>) (send_start a p)"

definition giveUp :: "attempt \<Rightarrow> pend \<Rightarrow> pend" where
  "giveUp a p = (case map_of p (at_key a) of
       None \<Rightarrow> p
     | Some cur \<Rightarrow>
         if pe_status cur \<noteq> Sending \<or> pe_at cur \<noteq> at_stamp a then p
         else put (at_key a) (cur\<lparr>pe_status := Failed,
           pe_reason := JStr ''no response after 12 s (connection may have dropped) - try again''\<rparr>) p)"

definition superseded :: "attempt \<Rightarrow> pend \<Rightarrow> bool" where
  "superseded a p = (case map_of p (at_key a) of None \<Rightarrow> False | Some cur \<Rightarrow> pe_at cur \<noteq> at_stamp a)"

definition settle_ok :: "attempt \<Rightarrow> jval \<Rightarrow> pend \<Rightarrow> pend" where
  "settle_ok a d p =
     (if superseded a p then p
      else put (at_key a) ((mk_entry (at_kind a) (at_arg a) Pending (at_stamp a))
        \<lparr>pe_cmdId := Some (js_Number (if truthy d then jget d ''cmdId'' else d))\<rparr>) p)"

definition settle_err :: "attempt \<Rightarrow> string \<Rightarrow> pend \<Rightarrow> pend" where
  "settle_err a msg p =
     (if superseded a p then p
      else put (at_key a) ((mk_entry (at_kind a) (at_arg a) Failed (at_stamp a))
        \<lparr>pe_reason := JStr (if msg = [] then ''the request was rejected'' else msg)\<rparr>) p)"

subsection \<open>reconcile\<close>

definition same_num :: "jnum \<Rightarrow> jnum \<Rightarrow> bool" where
  "same_num a b \<longleftrightarrow> a = b \<and> a \<noteq> NaN"

text \<open>The loop over the rows; \<open>None\<close> is the exception of reading the id of a null row.\<close>

fun find_row :: "jval list \<Rightarrow> jnum \<Rightarrow> jval option option" where
  "find_row [] i = Some None"
| "find_row (r # rs) i =
     (if nullish r then None else if same_num (js_Number (jget r ''id'')) i then Some (Some r) else find_row rs i)"

definition fail_entry :: "jval \<Rightarrow> pend_entry \<Rightarrow> pend_entry" where
  "fail_entry reason p = p\<lparr>pe_status := Failed, pe_reason := reason\<rparr>"

definition row_of :: "jval list option \<Rightarrow> pend_entry \<Rightarrow> jval option option" where
  "row_of rows p = (case (rows, pe_cmdId p) of (Some rs, Some i) \<Rightarrow> find_row rs i | _ \<Rightarrow> Some None)"

definition row_status :: "jval option \<Rightarrow> string \<Rightarrow> bool" where
  "row_status row s = (case row of Some r \<Rightarrow> jget r ''status'' = JStr s | None \<Rightarrow> False)"

text \<open>One entry; the flag says that it changed, and \<open>None\<close> is the exception.\<close>

definition reconcile_entry :: "jval list option \<Rightarrow> int \<Rightarrow> pend_entry \<Rightarrow> (pend_entry \<times> bool) option" where
  "reconcile_entry rows tNow p =
     (case pe_status p of
        Sending \<Rightarrow> Some
          (if tNow - pe_at p > 15000
           then (fail_entry (JStr ''the request never completed (connection dropped mid-request) - try again'') p, True)
           else (p, False))
      | Pending \<Rightarrow> map_option (\<lambda>row.
           if row_status row ''applied'' then (p\<lparr>pe_status := Applied\<rparr>, True)
           else if row_status row ''expired''
           then (fail_entry (jor (jget (the row) ''failureReason'')
                  (JStr ''expired after 120 s without the panel collecting it (panel offline, or the daemon is not polling)'')) p, True)
           else if tNow - pe_at p > CMD_GIVEUP_MS
           then (fail_entry (JStr ''no confirmation from the panel within 130 s'') p, True)
           else (p, False)) (row_of rows p)
      | _ \<Rightarrow> Some (p, False))"

datatype reconciled = Threw | Unchanged | Install pend

definition reconcile :: "jval \<Rightarrow> int \<Rightarrow> pend \<Rightarrow> reconciled" where
  "reconcile recent tNow prev =
     (let rows = (if is_arr recent then Some (jarr recent) else None);
          outs = map (\<lambda>(k, p). (k, reconcile_entry rows tNow p)) prev in
      if list_ex (\<lambda>(k, r). r = None) outs then Threw
      else if list_ex (\<lambda>(k, r). snd (the r)) outs then Install (map (\<lambda>(k, r). (k, fst (the r))) outs)
      else Unchanged)"

text \<open>The entries after a poll: only an installed result replaces them.\<close>

definition after_poll :: "jval \<Rightarrow> int \<Rightarrow> pend \<Rightarrow> pend" where
  "after_poll recent tNow prev = (case reconcile recent tNow prev of Install nxt \<Rightarrow> nxt | _ \<Rightarrow> prev)"

subsection \<open>The page's events\<close>

record page =
  pg_pend :: pend
  pg_ref :: pend
  pg_now :: int
  pg_open :: "attempt list"

definition page_init :: "int \<Rightarrow> page" where
  "page_init t = \<lparr> pg_pend = [], pg_ref = [], pg_now = t, pg_open = [] \<rparr>"

text \<open>A click on a control comes later than the control's previous click.\<close>

definition fresh_click :: "page \<Rightarrow> string \<Rightarrow> bool" where
  "fresh_click s k \<longleftrightarrow> (case map_of (pg_pend s) k of None \<Rightarrow> True | Some e \<Rightarrow> pe_at e < pg_now s) \<and>
     list_all (\<lambda>a. at_key a = k \<longrightarrow> at_stamp a < pg_now s) (pg_open s)"

inductive page_step :: "bool \<Rightarrow> page \<Rightarrow> page \<Rightarrow> bool" for strict where
  click: "a = mk_attempt kind arg (pg_now s) \<Longrightarrow> fresh_click s (at_key a) \<Longrightarrow>
    page_step strict s (s\<lparr>pg_pend := send_start a (pg_pend s), pg_open := a # pg_open s, pg_ref := send_start a (pg_ref s)\<rparr>)"
| click_no_api: "a = mk_attempt kind arg (pg_now s) \<Longrightarrow> fresh_click s (at_key a) \<Longrightarrow>
    page_step strict s (s\<lparr>pg_pend := send_no_api a (pg_pend s), pg_ref := send_no_api a (pg_ref s)\<rparr>)"
| timeout: "a \<in> set (pg_open s) \<Longrightarrow> page_step strict s (s\<lparr>pg_pend := giveUp a (pg_pend s)\<rparr>)"
| accepted: "a \<in> set (pg_open s) \<Longrightarrow>
    page_step strict s (s\<lparr>pg_pend := settle_ok a d (pg_pend s), pg_open := removeAll a (pg_open s)\<rparr>)"
| rejected: "a \<in> set (pg_open s) \<Longrightarrow>
    page_step strict s (s\<lparr>pg_pend := settle_err a msg (pg_pend s), pg_open := removeAll a (pg_open s)\<rparr>)"
| render: "page_step strict s (s\<lparr>pg_ref := pg_pend s\<rparr>)"
| clock: "pg_now s \<le> t \<Longrightarrow> page_step strict s (s\<lparr>pg_now := t\<rparr>)"
| poll: "(strict \<Longrightarrow> pg_ref s = pg_pend s) \<Longrightarrow> reconcile recent (pg_now s) (pg_ref s) = Install nxt \<Longrightarrow>
    page_step strict s (s\<lparr>pg_pend := nxt\<rparr>)"

inductive page_reach :: "bool \<Rightarrow> page \<Rightarrow> bool" for strict where
  start: "page_reach strict (page_init t)"
| step: "page_reach strict s \<Longrightarrow> page_step strict s s' \<Longrightarrow> page_reach strict s'"

subsection \<open>Reconciling one entry\<close>

definition busy :: "pend_entry \<Rightarrow> bool" where
  "busy p \<longleftrightarrow> pe_status p = Sending \<or> pe_status p = Pending"

lemma reconcile_entry_same:
  assumes "reconcile_entry rows t p = Some (q, c)"
  shows "pe_at q = pe_at p" "pe_cmdId q = pe_cmdId p" "\<not> c \<Longrightarrow> q = p"
  using assms by (auto simp: reconcile_entry_def fail_entry_def split: cmd_status.splits if_splits)

lemma reconcile_entry_waits:
  assumes "reconcile_entry rows t p = Some (q, c)" "busy q"
  shows "q = p \<and> (pe_status p = Sending \<and> t - pe_at p \<le> 15000 \<or> pe_status p = Pending \<and> t - pe_at p \<le> 130000)"
  using assms by (auto simp: reconcile_entry_def busy_def fail_entry_def CMD_GIVEUP_MS_def split: cmd_status.splits if_splits)

lemma map_of_install:
  assumes "reconcile recent t prev = Install nxt"
  shows "map_of nxt k = map_option
    (\<lambda>p. fst (the (reconcile_entry (if is_arr recent then Some (jarr recent) else None) t p))) (map_of prev k)"
    "map_of prev k = Some p \<Longrightarrow> reconcile_entry (if is_arr recent then Some (jarr recent) else None) t p \<noteq> None"
proof -
  let ?r = "reconcile_entry (if is_arr recent then Some (jarr recent) else None) t"
  have ok: "\<forall>(k, p)\<in>set prev. ?r p \<noteq> None" and n: "nxt = map (\<lambda>(k, p). (k, fst (the (?r p)))) prev"
    using assms by (auto simp: reconcile_def Let_def list_ex_iff comp_def case_prod_beta split: if_splits)
  show "map_of nxt k = map_option (\<lambda>p. fst (the (?r p))) (map_of prev k)" by (simp add: n map_of_map_snd)
  show "map_of prev k = Some p \<Longrightarrow> ?r p \<noteq> None" using ok map_of_SomeD by fastforce
qed

lemma map_of_unchanged:
  assumes "reconcile recent t prev = Unchanged" "map_of prev k = Some p"
  shows "reconcile_entry (if is_arr recent then Some (jarr recent) else None) t p = Some (p, False)"
proof -
  let ?r = "reconcile_entry (if is_arr recent then Some (jarr recent) else None) t"
  have "?r p \<noteq> None \<and> \<not> snd (the (?r p))"
    using assms(1) map_of_SomeD [OF assms(2)] by (auto simp: reconcile_def Let_def list_ex_iff comp_def case_prod_beta split: if_splits)
  then obtain q where "?r p = Some (q, False)" by (cases "?r p") auto
  then show ?thesis using reconcile_entry_same(3) by blast
qed

lemma find_row_total: "list_all (\<lambda>r. \<not> nullish r) rs \<Longrightarrow> find_row rs i \<noteq> None"
  by (induction rs) auto

lemma reconcile_total:
  assumes "list_all (\<lambda>r. \<not> nullish r) (jarr recent)"
  shows "reconcile recent t prev \<noteq> Threw"
proof -
  have "row_of (if is_arr recent then Some (jarr recent) else None) p \<noteq> None" for p
    using find_row_total [OF assms] by (auto simp: row_of_def split: option.splits)
  then have "reconcile_entry (if is_arr recent then Some (jarr recent) else None) t p \<noteq> None" for p
    by (cases "pe_status p") (simp_all add: reconcile_entry_def)
  then show ?thesis by (auto simp: reconcile_def Let_def list_ex_iff)
qed

lemma map_of_after_poll:
  assumes "reconcile recent t prev \<noteq> Threw" "map_of (after_poll recent t prev) k = Some q"
  shows "\<exists>p c. map_of prev k = Some p \<and> reconcile_entry (if is_arr recent then Some (jarr recent) else None) t p = Some (q, c)"
proof (cases "reconcile recent t prev")
  case Unchanged
  then show ?thesis using assms(2) map_of_unchanged by (auto simp: after_poll_def)
next
  case (Install nxt)
  then obtain p where p: "map_of prev k = Some p" "q = fst (the (reconcile_entry (if is_arr recent then Some (jarr recent) else None) t p))"
    using assms(2) map_of_install(1) [OF Install, of k] by (auto simp: after_poll_def)
  then show ?thesis using map_of_install(2) [OF Install p(1)] by (auto simp: p(1))
qed (use assms(1) in simp)

text \<open>Property C19. No spinner is eternal: a poll at time \<open>t\<close> whose recent commands have no null row reconciles every
  control's entry without an exception, loses none of them, and leaves on the page only entries that are applied,
  failed, a request of at most 15 s or a queued command of at most 130 s.\<close>

theorem reconcile_bounds_waiting:
  assumes "list_all (\<lambda>r. \<not> nullish r) (jarr recent)"
  shows "reconcile recent t prev \<noteq> Threw \<and> map fst (after_poll recent t prev) = map fst prev \<and>
    (\<forall>k e. map_of (after_poll recent t prev) k = Some e \<longrightarrow> pe_status e = Applied \<or> pe_status e = Failed \<or>
       (pe_status e = Sending \<and> t - pe_at e \<le> 15000) \<or> (pe_status e = Pending \<and> t - pe_at e \<le> 130000))"
proof (intro conjI allI impI)
  show r: "reconcile recent t prev \<noteq> Threw" by (rule reconcile_total [OF assms])
  show "map fst (after_poll recent t prev) = map fst prev"
    by (auto simp: after_poll_def reconcile_def Let_def comp_def case_prod_beta)
  fix k e assume "map_of (after_poll recent t prev) k = Some e"
  then obtain p c where "reconcile_entry (if is_arr recent then Some (jarr recent) else None) t p = Some (e, c)"
    using map_of_after_poll [OF r] by blast
  from reconcile_entry_waits [OF this]
  show "pe_status e = Applied \<or> pe_status e = Failed \<or>
       (pe_status e = Sending \<and> t - pe_at e \<le> 15000) \<or> (pe_status e = Pending \<and> t - pe_at e \<le> 130000)"
    by (cases "pe_status e") (auto simp: busy_def)
qed

theorem reconcile_bounds_waiting_witness:
  "pe_status (the (map_of (after_poll (JArr []) 20000 [(''theme'', mk_entry 1 2 Sending 1000)]) ''theme'')) \<noteq> Sending"
proof -
  let ?prev = "[(''theme'', mk_entry 1 2 Sending 1000)]"
  have "list_all (\<lambda>r. \<not> nullish r) (jarr (JArr []))" by simp
  note w = reconcile_bounds_waiting [OF this, of 20000 ?prev]
  then have "map fst (after_poll (JArr []) 20000 ?prev) = [''theme'']" by simp
  then obtain e where e: "after_poll (JArr []) 20000 ?prev = [(''theme'', e)]" by auto
  have "pe_at e = 1000"
    using map_of_after_poll [of "JArr []" 20000 ?prev "''theme''" e] w e reconcile_entry_same(1) by (auto simp: mk_entry_def)
  moreover have "map_of (after_poll (JArr []) 20000 ?prev) ''theme'' = Some e" by (simp add: e)
  ultimately show ?thesis using w by fastforce
qed

lemma find_row_SomeD: "find_row rs i = Some (Some r) \<Longrightarrow> r \<in> set rs \<and> js_Number (jget r ''id'') = i"
  by (induction rs) (auto simp: same_num_def split: if_splits)

lemma applied_needs_row:
  assumes "reconcile_entry rows t p = Some (q, c)" "pe_status q = Applied" "pe_status p \<noteq> Applied"
  shows "pe_status p = Pending \<and> (\<exists>rs i r. rows = Some rs \<and> pe_cmdId p = Some i \<and> r \<in> set rs \<and>
    js_Number (jget r ''id'') = i \<and> jget r ''status'' = JStr ''applied'')"
proof -
  obtain row where p: "pe_status p = Pending" and row: "row_of rows p = Some row" and st: "row_status row ''applied''"
    using assms by (auto simp: reconcile_entry_def fail_entry_def split: cmd_status.splits if_splits)
  then obtain r where r: "row = Some r" "jget r ''status'' = JStr ''applied''"
    by (auto simp: row_status_def split: option.splits)
  then obtain rs i where "rows = Some rs" "pe_cmdId p = Some i" "find_row rs i = Some (Some r)"
    using row by (auto simp: row_of_def split: option.splits)
  with p r show ?thesis using find_row_SomeD by blast
qed

subsection \<open>Attempts never overwrite newer ones\<close>

definition page_inv :: "page \<Rightarrow> bool" where
  "page_inv s \<longleftrightarrow>
     (\<forall>a \<in> set (pg_open s). \<exists>e. map_of (pg_pend s) (at_key a) = Some e \<and> at_stamp a \<le> pe_at e \<and>
        (pe_status e = Pending \<or> pe_status e = Applied \<longrightarrow> at_stamp a < pe_at e)) \<and>
     (\<forall>k e. map_of (pg_pend s) k = Some e \<longrightarrow> pe_at e \<le> pg_now s) \<and>
     (\<forall>a \<in> set (pg_open s). \<forall>b \<in> set (pg_open s). at_key a = at_key b \<longrightarrow> at_stamp a = at_stamp b \<longrightarrow> a = b)"

text \<open>How an entry may change in one step: a newer attempt takes the control, or the same attempt
  moves on; applied is final and pending does not go back to sending.\<close>

definition moves_on :: "pend_entry \<Rightarrow> pend_entry \<Rightarrow> bool" where
  "moves_on e e' \<longleftrightarrow> pe_at e < pe_at e' \<or>
     (pe_at e' = pe_at e \<and> (pe_status e = Applied \<longrightarrow> e' = e) \<and> (pe_status e = Pending \<longrightarrow> pe_status e' \<noteq> Sending))"

lemma moves_on_refl: "moves_on e e"
  by (auto simp: moves_on_def)

lemma superseded_iff: "map_of p (at_key a) = Some e \<Longrightarrow> superseded a p \<longleftrightarrow> pe_at e \<noteq> at_stamp a"
  by (simp add: superseded_def)

lemma map_of_settle:
  assumes "map_of p (at_key a) = Some e"
  shows "map_of (settle_ok a d p) k = (if k = at_key a \<and> pe_at e = at_stamp a
      then Some ((mk_entry (at_kind a) (at_arg a) Pending (at_stamp a))
        \<lparr>pe_cmdId := Some (js_Number (if truthy d then jget d ''cmdId'' else d))\<rparr>) else map_of p k)"
    "map_of (settle_err a msg p) k = (if k = at_key a \<and> pe_at e = at_stamp a
      then Some ((mk_entry (at_kind a) (at_arg a) Failed (at_stamp a))
        \<lparr>pe_reason := JStr (if msg = [] then ''the request was rejected'' else msg)\<rparr>) else map_of p k)"
    "map_of (giveUp a p) k = (if k = at_key a \<and> pe_at e = at_stamp a \<and> pe_status e = Sending
      then Some (e\<lparr>pe_status := Failed,
        pe_reason := JStr ''no response after 12 s (connection may have dropped) - try again''\<rparr>) else map_of p k)"
  using assms
  by (auto simp: settle_ok_def settle_err_def giveUp_def superseded_iff js_obj.look_upd)

lemma map_of_send:
  "map_of (send_start a p) k = (if k = at_key a
     then Some (mk_entry (at_kind a) (at_arg a) Sending (at_stamp a)) else map_of p k)"
  "map_of (send_no_api a p) k = (if k = at_key a
     then Some ((mk_entry (at_kind a) (at_arg a) Failed (at_stamp a))
       \<lparr>pe_reason := JStr ''the dashboard API client is unavailable''\<rparr>) else map_of p k)"
  by (simp_all add: send_start_def send_no_api_def js_obj.look_upd)

lemma mk_entry_sel [simp]:
  "pe_status (mk_entry kind arg st t) = st" "pe_at (mk_entry kind arg st t) = t"
  by (simp_all add: mk_entry_def)

lemma reconcile_entry_ends:
  "reconcile_entry rows t p = Some (q, c) \<Longrightarrow> q \<noteq> p \<Longrightarrow> busy p \<and> pe_status q \<in> {Applied, Failed}"
  by (cases "pe_status p") (auto simp: reconcile_entry_def fail_entry_def busy_def split: if_splits)

lemma reconcile_moves_on: "reconcile_entry rows t p = Some (q, c) \<Longrightarrow> moves_on p q"
  using reconcile_entry_ends [of rows t p q c] reconcile_entry_same(1) [of rows t p q c]
  by (cases "q = p") (auto simp: moves_on_def busy_def)

lemma install_entry:
  assumes "reconcile recent t prev = Install nxt" "map_of prev k = Some p"
  shows "\<exists>q c. map_of nxt k = Some q \<and> reconcile_entry (if is_arr recent then Some (jarr recent) else None) t p = Some (q, c)"
  using map_of_install [OF assms(1), of k] assms(2) by auto

lemma fresh_clickD:
  assumes "fresh_click s k"
  shows "map_of (pg_pend s) k = Some e \<Longrightarrow> pe_at e < pg_now s"
    "a \<in> set (pg_open s) \<Longrightarrow> at_key a = k \<Longrightarrow> at_stamp a < pg_now s"
  using assms by (auto simp: fresh_click_def list_all_iff)

lemma step_moves_on:
  assumes "page_step True s s'" "page_inv s" "map_of (pg_pend s) k = Some e"
  shows "\<exists>e'. map_of (pg_pend s') k = Some e' \<and> moves_on e e'"
  using assms(1)
proof (cases rule: page_step.cases)
  case (click a kind arg)
  then show ?thesis
    using assms(3) by (auto simp: map_of_send moves_on_def mk_attempt_def dest: fresh_clickD(1))
next
  case (click_no_api a kind arg)
  then show ?thesis
    using assms(3) by (auto simp: map_of_send moves_on_def mk_attempt_def dest: fresh_clickD(1))
next
  case (timeout a)
  then obtain c where "map_of (pg_pend s) (at_key a) = Some c"
    using assms(2) by (auto simp: page_inv_def)
  with timeout assms(3) show ?thesis by (auto simp: map_of_settle moves_on_def)
next
  case (accepted a d)
  then obtain c where "map_of (pg_pend s) (at_key a) = Some c" "at_stamp a \<le> pe_at c"
    "pe_status c = Pending \<or> pe_status c = Applied \<longrightarrow> at_stamp a < pe_at c"
    using assms(2) by (auto simp: page_inv_def)
  with accepted assms(3) show ?thesis by (auto simp: map_of_settle moves_on_def)
next
  case (rejected a msg)
  then obtain c where "map_of (pg_pend s) (at_key a) = Some c" "at_stamp a \<le> pe_at c"
    "pe_status c = Pending \<or> pe_status c = Applied \<longrightarrow> at_stamp a < pe_at c"
    using assms(2) by (auto simp: page_inv_def)
  with rejected assms(3) show ?thesis by (auto simp: map_of_settle moves_on_def)
next
  case (poll recent nxt)
  then have "reconcile recent (pg_now s) (pg_pend s) = Install nxt" "pg_pend s' = nxt" by auto
  then show ?thesis using install_entry [OF _ assms(3)] reconcile_moves_on by fastforce
qed (use assms(3) moves_on_refl in auto)

lemma page_inv_init: "page_inv (page_init t)"
  by (simp add: page_inv_def page_init_def)

lemma page_inv_mono:
  assumes "page_inv s" "pg_open s' = pg_open s" "pg_now s \<le> pg_now s'"
    and "\<And>k e. map_of (pg_pend s) k = Some e \<Longrightarrow> \<exists>e'. map_of (pg_pend s') k = Some e' \<and> pe_at e' = pe_at e \<and>
      (pe_status e' = Pending \<or> pe_status e' = Applied \<longrightarrow> pe_status e = Pending \<or> pe_status e = Applied)"
    and "\<And>k. map_of (pg_pend s) k = None \<Longrightarrow> map_of (pg_pend s') k = None"
  shows "page_inv s'"
  unfolding page_inv_def
proof (intro conjI ballI allI impI)
  fix a assume "a \<in> set (pg_open s')"
  then obtain e where e: "map_of (pg_pend s) (at_key a) = Some e" "at_stamp a \<le> pe_at e"
    "pe_status e = Pending \<or> pe_status e = Applied \<longrightarrow> at_stamp a < pe_at e"
    using assms(1,2) by (auto simp: page_inv_def)
  with assms(4) [OF e(1)] show "\<exists>e. map_of (pg_pend s') (at_key a) = Some e \<and> at_stamp a \<le> pe_at e \<and>
      (pe_status e = Pending \<or> pe_status e = Applied \<longrightarrow> at_stamp a < pe_at e)" by auto
next
  fix k e' assume e': "map_of (pg_pend s') k = Some e'"
  then obtain e where e: "map_of (pg_pend s) k = Some e"
    using assms(5) by (cases "map_of (pg_pend s) k") auto
  with assms(4) [OF e] e' assms(1,3) show "pe_at e' \<le> pg_now s'" by (fastforce simp: page_inv_def)
next
  fix a b assume "a \<in> set (pg_open s')" "b \<in> set (pg_open s')" "at_key a = at_key b" "at_stamp a = at_stamp b"
  then show "a = b" using assms(1,2) by (simp add: page_inv_def)
qed

lemma page_invI:
  assumes "\<And>a. a \<in> set (pg_open s) \<Longrightarrow> \<exists>e. map_of (pg_pend s) (at_key a) = Some e \<and> at_stamp a \<le> pe_at e \<and>
      (pe_status e = Pending \<or> pe_status e = Applied \<longrightarrow> at_stamp a < pe_at e)"
    and "\<And>k e. map_of (pg_pend s) k = Some e \<Longrightarrow> pe_at e \<le> pg_now s"
    and "\<And>a b. a \<in> set (pg_open s) \<Longrightarrow> b \<in> set (pg_open s) \<Longrightarrow> at_key a = at_key b \<Longrightarrow>
      at_stamp a = at_stamp b \<Longrightarrow> a = b"
  shows "page_inv s"
  unfolding page_inv_def using assms by blast

lemma page_inv_ref [simp]: "page_inv (s\<lparr>pg_ref := r\<rparr>) = page_inv s"
  by (simp add: page_inv_def)

lemma page_invD:
  assumes "page_inv s"
  shows "a \<in> set (pg_open s) \<Longrightarrow> \<exists>e. map_of (pg_pend s) (at_key a) = Some e \<and> at_stamp a \<le> pe_at e \<and>
      (pe_status e = Pending \<or> pe_status e = Applied \<longrightarrow> at_stamp a < pe_at e)"
    and "map_of (pg_pend s) k = Some e \<Longrightarrow> pe_at e \<le> pg_now s"
    and "a \<in> set (pg_open s) \<Longrightarrow> b \<in> set (pg_open s) \<Longrightarrow> at_key a = at_key b \<Longrightarrow>
      at_stamp a = at_stamp b \<Longrightarrow> a = b"
  using assms unfolding page_inv_def by blast+

text \<open>A click: the control's entry is replaced by one of the current time.\<close>

lemma page_inv_click:
  assumes "page_inv s" "at_stamp a = pg_now s" "fresh_click s (at_key a)"
    and p: "\<And>k. map_of p k = (if k = at_key a then Some e else map_of (pg_pend s) k)"
    and e: "pe_at e = pg_now s" "pe_status e = Sending \<or> pe_status e = Failed"
    and op: "os = pg_open s \<or> os = a # pg_open s"
  shows "page_inv (s\<lparr>pg_pend := p, pg_open := os\<rparr>)"
proof (rule page_invI)
  have old: "\<exists>x. map_of p (at_key b) = Some x \<and> at_stamp b \<le> pe_at x \<and>
      (pe_status x = Pending \<or> pe_status x = Applied \<longrightarrow> at_stamp b < pe_at x)"
    if "b \<in> set (pg_open s)" for b
  proof (cases "at_key b = at_key a")
    case True
    then have "at_stamp b < pg_now s" using fresh_clickD(2) [OF assms(3) that] by simp
    with True show ?thesis by (simp add: p e)
  next
    case False
    then show ?thesis using page_invD(1) [OF assms(1) that] by (simp add: p)
  qed
  fix b assume b: "b \<in> set (pg_open (s\<lparr>pg_pend := p, pg_open := os\<rparr>))"
  show "\<exists>x. map_of (pg_pend (s\<lparr>pg_pend := p, pg_open := os\<rparr>)) (at_key b) = Some x \<and> at_stamp b \<le> pe_at x \<and>
      (pe_status x = Pending \<or> pe_status x = Applied \<longrightarrow> at_stamp b < pe_at x)"
  proof (cases "b \<in> set (pg_open s)")
    case True
    then show ?thesis using old by simp
  next
    case False
    then have "b = a" using b op by auto
    then show ?thesis using e assms(2) by (auto simp: p)
  qed
next
  fix k x assume "map_of (pg_pend (s\<lparr>pg_pend := p, pg_open := os\<rparr>)) k = Some x"
  then show "pe_at x \<le> pg_now (s\<lparr>pg_pend := p, pg_open := os\<rparr>)"
    using page_invD(2) [OF assms(1)] e by (auto simp: p split: if_splits)
next
  fix b c
  assume "b \<in> set (pg_open (s\<lparr>pg_pend := p, pg_open := os\<rparr>))" "c \<in> set (pg_open (s\<lparr>pg_pend := p, pg_open := os\<rparr>))"
    and eq: "at_key b = at_key c" "at_stamp b = at_stamp c"
  then have m: "b \<in> insert a (set (pg_open s))" "c \<in> insert a (set (pg_open s))" using op by auto
  have "at_stamp d \<noteq> pg_now s" if "d \<in> set (pg_open s)" "at_key d = at_key a" for d
    using fresh_clickD(2) [OF assms(3) that] by simp
  then show "b = c"
    using m eq page_invD(3) [OF assms(1), of b c] assms(2) by (metis insertE)
qed

lemma page_inv_settle:
  assumes "page_inv s" "a \<in> set (pg_open s)"
    and "\<And>k. map_of p k = (if k = at_key a \<and> pe_at c = at_stamp a then Some e else map_of (pg_pend s) k)"
    and "map_of (pg_pend s) (at_key a) = Some c" "pe_at e = at_stamp a"
  shows "page_inv (s\<lparr>pg_pend := p, pg_open := removeAll a (pg_open s)\<rparr>)"
proof -
  have old: "\<exists>x. map_of (pg_pend s) (at_key b) = Some x \<and> at_stamp b \<le> pe_at x \<and>
      (pe_status x = Pending \<or> pe_status x = Applied \<longrightarrow> at_stamp b < pe_at x)"
    and uniq: "at_key b = at_key a \<Longrightarrow> at_stamp b = at_stamp a \<Longrightarrow> b = a"
    if "b \<in> set (pg_open s)" for b
    using assms(1,2) that unfolding page_inv_def by blast+
  have "pe_at c \<le> pg_now s" using assms(1,4) unfolding page_inv_def by blast
  have new: "\<exists>x. map_of p (at_key b) = Some x \<and> at_stamp b \<le> pe_at x \<and>
      (pe_status x = Pending \<or> pe_status x = Applied \<longrightarrow> at_stamp b < pe_at x)"
    if "b \<in> set (pg_open s)" "b \<noteq> a" for b
    using old [OF that(1)] uniq [OF that(1)] that(2) assms(3) [of "at_key b"] assms(4,5)
    by (cases "at_key b = at_key a \<and> pe_at c = at_stamp a") force+
  have at: "pe_at x \<le> pg_now s" if "map_of p k = Some x" for k x
    using that assms(1,5) \<open>pe_at c \<le> pg_now s\<close> unfolding assms(3) page_inv_def by (auto split: if_splits)
  have "a' = b" if "a' \<in> set (pg_open s)" "b \<in> set (pg_open s)" "at_key a' = at_key b" "at_stamp a' = at_stamp b" for a' b
    using assms(1) that unfolding page_inv_def by blast
  with new at show ?thesis unfolding page_inv_def by simp
qed

lemma reconcile_status_back:
  "reconcile_entry rows t p = Some (q, c) \<Longrightarrow> pe_status q = Pending \<or> pe_status q = Applied \<Longrightarrow> pe_status p = Pending \<or> pe_status p = Applied"
  by (auto simp: reconcile_entry_def fail_entry_def split: cmd_status.splits if_splits)

lemma page_inv_step:
  assumes "page_step True s s'" "page_inv s"
  shows "page_inv s'"
  using assms(1)
proof (cases rule: page_step.cases)
  case (click a kind arg)
  have "at_stamp a = pg_now s" by (simp add: click(2) mk_attempt_def)
  from page_inv_click [OF assms(2) this click(3) map_of_send(1), of "a # pg_open s"] this
  have "page_inv ((s\<lparr>pg_pend := send_start a (pg_pend s), pg_open := a # pg_open s\<rparr>)\<lparr>pg_ref := send_start a (pg_ref s)\<rparr>)" by simp
  then show ?thesis unfolding click(1) by simp
next
  case (click_no_api a kind arg)
  have "at_stamp a = pg_now s" by (simp add: click_no_api(2) mk_attempt_def)
  from page_inv_click [OF assms(2) this click_no_api(3) map_of_send(2), of "pg_open s"] this
  have "page_inv ((s\<lparr>pg_pend := send_no_api a (pg_pend s), pg_open := pg_open s\<rparr>)\<lparr>pg_ref := send_no_api a (pg_ref s)\<rparr>)" by simp
  then show ?thesis unfolding click_no_api(1) by simp
next
  case (timeout a)
  then obtain c where c: "map_of (pg_pend s) (at_key a) = Some c"
    using assms(2) by (auto simp: page_inv_def)
  show ?thesis
    by (rule page_inv_mono [OF assms(2)]) (use timeout c in \<open>auto simp: map_of_settle split: if_splits\<close>)
next
  case (accepted a d)
  then obtain c where c: "map_of (pg_pend s) (at_key a) = Some c"
    using assms(2) by (auto simp: page_inv_def)
  show ?thesis
    unfolding accepted(1) by (rule page_inv_settle [OF assms(2) accepted(2) map_of_settle(1) [OF c] c]) simp
next
  case (rejected a msg)
  then obtain c where c: "map_of (pg_pend s) (at_key a) = Some c"
    using assms(2) by (auto simp: page_inv_def)
  show ?thesis
    unfolding rejected(1) by (rule page_inv_settle [OF assms(2) rejected(2) map_of_settle(2) [OF c] c]) simp
next
  case (poll recent nxt)
  then have e: "reconcile recent (pg_now s) (pg_pend s) = Install nxt" by auto
  have s': "pg_pend s' = nxt" "pg_open s' = pg_open s" "pg_now s' = pg_now s" using poll by simp_all
  show ?thesis
  proof (rule page_inv_mono [OF assms(2)])
    fix k x assume "map_of (pg_pend s) k = Some x"
    from install_entry [OF e this] show "\<exists>e'. map_of (pg_pend s') k = Some e' \<and> pe_at e' = pe_at x \<and>
      (pe_status e' = Pending \<or> pe_status e' = Applied \<longrightarrow> pe_status x = Pending \<or> pe_status x = Applied)"
      using s' reconcile_entry_same(1) reconcile_status_back by metis
  qed (use s' map_of_install(1) [OF e] in auto)
qed (rule page_inv_mono [OF assms(2)]; auto)+

lemma page_reach_inv: "page_reach True s \<Longrightarrow> page_inv s"
  by (induction rule: page_reach.induct) (auto simp: page_inv_init intro: page_inv_step)

text \<open>Property C20. As long as every poll reconciles entries that have been rendered, no event loses
  an entry or takes it back: in every reachable state a control's entry survives each step, a late
  answer to an older click never replaces a newer one, applied is final for its attempt and
  pending never reverts to sending.\<close>

theorem entries_only_move_on:
  assumes "page_reach True s" "page_step True s s'" "map_of (pg_pend s) k = Some e"
  shows "\<exists>e'. map_of (pg_pend s') k = Some e' \<and> (pe_at e < pe_at e' \<or>
     (pe_at e' = pe_at e \<and> (pe_status e = Applied \<longrightarrow> e' = e) \<and> (pe_status e = Pending \<longrightarrow> pe_status e' \<noteq> Sending)))"
  using step_moves_on [OF assms(2) page_reach_inv [OF assms(1)] assms(3)] by (simp add: moves_on_def)

definition clicked :: page where
  "clicked = (page_init 1)\<lparr>pg_pend := send_start (mk_attempt 1 0 1) [], pg_open := [mk_attempt 1 0 1], pg_ref := send_start (mk_attempt 1 0 1) []\<rparr>"

lemma clicked_reach: "page_reach strict clicked"
proof -
  have "page_step strict (page_init 1) clicked"
    using page_step.click [of "mk_attempt 1 0 1" 1 0 "page_init 1" strict]
    by (simp add: clicked_def page_init_def fresh_click_def)
  then show ?thesis using page_reach.start page_reach.step by blast
qed

lemma clicked_entry: "map_of (pg_pend clicked) ''theme'' = Some (mk_entry 1 0 Sending 1)"
  by (simp add: clicked_def map_of_send mk_attempt_def cmd_key_def cmdGroup_def CMD_GROUP_def)

theorem entries_only_move_on_witness:
  "\<exists>e'. map_of (pg_pend (clicked\<lparr>pg_pend := settle_ok (mk_attempt 1 0 1) JNull (pg_pend clicked),
     pg_open := removeAll (mk_attempt 1 0 1) (pg_open clicked)\<rparr>)) ''theme'' = Some e'"
proof -
  have "mk_attempt 1 0 1 \<in> set (pg_open clicked)" by (simp add: clicked_def)
  from entries_only_move_on [OF clicked_reach page_step.accepted [OF this] clicked_entry]
  show ?thesis by blast
qed

subsection \<open>Applied\<close>

text \<open>Property C21. A control is shown as applied only on the server's word: when a step of the page (every poll reconciling
  rendered entries) makes a control's entry applied, the step was a poll, the entry was a pending command, and the
  poll's recent commands have a row with that command's id and the status \<open>applied\<close>.\<close>

theorem applied_on_servers_word:
  assumes "page_step True s s'" "page_reach True s" "map_of (pg_pend s') k = Some e'" "pe_status e' = Applied"
    and "map_of (pg_pend s) k \<noteq> Some e'"
  shows "\<exists>recent e r. pg_pend s' = after_poll recent (pg_now s) (pg_pend s) \<and> map_of (pg_pend s) k = Some e \<and> pe_status e = Pending \<and>
    r \<in> set (jarr recent) \<and> Some (js_Number (jget r ''id'')) = pe_cmdId e \<and> jget r ''status'' = JStr ''applied''"
  using assms(1)
proof (cases rule: page_step.cases)
  case (poll recent nxt)
  then have i: "reconcile recent (pg_now s) (pg_pend s) = Install nxt" "pg_pend s' = nxt" by auto
  obtain e where e: "map_of (pg_pend s) k = Some e" using map_of_install(1) [OF i(1), of k] assms(3) i(2) by auto
  obtain c where c: "reconcile_entry (if is_arr recent then Some (jarr recent) else None) (pg_now s) e = Some (e', c)"
    using install_entry [OF i(1) e] assms(3) i(2) by auto
  have "pe_status e \<noteq> Applied"
    using c assms(5) e by (auto simp: reconcile_entry_def split: if_splits)
  have "pg_pend s' = after_poll recent (pg_now s) (pg_pend s)" by (simp add: after_poll_def i)
  moreover obtain r where "pe_status e = Pending" "r \<in> set (jarr recent)" "pe_cmdId e = Some (js_Number (jget r ''id''))" "jget r ''status'' = JStr ''applied''"
    using applied_needs_row [OF c assms(4) \<open>pe_status e \<noteq> Applied\<close>] by (auto split: if_splits)
  ultimately show ?thesis using e by metis
next
  case (timeout a)
  then obtain c where "map_of (pg_pend s) (at_key a) = Some c" using page_invD(1) [OF page_reach_inv [OF assms(2)]] by blast
  then show ?thesis using timeout assms(3-5) by (auto simp: map_of_settle split: if_splits)
next
  case (accepted a d)
  then obtain c where "map_of (pg_pend s) (at_key a) = Some c" using page_invD(1) [OF page_reach_inv [OF assms(2)]] by blast
  then show ?thesis using accepted assms(3-5) by (auto simp: map_of_settle split: if_splits)
next
  case (rejected a msg)
  then obtain c where "map_of (pg_pend s) (at_key a) = Some c" using page_invD(1) [OF page_reach_inv [OF assms(2)]] by blast
  then show ?thesis using rejected assms(3-5) by (auto simp: map_of_settle split: if_splits)
qed (use assms(3-5) in \<open>auto simp: map_of_send split: if_splits\<close>)

text \<open>A command that is queued under the id 7, and a poll that reports it applied.\<close>

definition queued7 :: page where
  "queued7 = clicked\<lparr>pg_pend := settle_ok (mk_attempt 1 0 1) (JObj [(''cmdId'', JNum 7)]) (pg_pend clicked),
     pg_open := [], pg_ref := settle_ok (mk_attempt 1 0 1) (JObj [(''cmdId'', JNum 7)]) (pg_pend clicked)\<rparr>"

definition applied7 :: jval where
  "applied7 = JArr [JObj [(''id'', JNum 7), (''status'', JStr ''applied'')]]"

lemma queued7_reach: "page_reach True queued7"
proof -
  let ?s = "clicked\<lparr>pg_pend := settle_ok (mk_attempt 1 0 1) (JObj [(''cmdId'', JNum 7)]) (pg_pend clicked),
    pg_open := removeAll (mk_attempt 1 0 1) (pg_open clicked)\<rparr>"
  have "mk_attempt 1 0 1 \<in> set (pg_open clicked)" by (simp add: clicked_def)
  from page_reach.step [OF clicked_reach page_step.accepted [OF this]] have "page_reach True ?s" .
  from page_reach.step [OF this page_step.render] show ?thesis by (simp add: queued7_def clicked_def)
qed

lemma queued7_entries:
  "pg_pend queued7 = [(''theme'', (mk_entry 1 0 Pending 1)\<lparr>pe_cmdId := Some (Fin 7)\<rparr>)]" "pg_ref queued7 = pg_pend queued7" "pg_now queued7 = 1"
  by (simp_all add: queued7_def clicked_def settle_ok_def superseded_def send_start_def mk_attempt_def cmd_key_def cmdGroup_def CMD_GROUP_def
      page_init_def)

theorem applied_on_servers_word_witness:
  "\<exists>s' r e. page_step True queued7 s' \<and> map_of (pg_pend queued7) ''theme'' = Some e \<and> pe_cmdId e = Some (js_Number (jget r ''id''))"
proof -
  let ?e' = "(mk_entry 1 0 Applied 1)\<lparr>pe_cmdId := Some (Fin 7)\<rparr>"
  have "reconcile applied7 (pg_now queued7) (pg_ref queued7) = Install [(''theme'', ?e')]"
    by (simp add: queued7_entries applied7_def reconcile_def reconcile_entry_def row_of_def same_num_def row_status_def mk_entry_def)
  from page_step.poll [OF _ this, of True] have st: "page_step True queued7 (queued7\<lparr>pg_pend := [(''theme'', ?e')]\<rparr>)" by (simp add: queued7_entries)
  have "map_of (pg_pend (queued7\<lparr>pg_pend := [(''theme'', ?e')]\<rparr>)) ''theme'' = Some ?e'" "pe_status ?e' = Applied"
    "map_of (pg_pend queued7) ''theme'' \<noteq> Some ?e'" by (simp_all add: queued7_entries mk_entry_def)
  from applied_on_servers_word [OF st queued7_reach this] show ?thesis using st by metis
qed

subsection \<open>A queued answer can be lost\<close>

text \<open>The poll computes from the entries last rendered: an answer that has settled but is not yet rendered is replaced by what
  the poll made of the entry before it.\<close>

lemma poll_drops_unrendered_answer:
  assumes "pg_ref s = [(k, e)]" "pe_status e = Sending" "pg_now s - pe_at e > 15000"
  shows "page_step False s (s\<lparr>pg_pend := [(k, fail_entry (JStr ''the request never completed (connection dropped mid-request) - try again'') e)]\<rparr>)"
  by (rule page_step.poll [where recent = "JArr []"]) (simp_all add: assms reconcile_def reconcile_entry_def)

end
