(* ===== verification/PanelPoll.thy ===== *)
theory PanelPoll
  imports PanelCmd
begin

section \<open>The poll of the panel's telemetry\<close>

text \<open>
  The polling effect of \<open>PanelScreen\<close> in \<^verbatim>\<open>screens-panel.jsx\<close>.  \<open>poll_tick\<close> is \<open>tick\<close>, which may
  issue a request; \<open>poll_ok\<close> and \<open>poll_err\<close> are the two settlements of a request, given the
  number it was issued with; \<open>poll_ok\<close> also returns the recent commands it reconciles.  A
  request may settle at any time, in any order, or never.  \<open>lastMs\<close> starts at minus infinity,
  which is \<open>None\<close>.
\<close>

record poll =
  po_inFlight :: int
  po_seq :: nat
  po_last :: "real option"
  po_samples :: "jval list"
  po_err :: "string option"
  po_alive :: bool

definition poll_init :: poll where
  "poll_init = \<lparr> po_inFlight = 0, po_seq = 0, po_last = None, po_samples = [], po_err = None, po_alive = True \<rparr>"

definition poll_tick :: "bool \<Rightarrow> int \<Rightarrow> poll \<Rightarrow> poll \<times> nat option" where
  "poll_tick api now s =
     (if \<not> api then (s\<lparr>po_err := Some ''The dashboard API client is unavailable.''\<rparr>, None)
      else if po_inFlight s \<noteq> 0 \<and> now - po_inFlight s < 15000 then (s, None)
      else (s\<lparr>po_inFlight := now, po_seq := po_seq s + 1\<rparr>, Some (po_seq s + 1)))"

definition push_sample :: "jval \<Rightarrow> jval list \<Rightarrow> jval list" where
  "push_sample d prev = keep_last 240 (prev @ [d])"

definition poll_ok :: "nat \<Rightarrow> jval \<Rightarrow> poll \<Rightarrow> poll \<times> jval option" where
  "poll_ok my d s =
     (if my \<noteq> po_seq s then (s, None)
      else let s1 = s\<lparr>po_inFlight := 0\<rparr> in
        if \<not> po_alive s \<or> \<not> truthy d then (s1, None)
        else let s2 = s1\<lparr>po_err := None\<rparr>; ms = sampleMs d in
          case po_last s of
            None \<Rightarrow> (s2\<lparr>po_last := Some ms, po_samples := push_sample d (po_samples s)\<rparr>, Some (jget d ''recentCommands''))
          | Some lst \<Rightarrow>
              if ms < lst then (s2, None)
              else if ms > lst
              then (s2\<lparr>po_last := Some ms, po_samples := push_sample d (po_samples s)\<rparr>, Some (jget d ''recentCommands''))
              else (s2, Some (jget d ''recentCommands'')))"

definition poll_err :: "nat \<Rightarrow> string \<Rightarrow> poll \<Rightarrow> poll" where
  "poll_err my msg s =
     (if my \<noteq> po_seq s then s
      else let s1 = s\<lparr>po_inFlight := 0\<rparr> in
        if po_alive s then s1\<lparr>po_err := Some (if msg = [] then ''Could not reach /api/panel.'' else msg)\<rparr> else s1)"

definition poll_unmount :: "poll \<Rightarrow> poll" where
  "poll_unmount s = s\<lparr>po_alive := False\<rparr>"

text \<open>The effect's runs: a state and the requests that have not settled.\<close>

inductive poll_reach :: "poll \<Rightarrow> nat list \<Rightarrow> bool" where
  start: "poll_reach poll_init []"
| tick: "poll_reach s os \<Longrightarrow> poll_tick api now s = (s', r) \<Longrightarrow>
    poll_reach s' (case r of None \<Rightarrow> os | Some i \<Rightarrow> i # os)"
| answer: "poll_reach s os \<Longrightarrow> my \<in> set os \<Longrightarrow> poll_reach (fst (poll_ok my d s)) (remove1 my os)"
| failure: "poll_reach s os \<Longrightarrow> my \<in> set os \<Longrightarrow> poll_reach (poll_err my msg s) (remove1 my os)"
| unmount: "poll_reach s os \<Longrightarrow> poll_reach (poll_unmount s) os"

subsection \<open>The history is chronological\<close>

definition poll_inv :: "poll \<Rightarrow> nat list \<Rightarrow> bool" where
  "poll_inv s os \<longleftrightarrow>
     sorted_wrt (\<lambda>a b. sampleMs a < sampleMs b) (po_samples s) \<and> length (po_samples s) \<le> 240 \<and>
     po_last s = (if po_samples s = [] then None else Some (sampleMs (last (po_samples s)))) \<and>
     list_all (\<lambda>i. i \<le> po_seq s) os"

lemma sorted_wrt_snoc_last:
  assumes "sorted_wrt (\<lambda>a b. f a < (f b :: real)) xs" "xs = [] \<or> f (last xs) < f x"
  shows "sorted_wrt (\<lambda>a b. f a < f b) (xs @ [x])"
proof -
  have "f y < f x" if y: "y \<in> set xs" for y
  proof (cases "y = last xs")
    case False
    from y have ne: "xs \<noteq> []" by auto
    have split: "butlast xs @ [last xs] = xs" using ne by simp
    with y False have "y \<in> set (butlast xs)" by (metis in_set_butlastD insert_iff list.simps(15) set_append
        Un_iff empty_iff empty_set)
    moreover have "sorted_wrt (\<lambda>a b. f a < f b) (butlast xs @ [last xs])" using assms(1) split by simp
    ultimately have "f y < f (last xs)" by (simp add: sorted_wrt_append)
    with assms(2) ne show ?thesis by auto
  qed (use assms(2) y in auto)
  with assms(1) show ?thesis by (simp add: sorted_wrt_append)
qed

lemma push_sample_inv:
  assumes "poll_inv s os" "po_last s = None \<or> the (po_last s) < sampleMs d"
  shows "sorted_wrt (\<lambda>a b. sampleMs a < sampleMs b) (push_sample d (po_samples s)) \<and>
    length (push_sample d (po_samples s)) \<le> 240 \<and> push_sample d (po_samples s) \<noteq> [] \<and>
    last (push_sample d (po_samples s)) = d"
proof -
  have "po_samples s = [] \<or> sampleMs (last (po_samples s)) < sampleMs d"
    using assms by (auto simp: poll_inv_def split: if_splits)
  then have "sorted_wrt (\<lambda>a b. sampleMs a < sampleMs b) (po_samples s @ [d])"
    using assms(1) sorted_wrt_snoc_last [of sampleMs] by (auto simp: poll_inv_def)
  moreover have "length (keep_last 240 (po_samples s @ [d])) \<noteq> 0" by simp
  then have "keep_last 240 (po_samples s @ [d]) \<noteq> []" by (simp only: length_0_conv not_False_eq_True)
  ultimately show ?thesis
    by (simp add: push_sample_def sorted_wrt_keep_last last_keep_last)
qed

lemma poll_inv_answer:
  assumes "poll_inv s os"
  shows "poll_inv (fst (poll_ok my d s)) os"
proof (cases "my = po_seq s \<and> po_alive s \<and> truthy d \<and> (po_last s = None \<or> the (po_last s) < sampleMs d)")
  case True
  then have "fst (poll_ok my d s) = s\<lparr>po_inFlight := 0, po_err := None, po_last := Some (sampleMs d),
      po_samples := push_sample d (po_samples s)\<rparr>"
    by (auto simp: poll_ok_def Let_def split: option.splits)
  with push_sample_inv [OF assms, of d] True assms show ?thesis by (auto simp: poll_inv_def)
next
  case False
  then have "po_samples (fst (poll_ok my d s)) = po_samples s \<and> po_last (fst (poll_ok my d s)) = po_last s \<and>
      po_seq (fst (poll_ok my d s)) = po_seq s"
    by (auto simp: poll_ok_def Let_def split: option.splits)
  with assms show ?thesis by (simp add: poll_inv_def)
qed

lemma poll_reach_inv: "poll_reach s os \<Longrightarrow> poll_inv s os"
proof (induction rule: poll_reach.induct)
  case start
  then show ?case by (simp add: poll_inv_def poll_init_def)
next
  case (tick s os api now s' r)
  then show ?case by (auto simp: poll_inv_def poll_tick_def list_all_iff split: if_splits option.splits)
next
  case (answer s os my d)
  then show ?case using poll_inv_answer [of s os my d] by (auto simp: poll_inv_def list_all_iff dest: notin_set_remove1)
next
  case (failure s os my msg)
  then show ?case by (auto simp: poll_inv_def poll_err_def Let_def list_all_iff dest: notin_set_remove1)
next
  case (unmount s os)
  then show ?case by (simp add: poll_inv_def poll_unmount_def)
qed

text \<open>Property C23. In every run, whatever the order in which requests settle, the history holds at
  most 240 samples in strictly increasing server time.\<close>

theorem poll_history_chronological:
  assumes "poll_reach s os"
  shows "sorted_wrt (\<lambda>a b. sampleMs a < sampleMs b) (po_samples s) \<and> length (po_samples s) \<le> 240"
  using poll_reach_inv [OF assms] by (simp add: poll_inv_def)

lemma poll_first: "poll_reach (poll_init\<lparr>po_inFlight := 7, po_seq := 1\<rparr>) [1]"
  using poll_reach.tick [OF poll_reach.start, of True 7 "poll_init\<lparr>po_inFlight := 7, po_seq := 1\<rparr>" "Some 1"]
  by (simp add: poll_tick_def poll_init_def)

lemma poll_second:
  "poll_reach (poll_init\<lparr>po_seq := 1, po_last := Some 5000, po_samples := [JObj [(''ts'', JNum 5)]]\<rparr>) []"
proof -
  have "fst (poll_ok 1 (JObj [(''ts'', JNum 5)]) (poll_init\<lparr>po_inFlight := 7, po_seq := 1\<rparr>)) =
    poll_init\<lparr>po_seq := 1, po_last := Some 5000, po_samples := [JObj [(''ts'', JNum 5)]]\<rparr>"
    by (simp add: poll_ok_def poll_init_def push_sample_def keep_last_def sampleMs_def num_def Let_def)
  with poll_reach.answer [OF poll_first, of 1 "JObj [(''ts'', JNum 5)]"] show ?thesis by simp
qed

theorem poll_history_chronological_witness:
  "sorted_wrt (\<lambda>a b. sampleMs a < sampleMs b)
     (po_samples (poll_init\<lparr>po_seq := 1, po_last := Some 5000, po_samples := [JObj [(''ts'', JNum 5)]]\<rparr>))"
  using poll_history_chronological [OF poll_second] by blast

text \<open>Property C24. The poll never wedges: in every run, once 15 s have passed since the open request
  was issued (or none is open), the next tick issues a request of a new number; every older
  request is from then on ignored when it settles, and the new one's answer, when it is newer than
  the history, is appended to it.\<close>

theorem poll_never_wedges:
  assumes "poll_reach s os" "po_inFlight s = 0 \<or> 15000 \<le> now - po_inFlight s"
  shows "\<exists>s' i. poll_tick True now s = (s', Some i) \<and>
    (\<forall>my d msg. my \<in> set os \<longrightarrow> poll_ok my d s' = (s', None) \<and> poll_err my msg s' = s') \<and>
    (\<forall>d. po_alive s \<and> truthy d \<and> (\<forall>x \<in> set (po_samples s). sampleMs x < sampleMs d) \<longrightarrow>
       po_samples (fst (poll_ok i d s')) = keep_last 240 (po_samples s @ [d]))"
proof -
  let ?s = "s\<lparr>po_inFlight := now, po_seq := po_seq s + 1\<rparr>"
  note inv = poll_reach_inv [OF assms(1), unfolded poll_inv_def]
  have t: "poll_tick True now s = (?s, Some (po_seq s + 1))"
    using assms(2) by (auto simp: poll_tick_def)
  have "poll_ok my d ?s = (?s, None) \<and> poll_err my msg ?s = ?s" if "my \<in> set os" for my d msg
    using inv that by (auto simp: poll_ok_def poll_err_def list_all_iff)
  moreover have "po_samples (fst (poll_ok (po_seq s + 1) d ?s)) = keep_last 240 (po_samples s @ [d])"
    if "po_alive s" "truthy d" "\<forall>x \<in> set (po_samples s). sampleMs x < sampleMs d" for d
  proof (cases "po_samples s = []")
    case False
    then have "sampleMs (last (po_samples s)) < sampleMs d" using that(3) by simp
    then have "\<not> sampleMs d < sampleMs (last (po_samples s))" by simp
    with False inv that \<open>sampleMs (last (po_samples s)) < sampleMs d\<close> show ?thesis
      by (simp only: poll_ok_def push_sample_def Let_def) simp
  qed (use inv that in \<open>simp add: poll_ok_def push_sample_def Let_def\<close>)
  ultimately show ?thesis using t by blast
qed

theorem poll_never_wedges_witness:
  "\<exists>s' i. poll_tick True 20000 (poll_init\<lparr>po_inFlight := 7, po_seq := 1\<rparr>) = (s', Some i)"
proof -
  have "po_inFlight (poll_init\<lparr>po_inFlight := 7, po_seq := 1\<rparr>) = 0 \<or>
    15000 \<le> 20000 - po_inFlight (poll_init\<lparr>po_inFlight := 7, po_seq := 1\<rparr>)" by simp
  from poll_never_wedges [OF poll_first this] show ?thesis by blast
qed

end
