(* ===== verification/PanelPage.thy ===== *)
theory PanelPage
  imports PanelPoll
begin

section \<open>The page: derived state, chips and the tile painter\<close>

text \<open>
  The values \<open>PanelScreen\<close> derives from its state on each render, the pressed and disabled
  states of the chips (\<open>ScreenTileCfg\<close>, \<open>PanelControls\<close>) and the frame loop of \<open>VirtualPanel\<close>,
  which skips hidden tiles and tiles whose framebuffer has not changed, all in
  \<^verbatim>\<open>screens-panel.jsx\<close>.  The markup itself is not modelled.
\<close>

subsection \<open>The role gate\<close>

datatype role = Unresolved | No_role | Role string

text \<open>The answer of \<open>whoami\<close>: pending, failed or a profile.\<close>

datatype whoami = Waiting | Refused | Profile jval

definition page_role :: "bool \<Rightarrow> bool \<Rightarrow> whoami \<Rightarrow> role" where
  "page_role fixtureMode api w =
     (if fixtureMode \<or> \<not> api then No_role
      else case w of
          Waiting \<Rightarrow> Unresolved
        | Refused \<Rightarrow> No_role
        | Profile p \<Rightarrow>
            (case roleFromProfile (JObj [(''role'', if truthy p then jget p ''role'' else p)]) of
               None \<Rightarrow> No_role | Some r \<Rightarrow> Role r))"

definition canControl :: "bool \<Rightarrow> role \<Rightarrow> bool" where
  "canControl fixtureMode r \<longleftrightarrow> \<not> fixtureMode \<and> (r = Role ''operator'' \<or> r = Role ''admin'')"

definition disabledNote :: "bool \<Rightarrow> role \<Rightarrow> string" where
  "disabledNote fixtureMode r =
     (if fixtureMode then ''Parity mode renders the committed fixture with no session and no API traffic - controls are inert here by design.''
      else case r of
          Unresolved \<Rightarrow> ''Confirming your role...''
        | No_role \<Rightarrow> ''Your role could not be confirmed, so this page is read-only.''
        | Role s \<Rightarrow> ''Your role is '' @ s @ ''. Panel control requires operator or admin.'')"

subsection \<open>Derived state\<close>

definition working_set :: "bool \<Rightarrow> jval \<Rightarrow> jval list \<Rightarrow> jval list" where
  "working_set fixtureMode fixDoc samples =
     (if fixtureMode then (if truthy fixDoc then jarr (jget fixDoc ''history'') else []) else samples)"

definition head_of :: "jval list \<Rightarrow> jval" where
  "head_of working = (if working = [] then JNull else last working)"

definition page_env :: "jval list \<Rightarrow> real \<Rightarrow> env option" where
  "page_env working cadenceMs = (if working = [] then None else Some (buildEnv working cadenceMs))"

definition pstate_of :: "jval \<Rightarrow> jval" where
  "pstate_of hdr = (if truthy hdr then jget hdr ''panelState'' else JNull)"

definition and_get :: "jval \<Rightarrow> string \<Rightarrow> jval" where
  "and_get v k = (if truthy v then jget v k else v)"

definition first_cfg :: "scfg option list option list \<Rightarrow> scfg option list option" where
  "first_cfg xs = (case find (\<lambda>x. x \<noteq> None) xs of None \<Rightarrow> None | Some x \<Rightarrow> x)"

definition screenCfg_of :: "jval \<Rightarrow> scfg option list option" where
  "screenCfg_of hdr =
     (if \<not> truthy hdr then None
      else let ps = pstate_of hdr in
        first_cfg [readScreenCfg (jget hdr ''panelScreenConfig''), readScreenCfg (and_get ps ''panelScreenConfig''),
          readScreenCfg (and_get ps ''screenCfg'')])"

definition cfgSaved_of :: "jval \<Rightarrow> bool" where
  "cfgSaved_of hdr \<longleftrightarrow> truthy hdr \<and>
     (readCfgPersisted (jget hdr ''panelScreenConfig'') \<or> readCfgPersisted (and_get (pstate_of hdr) ''panelScreenConfig''))"

definition armed_of :: "env option \<Rightarrow> jval \<Rightarrow> bool" where
  "armed_of env ps = (case env of None \<Rightarrow> False | Some e \<Rightarrow>
     env_alarmActive e \<and>
     \<not> (truthy ps \<and> truthy (jget ps ''alarmAcked'') \<and>
        same_num (js_Number (jget ps ''ackedEpisodeId'')) (Fin (env_episodeId e))))"

definition currentIdx_of :: "jval \<Rightarrow> real" where
  "currentIdx_of ps = (if truthy ps then num (jget ps ''theme'') * 4 + num (jget ps ''screen'') else -1)"

text \<open>A brightness that is not a number reads as 0 here.\<close>

definition gain_of :: "jval \<Rightarrow> real" where
  "gain_of ps = (if truthy ps
     then driverGain (if nullish (jget ps ''brightnessPct'') then None else Some (num (jget ps ''brightnessPct'')))
     else driverGain (Some 100))"

definition refAge_of :: "(string \<Rightarrow> real option) \<Rightarrow> bool \<Rightarrow> jval \<Rightarrow> real \<Rightarrow> real option" where
  "refAge_of dateParse fixtureMode hdr now =
     (let ps = pstate_of hdr; rep = (if truthy ps then parseReportedAt dateParse (jget ps ''reportedAt'') else None) in
      if fixtureMode \<and> truthy hdr then Some (sampleMs hdr - (case rep of None \<Rightarrow> 0 | Some r \<Rightarrow> r))
      else case rep of Some r \<Rightarrow> if r \<noteq> 0 then Some (now - r) else None | None \<Rightarrow> None)"

definition stale_of :: "real option \<Rightarrow> bool" where
  "stale_of age = (case age of None \<Rightarrow> False | Some a \<Rightarrow> a > 90000)"

definition titleAge_of :: "real option \<Rightarrow> real" where
  "titleAge_of age = (case age of None \<Rightarrow> 99 | Some a \<Rightarrow> max 0 (a / 1000))"

record cfg_count =
  cc_on :: nat
  cc_off :: nat
  cc_unknown :: nat
  cc_weighted :: nat

definition count_cfg :: "scfg option \<Rightarrow> cfg_count \<Rightarrow> cfg_count" where
  "count_cfg c n = (case c of
       None \<Rightarrow> n\<lparr>cc_unknown := cc_unknown n + 1\<rparr>
     | Some k \<Rightarrow>
         if sc_enabled k
         then (if sc_weightCode k \<noteq> 2 then n\<lparr>cc_on := cc_on n + 1, cc_weighted := cc_weighted n + 1\<rparr>
               else n\<lparr>cc_on := cc_on n + 1\<rparr>)
         else n\<lparr>cc_off := cc_off n + 1\<rparr>)"

definition cfg_counts :: "scfg option list \<Rightarrow> cfg_count" where
  "cfg_counts cfg = fold count_cfg cfg \<lparr> cc_on = 0, cc_off = 0, cc_unknown = 0, cc_weighted = 0 \<rparr>"

text \<open>The separator is a middle dot, written in ASCII.\<close>

definition cfgSummary :: "scfg option list option \<Rightarrow> string option" where
  "cfgSummary c = (case c of None \<Rightarrow> None | Some cfg \<Rightarrow>
     (let n = cfg_counts cfg in
      Some (join_str '' . '' (
        [nat_str (cc_on n) @ '' of '' @ nat_str N_SCREENS @ '' screens in rotation'']
        @ (if cc_off n \<noteq> 0 then [nat_str (cc_off n) @ '' skipped''] else [])
        @ (if cc_weighted n \<noteq> 0 then [nat_str (cc_weighted n) @ '' weighted''] else [])
        @ (if cc_unknown n \<noteq> 0 then [nat_str (cc_unknown n) @ '' unreported''] else [])))))"

subsection \<open>Chips\<close>

definition busyKey :: "pend \<Rightarrow> string \<Rightarrow> bool" where
  "busyKey p k = (case map_of p k of None \<Rightarrow> False | Some e \<Rightarrow> busy e)"

definition rotation_on :: "pend \<Rightarrow> nat \<Rightarrow> scfg option \<Rightarrow> bool \<Rightarrow> bool" where
  "rotation_on p idx cfg v = (case cfg of None \<Rightarrow> False
     | Some c \<Rightarrow> \<not> busyKey p (''screenEn:'' @ nat_str idx) \<and> sc_enabled c = v)"

definition weight_on :: "pend \<Rightarrow> nat \<Rightarrow> scfg option \<Rightarrow> int \<Rightarrow> bool" where
  "weight_on p idx cfg w = (case cfg of None \<Rightarrow> False
     | Some c \<Rightarrow> \<not> busyKey p (''screenWt:'' @ nat_str idx) \<and> sc_weightCode c = w)"

definition dwell_sec :: "jval \<Rightarrow> real" where
  "dwell_sec st = num (and_get st ''dwellSec'')"

definition dwell_on :: "pend \<Rightarrow> jval \<Rightarrow> real \<Rightarrow> bool" where
  "dwell_on p st n \<longleftrightarrow> \<not> busyKey p ''dwell'' \<and> dwell_sec st = n"

definition dwell_note :: "pend \<Rightarrow> jval \<Rightarrow> string" where
  "dwell_note p st =
     (let d = dwell_sec st in
      if busyKey p ''dwell'' then ''Waiting for the panel to report the new dwell.''
      else if d = 0 then ''The panel has not reported a dwell yet, so no interval is shown as in force.''
      else if d > 0 \<and> d \<notin> {3, 6, 30}
      then ''The panel reports '' @ num_str d @ '' s, which is not one of the presets - none is marked selected.''
      else ''The panel reports '' @ num_str d @ '' s in force.'')"

definition alarm_armed :: "jval \<Rightarrow> bool" where
  "alarm_armed st \<longleftrightarrow> truthy (and_get st ''alarmArmed'') \<and> \<not> truthy (and_get st ''alarmAcked'')"

definition ack_disabled :: "bool \<Rightarrow> pend \<Rightarrow> jval \<Rightarrow> bool" where
  "ack_disabled off p st \<longleftrightarrow> off \<or> \<not> alarm_armed st \<or> busyKey p ''ack''"

definition cmd_state :: "pend_entry option \<Rightarrow> string option" where
  "cmd_state p = (case p of None \<Rightarrow> None | Some e \<Rightarrow>
     Some (case pe_status e of Applied \<Rightarrow> ''applied'' | Failed \<Rightarrow> ''failed'' | _ \<Rightarrow> ''pending''))"

subsection \<open>The frame loop\<close>

record vp =
  vp_prev :: "fb list"
  vp_painted :: "bool list"
  vp_canvas :: "real list list"
  vp_ms :: ms
  vp_fb :: fb

text \<open>What a pass over the tiles is given.\<close>

record frame_in =
  fi_env :: "env option"
  fi_t :: real
  fi_dt :: real
  fi_armed :: bool
  fi_current :: "nat option"
  fi_titleAge :: real
  fi_gain :: real
  fi_show :: "nat \<Rightarrow> bool"

definition tile_frame :: "frame_in \<Rightarrow> nat \<Rightarrow> ms \<Rightarrow> fb \<Rightarrow> (ms \<times> fb) option" where
  "tile_frame fi i m f =
     paintScreen i (fi_env fi) (fi_t fi) (if fi_current fi = Some i then fi_dt fi else 0) (fi_armed fi)
       (fi_current fi) (Some (fi_titleAge fi)) m f"

text \<open>\<open>drawAll\<close>, from tile \<open>i\<close> on.  A renderer that raises ends the pass, which the flag reports.
  \<open>fi_show\<close> is \<open>force || visRef.current[i]\<close>.\<close>

fun drawTiles :: "frame_in \<Rightarrow> nat list \<Rightarrow> vp \<Rightarrow> vp \<times> bool" where
  "drawTiles fi [] v = (v, True)"
| "drawTiles fi (i # is) v =
     (if \<not> fi_show fi i then drawTiles fi is v
      else case tile_frame fi i (vp_ms v) (vp_fb v) of
        None \<Rightarrow> (v, False)
      | Some (m, f) \<Rightarrow>
          (let v1 = v\<lparr>vp_ms := m, vp_fb := f\<rparr> in
           if vp_painted v ! i \<and> f = vp_prev v ! i then drawTiles fi is v1
           else drawTiles fi is (v1\<lparr>vp_prev := (vp_prev v)[i := f], vp_painted := (vp_painted v)[i := True],
                  vp_canvas := (vp_canvas v)[i := image_data f (fi_gain fi)]\<rparr>)))"

definition drawAll :: "frame_in \<Rightarrow> vp \<Rightarrow> vp \<times> bool" where
  "drawAll fi v = drawTiles fi [0..<length SCREENS] v"

text \<open>An effect run after a change of its inputs: every tile must repaint once.\<close>

definition vp_reset :: "vp \<Rightarrow> vp" where
  "vp_reset v = v\<lparr>vp_painted := replicate (length SCREENS) False\<rparr>"

text \<open>The animation clock of \<open>frame\<close>: the step in seconds, when a frame is due.\<close>

definition FRAME_MS :: real where "FRAME_MS = 40"

definition frame_dt :: "real \<Rightarrow> real \<Rightarrow> real option" where
  "frame_dt lst now =
     (let last1 = (if lst = 0 then now else lst); elapsed = now - last1 in
      if elapsed < FRAME_MS then None else Some (min elapsed 200 / 1000))"

subsection \<open>The gate fails closed\<close>

text \<open>Property C25. The controls are live only after \<open>whoami\<close> has answered with a profile whose role
  is operator or admin: never in parity mode, without an API client, before the answer, after a
  failure or for any other role.\<close>

theorem controls_fail_closed:
  assumes "canControl fixtureMode (page_role fixtureMode api w)"
  shows "\<not> fixtureMode \<and> api \<and> (\<exists>p s. w = Profile p \<and> jget p ''role'' = JStr s \<and>
    (map low_char s = ''operator'' \<or> map low_char s = ''admin''))"
proof -
  have f: "\<not> fixtureMode" and r: "page_role fixtureMode api w = Role ''operator'' \<or> page_role fixtureMode api w = Role ''admin''"
    using assms by (auto simp: canControl_def)
  then have api: api by (cases api) (auto simp: page_role_def)
  then obtain p where p: "w = Profile p" using f r by (cases w) (auto simp: page_role_def)
  let ?v = "if truthy p then jget p ''role'' else p"
  obtain q where q: "roleFromProfile (JObj [(''role'', ?v)]) = Some q" "q = ''operator'' \<or> q = ''admin''"
    using f api r p by (auto simp: page_role_def split: option.splits)
  then obtain s where s: "?v = JStr s" "map low_char s = q"
    by (auto simp: roleFromProfile_def Let_def split: jval.splits if_splits)
  have "truthy p"
  proof (rule ccontr)
    assume "\<not> truthy p"
    with s q(2) show False by auto
  qed
  with f api p s q(2) show ?thesis by auto
qed

theorem controls_fail_closed_witness:
  "canControl False (page_role False True (Profile (JObj [(''role'', JStr ''admin'')]))) \<and>
   (\<exists>s. jget (JObj [(''role'', JStr ''admin'')]) ''role'' = JStr s)"
proof -
  have c: "canControl False (page_role False True (Profile (JObj [(''role'', JStr ''admin'')])))"
    by (simp add: canControl_def page_role_def roleFromProfile_def low_char_def Let_def)
  from controls_fail_closed [OF c] c show ?thesis by blast
qed

subsection \<open>The rotation summary and the chips\<close>

lemma count_cfg_sum:
  "cc_on (count_cfg c n) + cc_off (count_cfg c n) + cc_unknown (count_cfg c n) =
     Suc (cc_on n + cc_off n + cc_unknown n)"
  "cc_weighted n \<le> cc_on n \<Longrightarrow> cc_weighted (count_cfg c n) \<le> cc_on (count_cfg c n)"
  by (auto simp: count_cfg_def split: option.splits)

lemma fold_count_cfg:
  "cc_weighted n \<le> cc_on n \<Longrightarrow>
   cc_on (fold count_cfg cfg n) + cc_off (fold count_cfg cfg n) + cc_unknown (fold count_cfg cfg n) =
     cc_on n + cc_off n + cc_unknown n + length cfg \<and> cc_weighted (fold count_cfg cfg n) \<le> cc_on (fold count_cfg cfg n)"
  by (induction cfg arbitrary: n) (simp_all add: count_cfg_sum)

text \<open>For every configuration the page can read, the summary's three classes add up to
  the sixteen screens (an unreported screen is never counted as on), and at most one dwell chip
  and one rotation chip of a screen is pressed: none while a command is in flight or the screen is
  unreported.\<close>

theorem rotation_summary_and_chips:
  assumes "screenCfg_of h = Some cfg" "i < N_SCREENS"
  shows "cc_on (cfg_counts cfg) + cc_off (cfg_counts cfg) + cc_unknown (cfg_counts cfg) = N_SCREENS \<and>
    cc_weighted (cfg_counts cfg) \<le> cc_on (cfg_counts cfg) \<and>
    (\<forall>w w'. weight_on p i (cfg ! i) w \<longrightarrow> weight_on p i (cfg ! i) w' \<longrightarrow> w = w') \<and>
    (\<forall>v v'. rotation_on p i (cfg ! i) v \<longrightarrow> rotation_on p i (cfg ! i) v' \<longrightarrow> v = v') \<and>
    (cfg ! i = None \<longrightarrow> (\<forall>w v. \<not> weight_on p i (cfg ! i) w \<and> \<not> rotation_on p i (cfg ! i) v))"
proof -
  have "\<exists>v. readScreenCfg v = Some cfg"
    using assms(1) by (auto simp: screenCfg_of_def first_cfg_def Let_def split: if_splits option.splits)
  then have "length cfg = 16"
    using read_cfg_length by blast
  then show ?thesis
    using fold_count_cfg [of "\<lparr> cc_on = 0, cc_off = 0, cc_unknown = 0, cc_weighted = 0 \<rparr>" cfg]
    by (auto simp: cfg_counts_def weight_on_def rotation_on_def split: option.splits)
qed

theorem rotation_summary_and_chips_witness:
  "\<exists>cfg. screenCfg_of (JObj [(''panelScreenConfig'', JArr (replicate 12 (JNum 5)))]) = Some cfg \<and>
     cc_on (cfg_counts cfg) + cc_off (cfg_counts cfg) + cc_unknown (cfg_counts cfg) = N_SCREENS"
proof -
  obtain cfg where c: "screenCfg_of (JObj [(''panelScreenConfig'', JArr (replicate 12 (JNum 5)))]) = Some cfg"
    by (simp add: screenCfg_of_def first_cfg_def Let_def)
  from rotation_summary_and_chips [OF c, of 0 "[]"] c show ?thesis by auto
qed

subsection \<open>Skipping clean tiles is sound\<close>

text \<open>The reference pass repaints every shown tile's canvas.\<close>

fun drawNaive :: "frame_in \<Rightarrow> nat list \<Rightarrow> ms \<times> fb \<times> real list list \<Rightarrow> (ms \<times> fb \<times> real list list) \<times> bool" where
  "drawNaive fi [] s = (s, True)"
| "drawNaive fi (i # is) (m, f, cs) =
     (if \<not> fi_show fi i then drawNaive fi is (m, f, cs)
      else case tile_frame fi i m f of
        None \<Rightarrow> ((m, f, cs), False)
      | Some (m', f') \<Rightarrow> drawNaive fi is (m', f', cs[i := image_data f' (fi_gain fi)]))"

definition vp_view :: "vp \<Rightarrow> ms \<times> fb \<times> real list list" where
  "vp_view v = (vp_ms v, vp_fb v, vp_canvas v)"

definition vp_ok :: "real \<Rightarrow> vp \<Rightarrow> bool" where
  "vp_ok gain v \<longleftrightarrow> length (vp_prev v) = 16 \<and> length (vp_painted v) = 16 \<and> length (vp_canvas v) = 16 \<and>
     (\<forall>i < 16. vp_painted v ! i \<longrightarrow> vp_canvas v ! i = image_data (vp_prev v ! i) gain)"

lemma drawTiles_refines:
  assumes "vp_ok (fi_gain fi) v" "list_all (\<lambda>i. i < 16) is"
  shows "vp_ok (fi_gain fi) (fst (drawTiles fi is v)) \<and>
    (vp_view (fst (drawTiles fi is v)), snd (drawTiles fi is v)) = drawNaive fi is (vp_view v)"
  using assms
proof (induction "is" arbitrary: v)
  case Nil
  then show ?case by (simp add: vp_view_def)
next
  case (Cons i "is")
  have next_step: ?case
    if "drawTiles fi (i # is) v = drawTiles fi is v'" "vp_ok (fi_gain fi) v'"
      "drawNaive fi (i # is) (vp_view v) = drawNaive fi is (vp_view v')" for v'
    using Cons.IH [OF that(2)] Cons.prems(2) by (simp only: that list.pred_inject)
  have i: "i < 16" using Cons.prems(2) by simp
  show ?case
  proof (cases "fi_show fi i")
    case False
    then show ?thesis by (intro next_step [of v]) (simp_all add: Cons.prems(1) vp_view_def)
  next
    case shown: True
    show ?thesis
    proof (cases "tile_frame fi i (vp_ms v) (vp_fb v)")
      case None
      with shown Cons.prems(1) show ?thesis by (simp add: vp_view_def)
    next
      case (Some mf)
      obtain m f where mf: "mf = (m, f)" by (cases mf)
      let ?v1 = "v\<lparr>vp_ms := m, vp_fb := f\<rparr>"
      let ?v2 = "?v1\<lparr>vp_prev := (vp_prev v)[i := f], vp_painted := (vp_painted v)[i := True],
                  vp_canvas := (vp_canvas v)[i := image_data f (fi_gain fi)]\<rparr>"
      show ?thesis
      proof (cases "vp_painted v ! i \<and> f = vp_prev v ! i")
        case clean: True
        then have "vp_canvas v ! i = image_data f (fi_gain fi)" using Cons.prems(1) i by (simp add: vp_ok_def)
        then have same: "(vp_canvas v)[i := image_data (vp_prev v ! i) (fi_gain fi)] = vp_canvas v"
          using clean by (metis list_update_id)
        have "vp_ok (fi_gain fi) ?v1" using Cons.prems(1) by (simp add: vp_ok_def)
        then show ?thesis
          by (intro next_step [of ?v1]) (simp_all add: shown Some mf clean same vp_view_def)
      next
        case False
        have "vp_ok (fi_gain fi) ?v2" using Cons.prems(1) i by (auto simp: vp_ok_def nth_list_update)
        then show ?thesis
          by (intro next_step [of ?v2]) (simp_all add: shown Some mf False Let_def vp_view_def)
      qed
    qed
  qed
qed

text \<open>Property C22. Skipping unchanged tiles does not show: a pass of the frame loop leaves every
  canvas, the animation state and the framebuffer exactly as a pass that repaints every shown
  tile, raises exactly when that does, and keeps the record of what is on the canvases true.\<close>

theorem drawAll_refines_repaint:
  assumes "vp_ok (fi_gain fi) v"
  shows "(vp_view (fst (drawAll fi v)), snd (drawAll fi v)) = drawNaive fi [0..<length SCREENS] (vp_view v) \<and>
    vp_ok (fi_gain fi) (fst (drawAll fi v))"
proof -
  have "list_all (\<lambda>i. i < 16) [0..<length SCREENS]" by (simp add: list_all_iff SCREENS_def)
  from drawTiles_refines [OF assms this] show ?thesis by (simp add: drawAll_def)
qed

definition blank_vp :: vp where
  "blank_vp = \<lparr> vp_prev = replicate 16 fbNew, vp_painted = replicate 16 False, vp_canvas = replicate 16 [],
     vp_ms = ms_init, vp_fb = fbNew \<rparr>"

definition no_data_frame :: frame_in where
  "no_data_frame = \<lparr> fi_env = None, fi_t = 0, fi_dt = 0, fi_armed = False, fi_current = None, fi_titleAge = 99,
     fi_gain = 1, fi_show = (\<lambda>_. True) \<rparr>"

theorem drawAll_refines_repaint_witness:
  "(vp_view (fst (drawAll no_data_frame blank_vp)), snd (drawAll no_data_frame blank_vp)) =
   drawNaive no_data_frame [0..<length SCREENS] (vp_view blank_vp)"
proof -
  have "vp_ok (fi_gain no_data_frame) blank_vp" by (simp add: vp_ok_def blank_vp_def)
  from drawAll_refines_repaint [OF this] show ?thesis by blast
qed

lemma vp_ok_reset: "vp_ok gain v \<Longrightarrow> vp_ok gain' (vp_reset v)"
proof -
  have "length SCREENS = 16" by (simp add: SCREENS_def)
  moreover assume "vp_ok gain v"
  ultimately show ?thesis by (simp only: vp_ok_def vp_reset_def) (simp del: replicate.simps)
qed

lemma frame_dt_bounds: "frame_dt lst now = Some dt \<Longrightarrow> 0.04 \<le> dt \<and> dt \<le> 0.2"
  by (auto simp: frame_dt_def FRAME_MS_def Let_def split: if_splits)

end
