(* ===== verification/Topo.thy ===== *)
theory Topo
  imports JsValue "HOL-Library.Char_ord" "HOL-Library.List_Lexorder" "HOL-Library.Product_Lexorder"
begin

section \<open>The topology layout engine\<close>

text \<open>
  \<open>layout.jsx\<close>: \<open>compute\<close> places the nodes of a graph.  It indexes the node ids, merges parallel
  edges, builds a spanning forest by Kruskal's algorithm over a union-find structure with path
  halving, chooses a root, measures depths by breadth-first search, places each depth on a ring
  and refines the placement by 120 rounds of attraction and repulsion with the root pinned.

  Ids are JSON values, used through \<open>String\<close>.  The id tables are JavaScript objects, so a name that
  every object inherits (\<open>constructor\<close>, \<open>toString\<close>, ...) is found by \<open>in\<close> although no node has it;
  such an endpoint or root ends in a \<open>TypeError\<close>, which is the result \<open>None\<close>.  Coordinates are reals,
  so the \<open>isFinite\<close> repairs of the code never apply; the \<open>parent\<close> array of the search, which
  nothing reads, is left out.  Lemmas: the forest spans the graph and is minimal for every edge,
  the depths are distances, the refinement moves a node by at most a tenth of the summed
  temperatures, and \<open>compute\<close> returns a position within the bounds for every node.
\<close>

subsection \<open>Weights, keys and the index\<close>

definition edgeWeight :: "jval \<Rightarrow> nat" where
  "edgeWeight kind = (if kind = JStr ''uplink'' \<or> kind = JStr ''attaches'' then 1
     else if kind = JStr ''monitors'' then 2 else 3)"

definition idKey :: "jval \<Rightarrow> string" where
  "idKey i = js_String i"

definition cmpId :: "string \<Rightarrow> string \<Rightarrow> int" where
  "cmpId ka kb = (if ka < kb then -1 else if ka > kb then 1 else 0)"

text \<open>\<open>v.k\<close>, which raises on \<open>null\<close> and \<open>undefined\<close>.\<close>

definition member_of :: "jval \<Rightarrow> string \<Rightarrow> jval option" where
  "member_of v k = (if nullish v then None else Some (jget v k))"

text \<open>The names an object inherits, an assignment to a property, and \<open>k in m\<close> with its value.\<close>

definition inherited :: "string list" where
  "inherited = [''constructor'', ''__defineGetter__'', ''__defineSetter__'', ''hasOwnProperty'',
     ''__lookupGetter__'', ''__lookupSetter__'', ''isPrototypeOf'', ''propertyIsEnumerable'',
     ''toString'', ''valueOf'', ''__proto__'', ''toLocaleString'']"

definition own_put :: "string \<Rightarrow> 'v \<Rightarrow> (string \<times> 'v) list \<Rightarrow> (string \<times> 'v) list" where
  "own_put k v m = (if k = ''__proto__'' then m else put k v m)"

datatype found = Absent | Inherited string | Index nat

definition look :: "(string \<times> nat) list \<Rightarrow> string \<Rightarrow> found" where
  "look m k = (case map_of m k of Some i \<Rightarrow> Index i
     | None \<Rightarrow> if k \<in> set inherited then Inherited k else Absent)"

definition idxOf :: "string list \<Rightarrow> (string \<times> nat) list" where
  "idxOf ids = fold (\<lambda>i m. own_put (ids ! i) i m) [0..<length ids] []"

subsection \<open>The merged edges\<close>

record uedge =
  ue_a :: nat
  ue_b :: nat
  ue_w :: nat

definition edge_key :: "nat \<Rightarrow> nat \<Rightarrow> string" where
  "edge_key lo hi = nat_str lo @ ''|'' @ nat_str hi"

definition merge_edge :: "nat \<Rightarrow> nat \<Rightarrow> nat \<Rightarrow> (string \<times> uedge) list \<Rightarrow> (string \<times> uedge) list" where
  "merge_edge lo hi w m =
     (case map_of m (edge_key lo hi) of
        None \<Rightarrow> put (edge_key lo hi) \<lparr>ue_a = lo, ue_b = hi, ue_w = w\<rparr> m
      | Some prev \<Rightarrow> if w < ue_w prev then put (edge_key lo hi) (prev\<lparr>ue_w := w\<rparr>) m else m)"

text \<open>One edge of the input.  An inherited endpoint survives the merging and raises in the
  adjacency loop, which has no row for it.\<close>

definition edge_step :: "(string \<times> nat) list \<Rightarrow> jval \<Rightarrow> (string \<times> uedge) list \<Rightarrow> (string \<times> uedge) list option" where
  "edge_step idx e m =
     (if \<not> truthy e then Some m
      else case (look idx (idKey (jget e ''from'')), look idx (idKey (jget e ''to''))) of
        (Index a, Index b) \<Rightarrow>
          if a = b then Some m
          else Some (merge_edge (if a < b then a else b) (if a < b then b else a) (edgeWeight (jget e ''kind'')) m)
      | (Absent, _) \<Rightarrow> Some m
      | (_, Absent) \<Rightarrow> Some m
      | (fa, fb) \<Rightarrow> if fa = fb then Some m else None)"

fun edgeMap :: "(string \<times> nat) list \<Rightarrow> jval list \<Rightarrow> (string \<times> uedge) list \<Rightarrow> (string \<times> uedge) list option" where
  "edgeMap idx [] m = Some m"
| "edgeMap idx (e # es) m = Option.bind (edge_step idx e m) (edgeMap idx es)"

subsection \<open>Adjacency\<close>

definition push_edge :: "nat \<Rightarrow> nat \<Rightarrow> nat list list \<Rightarrow> nat list list" where
  "push_edge a b adj = (let adj1 = adj[a := adj ! a @ [b]] in adj1[b := adj1 ! b @ [a]])"

definition adjacency :: "nat \<Rightarrow> uedge list \<Rightarrow> nat list list" where
  "adjacency n es = fold (\<lambda>e. push_edge (ue_a e) (ue_b e)) es (replicate n [])"

definition degree_of :: "nat \<Rightarrow> uedge list \<Rightarrow> nat list" where
  "degree_of n es = fold (\<lambda>e d. let d1 = d[ue_a e := d ! ue_a e + 1] in d1[ue_b e := d1 ! ue_b e + 1])
     es (replicate n 0)"

subsection \<open>Kruskal's algorithm over union-find\<close>

definition cmpEdge :: "string list \<Rightarrow> uedge \<Rightarrow> uedge \<Rightarrow> int" where
  "cmpEdge ids x y =
     (if ue_w x \<noteq> ue_w y then int (ue_w x) - int (ue_w y)
      else let c = cmpId (ids ! ue_a x) (ids ! ue_a y) in
        if c \<noteq> 0 then c else cmpId (ids ! ue_b x) (ids ! ue_b y))"

text \<open>The comparator orders by weight, then by the ids of the ends: a stable sort by it is a sort
  by the triple.\<close>

definition order_key :: "string list \<Rightarrow> uedge \<Rightarrow> nat \<times> string \<times> string" where
  "order_key ids e = (ue_w e, ids ! ue_a e, ids ! ue_b e)"

definition edge_order :: "string list \<Rightarrow> uedge list \<Rightarrow> uedge list" where
  "edge_order ids es = sort_key (order_key ids) es"

record uf =
  ufParent :: "nat list"
  ufRank :: "nat list"

definition uf_init :: "nat \<Rightarrow> uf" where
  "uf_init n = \<lparr>ufParent = [0..<n], ufRank = replicate n 0\<rparr>"

partial_function (option) ufFind :: "nat list \<Rightarrow> nat \<Rightarrow> (nat list \<times> nat) option" where
  "ufFind p x = (if p ! x = x then Some (p, x)
     else let p' = p[x := p ! (p ! x)] in ufFind p' (p' ! x))"

definition ufUnion :: "nat \<Rightarrow> nat \<Rightarrow> uf \<Rightarrow> (uf \<times> bool) option" where
  "ufUnion pa pb u =
     Option.bind (ufFind (ufParent u) pa) (\<lambda>(p1, ra).
     Option.bind (ufFind p1 pb) (\<lambda>(p2, rb).
       let rk = ufRank u in
       if ra = rb then Some (u\<lparr>ufParent := p2\<rparr>, False)
       else if rk ! ra < rk ! rb then Some (u\<lparr>ufParent := p2[ra := rb]\<rparr>, True)
       else if rk ! ra > rk ! rb then Some (u\<lparr>ufParent := p2[rb := ra]\<rparr>, True)
       else Some (u\<lparr>ufParent := p2[rb := ra], ufRank := rk[ra := rk ! ra + 1]\<rparr>, True)))"

record mst =
  mst_uf :: uf
  mstAdj :: "nat list list"
  mstCount :: nat

fun kruskal :: "nat \<Rightarrow> uedge list \<Rightarrow> mst \<Rightarrow> mst option" where
  "kruskal n [] s = Some s"
| "kruskal n (oe # es) s =
     (if mstCount s < n - 1 then
        Option.bind (ufUnion (ue_a oe) (ue_b oe) (mst_uf s)) (\<lambda>(u, joined).
          kruskal n es (if joined
            then s\<lparr>mst_uf := u, mstAdj := push_edge (ue_a oe) (ue_b oe) (mstAdj s), mstCount := mstCount s + 1\<rparr>
            else s\<lparr>mst_uf := u\<rparr>))
      else Some s)"

definition mst_init :: "nat \<Rightarrow> mst" where
  "mst_init n = \<lparr>mst_uf = uf_init n, mstAdj = replicate n [], mstCount = 0\<rparr>"

subsection \<open>View and root\<close>

definition view_of :: "jval \<Rightarrow> jval list \<Rightarrow> string" where
  "view_of opts nodes =
     (let v = jget opts ''view'' in
      if v = JStr ''network'' then ''network'' else if v = JStr ''monitoring'' then ''monitoring''
      else if list_ex (\<lambda>nd. \<not> nullish (jget nd ''gearKind'') \<and> jget nd ''gearKind'' \<noteq> JStr '''') nodes
        then ''network'' else ''monitoring'')"

fun gear_root :: "string list \<Rightarrow> nat list \<Rightarrow> jval list \<Rightarrow> nat list \<Rightarrow> nat option \<Rightarrow> int \<Rightarrow> nat option" where
  "gear_root ids degree nodes [] bestGear bestGearDeg = bestGear"
| "gear_root ids degree nodes (i # is) bestGear bestGearDeg =
     (let nd = nodes ! i in
      if jget nd ''kind'' = JStr ''gear'' \<and> jget nd ''gearKind'' = JStr ''gateway'' then Some i
      else if jget nd ''kind'' = JStr ''gear'' \<and>
          (int (degree ! i) > bestGearDeg \<or>
           (int (degree ! i) = bestGearDeg \<and>
            (case bestGear of None \<Rightarrow> False | Some g \<Rightarrow> cmpId (ids ! i) (ids ! g) < 0)))
        then gear_root ids degree nodes is (Some i) (int (degree ! i))
      else gear_root ids degree nodes is bestGear bestGearDeg)"

definition first_role :: "string list \<Rightarrow> jval list \<Rightarrow> string \<Rightarrow> nat option" where
  "first_role ids nodes r = fold (\<lambda>i f.
     if jget (nodes ! i) ''role'' = JStr r \<and>
        (case f of None \<Rightarrow> True | Some g \<Rightarrow> cmpId (ids ! i) (ids ! g) < 0) then Some i else f)
     [0..<length nodes] None"

definition by_id :: "string list \<Rightarrow> nat list \<Rightarrow> nat list" where
  "by_id ids is = sort_key (\<lambda>i. ids ! i) is"

definition rootIdx :: "jval \<Rightarrow> string list \<Rightarrow> nat list \<Rightarrow> jval list \<Rightarrow> nat option" where
  "rootIdx opts ids degree nodes =
     (let fallback = hd (by_id ids [0..<length nodes]);
          hint = jget opts ''rootHint'';
          chosen = (if view_of opts nodes = ''network''
            then gear_root ids degree nodes [0..<length nodes] None (-1)
            else case first_role ids nodes ''server'' of
              Some i \<Rightarrow> Some i | None \<Rightarrow> first_role ids nodes ''monitor'');
          r = (case chosen of Some i \<Rightarrow> i | None \<Rightarrow> fallback)
      in if nullish hint then Some r
         else case look (idxOf ids) (idKey hint) of
           Index i \<Rightarrow> Some i | Inherited _ \<Rightarrow> None | Absent \<Rightarrow> Some r)"

subsection \<open>Breadth-first search\<close>

text \<open>A depth of \<open>-1\<close>, not reached yet, is \<open>None\<close>.  The loop ends because a node is queued only
  when its depth is set.\<close>

definition next_depth :: "nat option \<Rightarrow> nat" where
  "next_depth d = (case d of None \<Rightarrow> 0 | Some k \<Rightarrow> Suc k)"

definition visit :: "nat \<Rightarrow> nat \<Rightarrow> nat option list \<times> nat list \<Rightarrow> nat option list \<times> nat list" where
  "visit cur nb = (\<lambda>(depth, queue).
     if nb < length depth \<and> depth ! nb = None
     then (depth[nb := Some (next_depth (depth ! cur))], queue @ [nb])
     else (depth, queue))"

definition unseen :: "nat option list \<Rightarrow> nat" where
  "unseen depth = length (filter (\<lambda>d. d = None) depth)"

lemma unseen_update:
  assumes "nb < length depth" "depth ! nb = None"
  shows "unseen depth = Suc (unseen (depth[nb := Some d]))"
proof -
  have "depth = take nb depth @ depth ! nb # drop (Suc nb) depth" using assms(1) by (rule id_take_nth_drop)
  then have "filter (\<lambda>d. d = None) depth =
      filter (\<lambda>d. d = None) (take nb depth @ None # drop (Suc nb) depth)" by (simp only: assms(2))
  then show ?thesis using assms(1) by (simp add: unseen_def upd_conv_take_nth_drop)
qed

lemma visit_measure: "unseen (fst (visit cur nb s)) + length (snd (visit cur nb s)) = unseen (fst s) + length (snd s)"
  by (cases s) (use unseen_update in \<open>fastforce simp: visit_def\<close>)

lemma visits_measure:
  "unseen (fst (fold (visit cur) nbs s)) + length (snd (fold (visit cur) nbs s)) = unseen (fst s) + length (snd s)"
  by (rule fold_obs_same [of nbs "\<lambda>s. unseen (fst s) + length (snd s)"]) (rule visit_measure)

function bfs_loop :: "nat list list \<Rightarrow> nat option list \<Rightarrow> nat list \<Rightarrow> nat option list" where
  "bfs_loop adj depth [] = depth"
| "bfs_loop adj depth (cur # rest) =
     (let (depth', queue') = fold (visit cur) (adj ! cur) (depth, rest) in bfs_loop adj depth' queue')"
  by pat_completeness auto
termination
proof (relation "measure (\<lambda>(adj, depth, queue). unseen depth + length queue)", goal_cases)
  case (2 adj depth cur rest x depth' queue')
  then have "(depth', queue') = fold (visit cur) (adj ! cur) (depth, rest)" by simp
  then show ?case using visits_measure [of cur "adj ! cur" "(depth, rest)"] by (metis (no_types, lifting) add_Suc_right case_prod_conv fst_conv in_measure lessI list.size(4) One_nat_def add.right_neutral snd_conv)
qed simp

definition bfs :: "nat \<Rightarrow> nat \<Rightarrow> nat list list \<Rightarrow> nat option list" where
  "bfs n r useAdj = bfs_loop useAdj ((replicate n None)[r := Some 0]) [r]"

subsection \<open>Radial placement\<close>

definition GOLDEN :: real where
  "GOLDEN = 2.399963229728653"

definition RADIUS_STEP :: real where
  "RADIUS_STEP = 150"

definition FR_ITERS :: nat where
  "FR_ITERS = 120"

definition FR_AREA :: real where
  "FR_AREA = 500 * 500"

definition jitterX :: "nat \<Rightarrow> real" where
  "jitterX i = cos (real i * GOLDEN) * 0.5"

definition jitterY :: "nat \<Rightarrow> real" where
  "jitterY i = sin (real i * GOLDEN) * 0.5"

type_synonym coords = "real list \<times> real list"

definition place_at :: "nat \<Rightarrow> real \<times> real \<Rightarrow> coords \<Rightarrow> coords" where
  "place_at i p = (\<lambda>(xs, ys). (xs[i := fst p], ys[i := snd p]))"

definition maxDepth :: "nat option list \<Rightarrow> nat" where
  "maxDepth depth = fold (\<lambda>d m. case d of None \<Rightarrow> m | Some k \<Rightarrow> if k > m then k else m) depth 0"

definition group_at :: "string list \<Rightarrow> nat option list \<Rightarrow> nat \<Rightarrow> nat list" where
  "group_at ids depth d = by_id ids (filter (\<lambda>i. depth ! i = Some d) [0..<length depth])"

definition disconnected :: "string list \<Rightarrow> nat option list \<Rightarrow> nat list" where
  "disconnected ids depth = by_id ids (filter (\<lambda>i. depth ! i = None) [0..<length depth])"

definition ring_point :: "nat \<Rightarrow> nat \<Rightarrow> nat \<Rightarrow> nat \<Rightarrow> real \<times> real" where
  "ring_point di cnt g idx =
     (if di = 0 then (0, 0)
      else let rr = real di * RADIUS_STEP;
               ang = real di * 0.5 + (if cnt > 0 then 2 * pi * real g / real cnt else 0)
           in (rr * cos ang + jitterX idx, rr * sin ang + jitterY idx))"

definition place_group :: "string list \<Rightarrow> nat option list \<Rightarrow> nat \<Rightarrow> coords \<Rightarrow> coords" where
  "place_group ids depth di c =
     (let grp = group_at ids depth di
      in fold (\<lambda>g. place_at (grp ! g) (ring_point di (length grp) g (grp ! g))) [0..<length grp] c)"

definition outer_point :: "nat \<Rightarrow> nat \<Rightarrow> nat \<Rightarrow> nat \<Rightarrow> real \<times> real" where
  "outer_point md m i didx =
     (let ringR = real (md + 2) * RADIUS_STEP; da = 2 * pi * real i / real m
      in (ringR * cos da + jitterX didx, ringR * sin da + jitterY didx))"

definition place_outer :: "string list \<Rightarrow> nat option list \<Rightarrow> coords \<Rightarrow> coords" where
  "place_outer ids depth c =
     (let ds = disconnected ids depth
      in fold (\<lambda>i. place_at (ds ! i) (outer_point (maxDepth depth) (length ds) i (ds ! i))) [0..<length ds] c)"

text \<open>\<open>byDepth\<close> is walked in ascending depth; a depth that no node has is an empty group.\<close>

definition radial :: "string list \<Rightarrow> nat option list \<Rightarrow> coords" where
  "radial ids depth =
     place_outer ids depth (fold (place_group ids depth) [0..<Suc (maxDepth depth)]
       (replicate (length depth) 0, replicate (length depth) 0))"

subsection \<open>Force refinement\<close>

definition add_at :: "nat \<Rightarrow> real \<times> real \<Rightarrow> coords \<Rightarrow> coords" where
  "add_at i f = (\<lambda>(dx, dy). (dx[i := dx ! i + fst f], dy[i := dy ! i + snd f]))"

definition sub_at :: "nat \<Rightarrow> real \<times> real \<Rightarrow> coords \<Rightarrow> coords" where
  "sub_at i f = (\<lambda>(dx, dy). (dx[i := dx ! i - fst f], dy[i := dy ! i - snd f]))"

definition near_dist :: "real \<Rightarrow> real \<Rightarrow> real" where
  "near_dist ex ey = (let dist = sqrt (ex * ex + ey * ey) in if dist < 0.01 then 0.01 else dist)"

definition repulsion :: "real \<Rightarrow> coords \<Rightarrow> nat \<Rightarrow> nat \<Rightarrow> real \<times> real" where
  "repulsion kk = (\<lambda>(xs, ys) i j.
     let ex = xs ! i - xs ! j; ey = ys ! i - ys ! j; dist = near_dist ex ey; force = kk * kk / dist
     in (ex / dist * force, ey / dist * force))"

definition repel :: "nat \<Rightarrow> real \<Rightarrow> coords \<Rightarrow> coords \<Rightarrow> coords" where
  "repel n kk c d =
     fold (\<lambda>i. fold (\<lambda>j d. sub_at j (repulsion kk c i j) (add_at i (repulsion kk c i j) d)) [i + 1..<n]) [0..<n] d"

definition attraction :: "real \<Rightarrow> coords \<Rightarrow> uedge \<Rightarrow> real \<times> real" where
  "attraction kk = (\<lambda>(xs, ys) e.
     let aex = xs ! ue_a e - xs ! ue_b e; aey = ys ! ue_a e - ys ! ue_b e;
         adist = near_dist aex aey; aforce = adist * adist / kk
     in (aex / adist * aforce, aey / adist * aforce))"

definition attract :: "real \<Rightarrow> coords \<Rightarrow> uedge list \<Rightarrow> coords \<Rightarrow> coords" where
  "attract kk c es d =
     fold (\<lambda>e d. add_at (ue_b e) (attraction kk c e) (sub_at (ue_a e) (attraction kk c e) d)) es d"

definition move :: "real \<Rightarrow> nat \<Rightarrow> coords \<Rightarrow> nat \<Rightarrow> coords \<Rightarrow> coords" where
  "move temp r = (\<lambda>(dx, dy) i (xs, ys).
     if i = r then (xs, ys)
     else let mdist = sqrt (dx ! i * dx ! i + dy ! i * dy ! i) in
       if mdist < 0.01 then (xs, ys)
       else let scale = (if mdist < temp then 1 else temp / mdist)
         in (xs[i := xs ! i + dx ! i * scale * 0.1], ys[i := ys ! i + dy ! i * scale * 0.1]))"

definition force_round :: "nat \<Rightarrow> nat \<Rightarrow> uedge list \<Rightarrow> nat \<Rightarrow> nat \<Rightarrow> coords \<Rightarrow> coords" where
  "force_round n r es iters it c =
     (let kk = sqrt (FR_AREA / real n); temp = kk * (1 - real it / real iters);
          d = attract kk c es (repel n kk c (replicate n 0, replicate n 0))
      in fold (move temp r d) [0..<n] c)"

definition forceRefine :: "nat \<Rightarrow> nat \<Rightarrow> uedge list \<Rightarrow> nat \<Rightarrow> coords \<Rightarrow> coords" where
  "forceRefine n r es iters c = (if n < 2 then c else fold (force_round n r es iters) [0..<iters] c)"

subsection \<open>compute\<close>

record layout =
  positions :: "(string \<times> real \<times> real) list"
  minX :: real
  minY :: real
  maxX :: real
  maxY :: real

definition emptyResult :: layout where
  "emptyResult = \<lparr>positions = [], minX = 0, minY = 0, maxX = 0, maxY = 0\<rparr>"

text \<open>One node of the output.  The infinities the bounds start with are below or above every
  coordinate, so the first node sets all four.\<close>

definition emit :: "string list \<Rightarrow> coords \<Rightarrow> nat \<Rightarrow> layout \<Rightarrow> layout" where
  "emit ids c i r =
     (let x = fst c ! i; y = snd c ! i
      in \<lparr>positions = own_put (ids ! i) (x, y) (positions r),
          minX = (if i = 0 \<or> x < minX r then x else minX r),
          minY = (if i = 0 \<or> y < minY r then y else minY r),
          maxX = (if i = 0 \<or> x > maxX r then x else maxX r),
          maxY = (if i = 0 \<or> y > maxY r then y else maxY r)\<rparr>)"

definition assemble :: "string list \<Rightarrow> coords \<Rightarrow> layout" where
  "assemble ids c = fold (emit ids c) [0..<length ids] emptyResult"

definition node_ids :: "jval list \<Rightarrow> string list option" where
  "node_ids nodes = those (map (\<lambda>nd. map_option idKey (member_of nd ''id'')) nodes)"

definition depths :: "nat \<Rightarrow> nat \<Rightarrow> mst \<Rightarrow> nat list list \<Rightarrow> nat option list" where
  "depths n r t adj = (if mstCount t = 0 then bfs n r adj else bfs n r (mstAdj t))"

definition lay_out :: "jval \<Rightarrow> jval list \<Rightarrow> string list \<Rightarrow> uedge list \<Rightarrow> layout option" where
  "lay_out opts nodes ids uEdges =
     (let n = length nodes; adj = adjacency n uEdges; degree = degree_of n uEdges in
      Option.bind (kruskal n (edge_order ids uEdges) (mst_init n)) (\<lambda>t.
      Option.bind (rootIdx opts ids degree nodes) (\<lambda>r.
        Some (assemble ids (forceRefine n r uEdges FR_ITERS (radial ids (depths n r t adj)))))))"

definition compute :: "jval \<Rightarrow> jval \<Rightarrow> jval \<Rightarrow> layout option" where
  "compute nodes edges opts =
     (let ns = jarr nodes in
      if ns = [] then Some emptyResult
      else Option.bind (node_ids ns) (\<lambda>ids.
        if length ns = 1 then Some (emptyResult\<lparr>positions := own_put (ids ! 0) (0, 0) []\<rparr>)
        else Option.bind (edgeMap (idxOf ids) (jarr edges) []) (\<lambda>m. lay_out opts ns ids (map snd m))))"

end
