(* ===== verification/TopoForest.thy ===== *)
theory TopoForest
  imports Topo
begin

section \<open>The spanning forest of the topology layout\<close>

text \<open>
  Union-find with path halving and union by rank: the loop of \<open>ufFind\<close> ends, keeps every node's
  representative and finds it, and \<open>ufUnion\<close> merges exactly two classes.  Kruskal's loop over it
  yields a forest that connects what the graph connects, of minimal total weight.
\<close>

subsection \<open>Union-find\<close>

lemma cmpEdge_key:
  "cmpEdge ids x y < 0 \<longleftrightarrow> order_key ids x < order_key ids y"
  "cmpEdge ids x y = 0 \<longleftrightarrow> order_key ids x = order_key ids y"
  by (auto simp: cmpEdge_def order_key_def cmpId_def less_prod_def Let_def)

text \<open>Ranks grow strictly along parents, so every chain of parents ends at a root.\<close>

definition uf_ok :: "nat \<Rightarrow> nat list \<Rightarrow> nat list \<Rightarrow> bool" where
  "uf_ok n p rk \<longleftrightarrow> length p = n \<and> length rk = n \<and>
     (\<forall>x<n. p ! x < n \<and> (p ! x \<noteq> x \<longrightarrow> rk ! x < rk ! (p ! x)))"

lemma uf_okD:
  assumes "uf_ok n p rk"
  shows "length p = n" "length rk = n" "x < n \<Longrightarrow> p ! x < n"
    "x < n \<Longrightarrow> p ! x \<noteq> x \<Longrightarrow> rk ! x < rk ! (p ! x)"
  using assms by (auto simp: uf_ok_def)

inductive root_of :: "nat list \<Rightarrow> nat \<Rightarrow> nat \<Rightarrow> bool" for p where
  here: "p ! x = x \<Longrightarrow> root_of p x x"
| up: "p ! x \<noteq> x \<Longrightarrow> root_of p (p ! x) r \<Longrightarrow> root_of p x r"

lemma root_ofD:
  assumes "root_of p x r"
  shows "p ! x = x \<Longrightarrow> r = x" "p ! x \<noteq> x \<Longrightarrow> root_of p (p ! x) r"
  using assms by (cases, simp_all)+

lemma root_of_det: "root_of p x r \<Longrightarrow> root_of p x r' \<Longrightarrow> r = r'"
proof (induction rule: root_of.induct)
  case (here x)
  then show ?case using root_ofD(1) by blast
next
  case (up x r)
  then show ?case using root_ofD(2) by blast
qed

lemma root_of_root: "root_of p x r \<Longrightarrow> p ! r = r"
  by (induction rule: root_of.induct) auto

lemma root_of_less: "root_of p x r \<Longrightarrow> uf_ok n p rk \<Longrightarrow> x < n \<Longrightarrow> r < n"
  by (induction rule: root_of.induct) (auto dest: uf_okD(3))

lemma rank_induct [consumes 2, case_names less]:
  assumes "uf_ok n p rk" "x < n"
    and step: "\<And>x. x < n \<Longrightarrow> (\<And>y. y < n \<Longrightarrow> rk ! x < rk ! y \<Longrightarrow> P y) \<Longrightarrow> P x"
  shows "P x"
proof -
  have bound: "y < n \<Longrightarrow> rk ! y \<le> Max (set rk)" for y using uf_okD(2) [OF assms(1)] by simp
  show ?thesis using assms(2)
  proof (induction "Max (set rk) - rk ! x" arbitrary: x rule: less_induct)
    case less
    show ?case
    proof (rule step [OF less.prems])
      fix y assume "y < n" "rk ! x < rk ! y"
      then show "P y" using less.hyps bound [of y] by (meson diff_less_mono2 less_le_trans)
    qed
  qed
qed

lemma root_of_total:
  assumes ok: "uf_ok n p rk" and "x < n"
  shows "\<exists>r. root_of p x r"
  using assms
proof (induction rule: rank_induct)
  case (less x)
  show ?case
  proof (cases "p ! x = x")
    case True
    then show ?thesis using root_of.here by blast
  next
    case False
    then have "p ! x < n" "rk ! x < rk ! (p ! x)" using uf_okD [OF ok] less.hyps by auto
    then show ?thesis using less.IH False root_of.up by blast
  qed
qed

lemma halve_ok:
  assumes "uf_ok n p rk" "x < n"
  shows "uf_ok n (p[x := p ! (p ! x)]) rk"
proof -
  have x1: "p ! x < n" and x2: "p ! (p ! x) < n" using uf_okD(3) [OF assms(1)] assms(2) by blast+
  have up: "p ! (p ! x) \<noteq> x \<Longrightarrow> rk ! x < rk ! (p ! (p ! x))"
  proof (cases "p ! (p ! x) = p ! x")
    case True
    then show "p ! (p ! x) \<noteq> x \<Longrightarrow> ?thesis" using uf_okD(4) [OF assms] by simp
  next
    case False
    then show ?thesis using uf_okD(4) [OF assms] uf_okD(4) [OF assms(1) x1] by (cases "p ! x = x") auto
  qed
  show ?thesis unfolding uf_ok_def
  proof (intro conjI allI impI)
    show "length (p[x := p ! (p ! x)]) = n" "length rk = n" using uf_okD(1,2) [OF assms(1)] by simp_all
  next
    fix y assume "y < n"
    then show "p[x := p ! (p ! x)] ! y < n" using x2 uf_okD(1,3) [OF assms(1)] by (cases "y = x") auto
  next
    fix y assume "y < n" "p[x := p ! (p ! x)] ! y \<noteq> y"
    then show "rk ! y < rk ! (p[x := p ! (p ! x)] ! y)"
      using up uf_okD(1,4) [OF assms(1)] by (cases "y = x") auto
  qed
qed

lemma halve_root:
  assumes ok: "uf_ok n p rk" and x: "x < n" and y: "y < n" and r: "root_of p y r"
  shows "root_of (p[x := p ! (p ! x)]) y r"
  using ok y r
proof (induction arbitrary: r rule: rank_induct)
  case (less y)
  let ?p = "p[x := p ! (p ! x)]"
  have len: "length p = n" using ok by (rule uf_okD)
  show ?case
  proof (cases "p ! y = y")
    case True
    then have "?p ! y = y" using len x by (cases "y = x") auto
    moreover have "r = y" using root_ofD(1) less.prems True by blast
    ultimately show ?thesis using root_of.here by blast
  next
    case False
    then have up: "root_of p (p ! y) r" using root_ofD(2) less.prems by blast
    have "p ! y < n" "rk ! y < rk ! (p ! y)" using uf_okD(3,4) [OF ok less.hyps] False by auto
    then have 1: "root_of ?p (p ! y) r" using less.IH up by blast
    show ?thesis
    proof (cases "y = x \<and> p ! (p ! x) \<noteq> p ! x")
      case True
      have g: "root_of p (p ! (p ! y)) r" using root_ofD(2) [OF up] True by simp
      have "p ! (p ! y) < n" "rk ! y < rk ! (p ! (p ! y))"
        using uf_okD(3,4) [OF ok \<open>p ! y < n\<close>] \<open>rk ! y < rk ! (p ! y)\<close> True by auto
      then have up2: "root_of ?p (p ! (p ! y)) r" and ne: "p ! (p ! y) \<noteq> y" using less.IH [OF _ _ g] by auto
      have "?p ! y = p ! (p ! y)" using True x len by simp
      then show ?thesis using up2 ne root_of.up [of ?p y r] by simp
    next
      case False2: False
      then have "?p ! y = p ! y" using x len by (cases "y = x") auto
      then show ?thesis using 1 False root_of.up [of ?p y r] by simp
    qed
  qed
qed

definition same_roots :: "nat \<Rightarrow> nat list \<Rightarrow> nat list \<Rightarrow> bool" where
  "same_roots n p q \<longleftrightarrow> (\<forall>y<n. \<forall>r. root_of p y r \<longrightarrow> root_of q y r)"

lemma ufFind_correct:
  assumes "uf_ok n p rk" "x < n"
  shows "\<exists>q r. ufFind p x = Some (q, r) \<and> root_of p x r \<and> uf_ok n q rk \<and> same_roots n p q"
proof -
  have "\<forall>p. uf_ok n p rk \<longrightarrow>
      (\<exists>q r. ufFind p x = Some (q, r) \<and> root_of p x r \<and> uf_ok n q rk \<and> same_roots n p q)"
    using assms
  proof (induction rule: rank_induct)
    case (less x)
    show ?case
    proof (intro allI impI)
      fix p assume ok: "uf_ok n p rk"
      show "\<exists>q r. ufFind p x = Some (q, r) \<and> root_of p x r \<and> uf_ok n q rk \<and> same_roots n p q"
      proof (cases "p ! x = x")
        case True
        then show ?thesis using ok root_of.here [of p x] by (simp add: ufFind.simps [of p x] same_roots_def)
      next
        case False
        let ?p = "p[x := p ! (p ! x)]"
        have gp: "?p ! x = p ! (p ! x)" using less.hyps uf_okD(1) [OF ok] by simp
        have n: "p ! x < n" "p ! (p ! x) < n" using uf_okD(3) [OF ok] less.hyps by auto
        have "rk ! x < rk ! (p ! (p ! x))"
          using uf_okD(4) [OF ok less.hyps False] uf_okD(4) [OF ok n(1)] by (cases "p ! (p ! x) = p ! x") auto
        then obtain q r where q: "ufFind ?p (p ! (p ! x)) = Some (q, r)" "root_of ?p (p ! (p ! x)) r"
            "uf_ok n q rk" "same_roots n ?p q"
          using less.IH n(2) halve_ok [OF ok less.hyps] by blast
        obtain r' where r': "root_of p x r'" using root_of_total [OF ok less.hyps] by blast
        then have "root_of p (p ! (p ! x)) r'"
          using root_ofD [OF root_ofD(2) [OF r' False]] by (metis root_of.here)
        then have "root_of ?p (p ! (p ! x)) r'" using halve_root [OF ok less.hyps n(2)] by blast
        then have "r' = r" using q(2) root_of_det by blast
        moreover have "same_roots n p q"
          using halve_root [OF ok less.hyps] q(4) by (simp add: same_roots_def)
        ultimately show ?thesis using q r' False gp by (simp add: ufFind.simps [of p x] Let_def)
      qed
    qed
  qed
  then show ?thesis using assms(1) by blast
qed

definition same :: "nat list \<Rightarrow> nat \<Rightarrow> nat \<Rightarrow> bool" where
  "same p x y \<longleftrightarrow> (\<exists>r. root_of p x r \<and> root_of p y r)"

definition roots :: "nat \<Rightarrow> nat list \<Rightarrow> nat set" where
  "roots n p = {x. x < n \<and> p ! x = x}"

lemma same_sym: "same p x y \<Longrightarrow> same p y x"
  by (auto simp: same_def)

lemma same_trans: "same p x y \<Longrightarrow> same p y z \<Longrightarrow> same p x z"
  unfolding same_def using root_of_det by blast

lemma same_absorb:
  assumes "same p a b"
  shows "same p x y \<longleftrightarrow> same p x y \<or> same p x a \<and> same p y b \<or> same p x b \<and> same p y a"
  using same_trans [OF same_trans [OF _ assms] same_sym] same_trans [OF same_trans [OF _ same_sym [OF assms]] same_sym]
  by blast

lemma same_roots_trans: "same_roots n p q \<Longrightarrow> same_roots n q r \<Longrightarrow> same_roots n p r"
  by (simp add: same_roots_def)

lemma same_roots_facts:
  assumes "same_roots n p q" "uf_ok n p rk"
  shows "x < n \<Longrightarrow> y < n \<Longrightarrow> same q x y \<longleftrightarrow> same p x y" "roots n q = roots n p"
proof -
  have iff: "root_of q x r \<longleftrightarrow> root_of p x r" if "x < n" for x r
    using root_of_total [OF assms(2) that] assms(1) that root_of_det unfolding same_roots_def by metis
  show "x < n \<Longrightarrow> y < n \<Longrightarrow> same q x y \<longleftrightarrow> same p x y" by (simp add: same_def iff)
  have "q ! x = x \<longleftrightarrow> p ! x = x" if "x < n" for x
    using iff [OF that, of x] root_of.here root_of_root by metis
  then show "roots n q = roots n p" by (auto simp: roots_def)
qed

lemma hang_root:
  assumes "root_of p y r" "c < length p" "p ! t = t" "c \<noteq> t" "p ! c = c"
  shows "root_of (p[c := t]) y (if r = c then t else r)"
  using assms
proof (induction rule: root_of.induct)
  case (here x)
  have t: "root_of (p[c := t]) t t" using here by (intro root_of.here) simp
  show ?case
  proof (cases "x = c")
    case True
    then show ?thesis using t here root_of.up [of "p[c := t]" c t] by simp
  next
    case False
    then show ?thesis using here root_of.here [of "p[c := t]" x] by simp
  qed
next
  case (up x r)
  then have "x \<noteq> c" by blast
  then show ?case using up root_of.up [of "p[c := t]" x] by simp
qed

lemma hang_same:
  assumes ok: "uf_ok n p rk" and r: "root_of p a ra" "root_of p b rb" and ab: "ra \<noteq> rb" "a < n" "b < n"
    and xy: "x < n" "y < n"
  shows "same (p[ra := rb]) x y \<longleftrightarrow> same p x y \<or> same p x a \<and> same p y b \<or> same p x b \<and> same p y a"
proof -
  obtain rx ry where rxy: "root_of p x rx" "root_of p y ry" using root_of_total [OF ok] xy by blast
  have fx: "p ! ra = ra" "p ! rb = rb" "ra < length p"
    using r root_of_root root_of_less [OF _ ok] ab uf_okD(1) [OF ok] by auto
  have q: "root_of (p[ra := rb]) x (if rx = ra then rb else rx)" "root_of (p[ra := rb]) y (if ry = ra then rb else ry)"
    using hang_root [OF _ fx(3,2) ab(1) fx(1)] rxy by blast+
  have p_same: "root_of p u ru \<Longrightarrow> root_of p v rv \<Longrightarrow> same p u v \<longleftrightarrow> ru = rv" for p u v ru rv
    unfolding same_def using root_of_det by blast
  show ?thesis
    using p_same [OF q] p_same [OF rxy] p_same [OF rxy(1) r(1)] p_same [OF rxy(1) r(2)]
      p_same [OF rxy(2) r(1)] p_same [OF rxy(2) r(2)] by (auto split: if_splits)
qed

lemma hang_ok:
  assumes ok: "uf_ok n p rk" and ct: "c < n" "t < n" "c \<noteq> t" "p ! c = c" "p ! t = t"
    and rk: "rk' = rk \<and> rk ! c < rk ! t \<or> rk' = rk[t := rk ! t + 1] \<and> rk ! c \<le> rk ! t"
  shows "uf_ok n (p[c := t]) rk'"
  unfolding uf_ok_def
proof (intro conjI allI impI)
  show "length (p[c := t]) = n" "length rk' = n" using uf_okD(1,2) [OF ok] rk by auto
next
  fix x assume x: "x < n"
  then show "p[c := t] ! x < n" using ct uf_okD(1,3) [OF ok] by (cases "x = c") auto
  assume ne: "p[c := t] ! x \<noteq> x"
  have up: "rk ! y \<le> rk' ! y" for y using rk uf_okD(2) [OF ok] ct by (cases "y = t") auto
  show "rk' ! x < rk' ! (p[c := t] ! x)"
  proof (cases "x = c")
    case True
    then show ?thesis using rk ct uf_okD(1,2) [OF ok] by auto
  next
    case False
    then have "rk ! x < rk ! (p ! x)" "x \<noteq> t" using ne uf_okD(4) [OF ok x] ct(5) by auto
    then have "rk' ! x < rk ! (p ! x)" using rk by auto
    then show ?thesis using False up [of "p ! x"] by simp
  qed
qed

lemma hang_roots: "c < n \<Longrightarrow> c < length p \<Longrightarrow> c \<noteq> t \<Longrightarrow> roots n (p[c := t]) = roots n p - {c}"
  by (auto simp: roots_def nth_list_update)

text \<open>What a union of \<open>a\<close> and \<open>b\<close> does to the classes.\<close>

definition joins :: "nat \<Rightarrow> nat \<Rightarrow> nat \<Rightarrow> nat list \<Rightarrow> nat list \<Rightarrow> bool" where
  "joins n a b p q \<longleftrightarrow> (\<forall>x<n. \<forall>y<n. same q x y \<longleftrightarrow>
     same p x y \<or> same p x a \<and> same p y b \<or> same p x b \<and> same p y a)"

lemma joins_hang:
  assumes ok: "uf_ok n p rk" and r: "root_of p a ra" "root_of p b rb" and ab: "ra \<noteq> rb" "a < n" "b < n"
    and ct: "c = ra \<and> t = rb \<or> c = rb \<and> t = ra"
  shows "joins n a b p (p[c := t])" "card (roots n p) = Suc (card (roots n (p[c := t])))"
proof -
  show "joins n a b p (p[c := t])" unfolding joins_def
  proof (intro allI impI)
    fix x y assume "x < n" "y < n"
    then show "same (p[c := t]) x y \<longleftrightarrow> same p x y \<or> same p x a \<and> same p y b \<or> same p x b \<and> same p y a"
      using ct hang_same [OF ok r ab] hang_same [OF ok r(2,1) ab(1) [symmetric] ab(3,2)] by metis
  qed
  have c: "p ! c = c" "c < n" "c \<noteq> t" using ct r root_of_root root_of_less [OF _ ok] ab by auto
  then have "c \<in> roots n p" "finite (roots n p)" by (simp_all add: roots_def)
  then show "card (roots n p) = Suc (card (roots n (p[c := t])))"
    using hang_roots [of c n p t] c uf_okD(1) [OF ok] card_Suc_Diff1 by metis
qed

lemma ufUnion_correct:
  assumes ok: "uf_ok n (ufParent u) (ufRank u)" and ab: "a < n" "b < n"
  shows "\<exists>u' j. ufUnion a b u = Some (u', j) \<and> uf_ok n (ufParent u') (ufRank u') \<and>
    (j \<longleftrightarrow> \<not> same (ufParent u) a b) \<and> joins n a b (ufParent u) (ufParent u') \<and>
    card (roots n (ufParent u)) = card (roots n (ufParent u')) + (if j then 1 else 0)"
proof -
  let ?p = "ufParent u" and ?rk = "ufRank u"
  obtain p1 ra where f1: "ufFind ?p a = Some (p1, ra)" "root_of ?p a ra" "uf_ok n p1 ?rk" "same_roots n ?p p1"
    using ufFind_correct [OF ok ab(1)] by blast
  obtain p2 rb where f2: "ufFind p1 b = Some (p2, rb)" "root_of p1 b rb" "uf_ok n p2 ?rk" "same_roots n p1 p2"
    using ufFind_correct [OF f1(3) ab(2)] by blast
  have sr: "same_roots n ?p p2" using f1(4) f2(4) by (rule same_roots_trans)
  have r: "root_of p2 a ra" "root_of p2 b rb" using sr f1(2) f2(2,4) ab by (simp_all add: same_roots_def)
  have sf: "\<And>x y. x < n \<Longrightarrow> y < n \<Longrightarrow> same p2 x y \<longleftrightarrow> same ?p x y" "roots n p2 = roots n ?p"
    using same_roots_facts [OF sr ok] by blast+
  have j: "same ?p a b \<longleftrightarrow> ra = rb" using sf(1) [OF ab] r root_of_det unfolding same_def by blast
  have rt: "p2 ! ra = ra" "p2 ! rb = rb" "ra < n" "rb < n"
    using r root_of_root root_of_less [OF _ f2(3)] ab by blast+
  have tr: "joins n a b p2 q \<Longrightarrow> joins n a b ?p q" for q using sf(1) ab by (simp add: joins_def)
  show ?thesis
  proof (cases "ra = rb")
    case True
    have "ufUnion a b u = Some (u\<lparr>ufParent := p2\<rparr>, False)" using f1(1) f2(1) True by (simp add: ufUnion_def)
    moreover have "joins n a b ?p p2"
      unfolding joins_def using sf(1) same_absorb [of ?p a b] j True by simp
    ultimately show ?thesis using f2(3) j True sf(2) by (intro exI [of _ "u\<lparr>ufParent := p2\<rparr>"] exI [of _ False]) simp
  next
    case False
    have finish: ?thesis if "ufUnion a b u = Some (u\<lparr>ufParent := p2[c := t], ufRank := rk'\<rparr>, True)"
      and "c = ra \<and> t = rb \<or> c = rb \<and> t = ra" and "uf_ok n (p2[c := t]) rk'" for c t rk'
      using joins_hang [OF f2(3) r False ab that(2)] that(1,3) tr j False sf(2)
      by (intro exI [of _ "u\<lparr>ufParent := p2[c := t], ufRank := rk'\<rparr>"] exI [of _ True]) simp
    consider "?rk ! ra < ?rk ! rb" | "?rk ! ra > ?rk ! rb" | "?rk ! ra = ?rk ! rb" by linarith
    then show ?thesis
    proof cases
      case 1
      then show ?thesis using False rt f1(1) f2(1)
        by (intro finish [where c = ra and t = rb and rk' = ?rk] hang_ok [OF f2(3)]) (auto simp: ufUnion_def Let_def)
    next
      case 2
      then show ?thesis using False rt f1(1) f2(1)
        by (intro finish [where c = rb and t = ra and rk' = ?rk] hang_ok [OF f2(3)]) (auto simp: ufUnion_def Let_def)
    next
      case 3
      then show ?thesis using False rt f1(1) f2(1)
        by (intro finish [where c = rb and t = ra and rk' = "?rk[ra := ?rk ! ra + 1]"] hang_ok [OF f2(3)]) (auto simp: ufUnion_def Let_def)
    qed
  qed
qed

subsection \<open>The spanning forest\<close>

definition link :: "uedge list \<Rightarrow> (nat \<times> nat) set" where
  "link es = (\<lambda>e. (ue_a e, ue_b e)) ` set es \<union> (\<lambda>e. (ue_b e, ue_a e)) ` set es"

definition linked :: "uedge list \<Rightarrow> nat \<Rightarrow> nat \<Rightarrow> bool" where
  "linked es x y \<longleftrightarrow> (x, y) \<in> (link es)\<^sup>*"

lemma link_sym: "sym (link es)"
  by (auto simp: link_def sym_def)

lemma linked_sym: "linked es x y \<longleftrightarrow> linked es y x"
  unfolding linked_def using sym_rtrancl [OF link_sym] by (metis symD)

lemma linked_refl [simp]: "linked es x x"
  by (simp add: linked_def)

lemma linked_trans: "linked es x y \<Longrightarrow> linked es y z \<Longrightarrow> linked es x z"
  unfolding linked_def by (rule rtrancl_trans)

lemma linked_mono: "set es \<subseteq> set fs \<Longrightarrow> linked es x y \<Longrightarrow> linked fs x y"
proof -
  assume "set es \<subseteq> set fs" "linked es x y"
  moreover from this have "link es \<subseteq> link fs" by (auto simp: link_def)
  ultimately show ?thesis unfolding linked_def using rtrancl_mono by blast
qed

lemma linked_edge: "e \<in> set es \<Longrightarrow> linked es (ue_a e) (ue_b e)"
  unfolding linked_def link_def by (intro r_into_rtrancl) blast

lemma link_snoc: "link (es @ [e]) = insert (ue_a e, ue_b e) (insert (ue_b e, ue_a e) (link es))"
  by (auto simp: link_def)

lemma linked_snoc:
  "linked (es @ [e]) x y \<longleftrightarrow> linked es x y \<or> linked es x (ue_a e) \<and> linked es y (ue_b e) \<or>
     linked es x (ue_b e) \<and> linked es y (ue_a e)"
proof -
  have "linked (es @ [e]) x y \<Longrightarrow> linked es x y \<or> linked es x (ue_a e) \<and> linked es (ue_b e) y \<or>
     linked es x (ue_b e) \<and> linked es (ue_a e) y"
    unfolding linked_def link_snoc rtrancl_insert by (auto intro: rtrancl_trans)
  moreover have up: "linked es u v \<Longrightarrow> linked (es @ [e]) u v" for u v by (rule linked_mono) auto
  have new: "linked (es @ [e]) (ue_a e) (ue_b e)" by (rule linked_edge) simp
  have "linked es x (ue_a e) \<Longrightarrow> linked es (ue_b e) y \<Longrightarrow> linked (es @ [e]) x y"
    using linked_trans [OF linked_trans [OF up new] up] .
  moreover have "linked es x (ue_b e) \<Longrightarrow> linked es (ue_a e) y \<Longrightarrow> linked (es @ [e]) x y"
    using linked_trans [OF linked_trans [OF up new [unfolded linked_sym [of _ "ue_a e"]]] up] .
  ultimately show ?thesis using up linked_sym by blast
qed

definition forest_edges :: "uedge list \<Rightarrow> bool" where
  "forest_edges A \<longleftrightarrow> (\<forall>i<length A. \<not> linked (take i A) (ue_a (A ! i)) (ue_b (A ! i)))"

lemma forest_snoc: "forest_edges (A @ [e]) \<longleftrightarrow> forest_edges A \<and> \<not> linked A (ue_a e) (ue_b e)"
  by (auto simp: forest_edges_def less_Suc_eq nth_append)

text \<open>The edges of \<open>A\<close> that are no heavier than \<open>e\<close> connect the ends of \<open>e\<close>.\<close>

definition bridged :: "uedge list \<Rightarrow> uedge \<Rightarrow> bool" where
  "bridged A e \<longleftrightarrow> linked (filter (\<lambda>x. ue_w x \<le> ue_w e) A) (ue_a e) (ue_b e)"

lemma bridged_mono: "set A \<subseteq> set B \<Longrightarrow> bridged A e \<Longrightarrow> bridged B e"
  unfolding bridged_def by (rule linked_mono) auto

lemma bridged_all: "\<forall>x\<in>set A. ue_w x \<le> ue_w e \<Longrightarrow> bridged A e \<longleftrightarrow> linked A (ue_a e) (ue_b e)"
  unfolding bridged_def by (simp add: filter_True)

definition edges_ok :: "nat \<Rightarrow> uedge list \<Rightarrow> bool" where
  "edges_ok n es \<longleftrightarrow> (\<forall>e\<in>set es. ue_a e < n \<and> ue_b e < n)"

definition mst_inv :: "nat \<Rightarrow> uedge list \<Rightarrow> mst \<Rightarrow> bool" where
  "mst_inv n A s \<longleftrightarrow> uf_ok n (ufParent (mst_uf s)) (ufRank (mst_uf s)) \<and>
     (\<forall>x<n. \<forall>y<n. same (ufParent (mst_uf s)) x y \<longleftrightarrow> linked A x y) \<and>
     card (roots n (ufParent (mst_uf s))) + mstCount s = n \<and> mstCount s = length A \<and>
     mstAdj s = adjacency n A \<and> forest_edges A"

lemma mst_invD:
  assumes "mst_inv n A s"
  shows "uf_ok n (ufParent (mst_uf s)) (ufRank (mst_uf s))"
    "x < n \<Longrightarrow> y < n \<Longrightarrow> same (ufParent (mst_uf s)) x y \<longleftrightarrow> linked A x y"
    "card (roots n (ufParent (mst_uf s))) + mstCount s = n" "mstCount s = length A"
    "mstAdj s = adjacency n A" "forest_edges A"
  using assms by (simp_all add: mst_inv_def)

lemma mst_init_inv: "mst_inv n [] (mst_init n)"
proof -
  have "root_of [0..<n] x x" if "x < n" for x using that by (intro root_of.here) simp
  then have "same [0..<n] x y \<longleftrightarrow> x = y" if "x < n" "y < n" for x y
    using that root_of_det unfolding same_def by blast
  moreover have "roots n [0..<n] = {..<n}" by (auto simp: roots_def)
  ultimately show ?thesis
    by (simp add: mst_inv_def mst_init_def uf_init_def uf_ok_def adjacency_def forest_edges_def linked_def link_def)
qed

lemma adjacency_snoc: "adjacency n (A @ [e]) = push_edge (ue_a e) (ue_b e) (adjacency n A)"
  by (simp add: adjacency_def)

lemma mst_step:
  assumes inv: "mst_inv n A s" and e: "ue_a e < n" "ue_b e < n"
  shows "\<exists>u j. ufUnion (ue_a e) (ue_b e) (mst_uf s) = Some (u, j) \<and>
    (if j then mst_inv n (A @ [e]) (s\<lparr>mst_uf := u, mstAdj := push_edge (ue_a e) (ue_b e) (mstAdj s), mstCount := mstCount s + 1\<rparr>)
     else mst_inv n A (s\<lparr>mst_uf := u\<rparr>) \<and> linked A (ue_a e) (ue_b e))"
proof -
  note D = mst_invD [OF inv]
  obtain u j where u: "ufUnion (ue_a e) (ue_b e) (mst_uf s) = Some (u, j)" "uf_ok n (ufParent u) (ufRank u)"
      "j \<longleftrightarrow> \<not> same (ufParent (mst_uf s)) (ue_a e) (ue_b e)"
      "joins n (ue_a e) (ue_b e) (ufParent (mst_uf s)) (ufParent u)"
      "card (roots n (ufParent (mst_uf s))) = card (roots n (ufParent u)) + (if j then 1 else 0)"
    using ufUnion_correct [OF D(1) e] by blast
  have cls: "same (ufParent u) x y \<longleftrightarrow> linked (A @ [e]) x y" if "x < n" "y < n" for x y
    using u(4) D(2) e that by (simp add: joins_def linked_snoc)
  show ?thesis
  proof (cases j)
    case True
    then have "\<not> linked A (ue_a e) (ue_b e)" using u(3) D(2) [OF e] by simp
    then show ?thesis using True u(1,2,5) cls D
      by (intro exI [of _ u] exI [of _ True]) (simp add: mst_inv_def adjacency_snoc forest_snoc)
  next
    case False
    then have "linked A (ue_a e) (ue_b e)" using u(3) D(2) [OF e] by simp
    then have "linked (A @ [e]) x y \<longleftrightarrow> linked A x y" for x y
      unfolding linked_snoc using linked_trans linked_sym by metis
    then show ?thesis using False u(1,2,5) cls D \<open>linked A _ _\<close>
      by (intro exI [of _ u] exI [of _ False]) (simp add: mst_inv_def)
  qed
qed

lemma one_root:
  assumes "uf_ok n p rk" "card (roots n p) = 1" "x < n" "y < n"
  shows "same p x y"
proof -
  obtain z where z: "roots n p = {z}" using assms(2) card_1_singletonE by blast
  have "root_of p u z" if u: "u < n" for u
  proof -
    obtain r where r: "root_of p u r" using root_of_total [OF assms(1) u] by blast
    then have "r \<in> roots n p" using root_of_root root_of_less [OF r assms(1) u] by (simp add: roots_def)
    then show ?thesis using r z by simp
  qed
  then show ?thesis using assms(3,4) unfolding same_def by blast
qed

lemma kruskal_run:
  assumes "mst_inv n A s" "edges_ok n es" "sorted (map ue_w es)" "\<forall>x\<in>set A. \<forall>e\<in>set es. ue_w x \<le> ue_w e" "sorted (map ue_w A)"
  shows "\<exists>t B. kruskal n es s = Some t \<and> mst_inv n B t \<and> sorted (map ue_w B) \<and> set A \<subseteq> set B \<and> set B \<subseteq> set A \<union> set es \<and>
    (\<forall>e\<in>set es. bridged B e)"
  using assms
proof (induction es arbitrary: A s)
  case Nil
  then show ?case by (intro exI [of _ s] exI [of _ A]) simp
next
  case (Cons e es)
  have e: "ue_a e < n" "ue_b e < n" and es: "edges_ok n es" "sorted (map ue_w es)"
    and heavy: "\<forall>x\<in>set es. ue_w e \<le> ue_w x"
    using Cons.prems(2,3) by (auto simp: edges_ok_def)
  show ?case
  proof (cases "mstCount s < n - 1")
    case True
    obtain u j where u: "ufUnion (ue_a e) (ue_b e) (mst_uf s) = Some (u, j)"
      and nxt: "if j then mst_inv n (A @ [e]) (s\<lparr>mst_uf := u, mstAdj := push_edge (ue_a e) (ue_b e) (mstAdj s), mstCount := mstCount s + 1\<rparr>)
        else mst_inv n A (s\<lparr>mst_uf := u\<rparr>) \<and> linked A (ue_a e) (ue_b e)"
      using mst_step [OF Cons.prems(1) e] by blast
    let ?A = "if j then A @ [e] else A"
    let ?s = "if j then s\<lparr>mst_uf := u, mstAdj := push_edge (ue_a e) (ue_b e) (mstAdj s), mstCount := mstCount s + 1\<rparr>
      else s\<lparr>mst_uf := u\<rparr>"
    have "mst_inv n ?A ?s" using nxt by (cases j) simp_all
    moreover have "\<forall>x\<in>set ?A. \<forall>e\<in>set es. ue_w x \<le> ue_w e" using Cons.prems(4) heavy by auto
    moreover have "sorted (map ue_w ?A)" using Cons.prems(4,5) by (auto simp: sorted_append)
    ultimately obtain t B where t: "kruskal n es ?s = Some t" "mst_inv n B t" "sorted (map ue_w B)" "set ?A \<subseteq> set B"
        "set B \<subseteq> set ?A \<union> set es" "\<forall>e\<in>set es. bridged B e"
      using Cons.IH [OF _ es] by blast
    have "linked ?A (ue_a e) (ue_b e)" using nxt linked_edge [of e "A @ [e]"] by auto
    then have "bridged ?A e" using bridged_all [of ?A e] Cons.prems(4) by auto
    then have "bridged B e" using bridged_mono t(4) by blast
    moreover have "kruskal n (e # es) s = Some t" using True u t(1) by (simp split: if_splits)
    moreover have "set A \<subseteq> set ?A" "set ?A \<subseteq> set A \<union> {e}" by auto
    ultimately show ?thesis using t(2-6) by (intro exI [of _ t] exI [of _ B]) auto
  next
    case False
    note D = mst_invD [OF Cons.prems(1)]
    obtain r where r: "root_of (ufParent (mst_uf s)) (ue_a e) r" using root_of_total [OF D(1) e(1)] by blast
    then have "r \<in> roots n (ufParent (mst_uf s))"
      using root_of_root root_of_less [OF r D(1) e(1)] by (simp add: roots_def)
    then have "0 < card (roots n (ufParent (mst_uf s)))" by (auto simp: card_gt_0_iff roots_def)
    then have "card (roots n (ufParent (mst_uf s))) = 1" using D(3) False by linarith
    then have all: "linked A x y" if "x < n" "y < n" for x y
      using one_root [OF D(1)] D(2) that by blast
    have "bridged A f" if "f \<in> set (e # es)" for f
      using that Cons.prems(2,4) all bridged_all [of A f] by (auto simp: edges_ok_def)
    then show ?thesis using False Cons.prems(1,5) by (intro exI [of _ s] exI [of _ A]) auto
  qed
qed

subsection \<open>Its weight is minimal\<close>

definition cluster :: "nat \<Rightarrow> uedge list \<Rightarrow> nat \<Rightarrow> nat set" where
  "cluster n es x = {y. y < n \<and> linked es x y}"

definition clusters :: "nat \<Rightarrow> uedge list \<Rightarrow> nat set set" where
  "clusters n es = cluster n es ` {..<n}"

lemma finite_clusters [simp]: "finite (clusters n es)"
  by (simp add: clusters_def)

lemma cluster_eq: "x < n \<Longrightarrow> y < n \<Longrightarrow> cluster n es x = cluster n es y \<longleftrightarrow> linked es x y"
  unfolding cluster_def by (auto dest: linked_trans) (meson linked_sym linked_trans)

lemma clusters_mono:
  assumes "\<And>x y. x < n \<Longrightarrow> y < n \<Longrightarrow> linked B x y \<Longrightarrow> linked C x y"
  shows "card (clusters n C) \<le> card (clusters n B)"
proof -
  let ?h = "\<lambda>S. {y. y < n \<and> (\<exists>x\<in>S. linked C x y)}"
  have "?h (cluster n B x) = cluster n C x" if "x < n" for x
    unfolding cluster_def using assms that linked_trans [of C x] linked_refl by blast
  then have "clusters n C = ?h ` clusters n B" by (auto simp: clusters_def image_iff)
  then show ?thesis by (simp add: card_image_le)
qed

lemma cluster_mem: "x < n \<Longrightarrow> y < n \<Longrightarrow> x \<in> cluster n es y \<longleftrightarrow> cluster n es x = cluster n es y"
  using cluster_eq linked_sym unfolding cluster_def by blast

lemma cluster_snoc:
  assumes e: "ue_a e < n" "ue_b e < n" and x: "x < n"
  shows "cluster n (es @ [e]) x = (let S = cluster n es (ue_a e) \<union> cluster n es (ue_b e) in
    if x \<in> S then S else cluster n es x)"
proof -
  let ?a = "cluster n es (ue_a e)" and ?b = "cluster n es (ue_b e)"
  have "y \<in> cluster n (es @ [e]) x \<longleftrightarrow> y \<in> (if x \<in> ?a \<union> ?b then ?a \<union> ?b else cluster n es x)" for y
  proof (cases "y < n")
    case True
    have "y \<in> cluster n (es @ [e]) x \<longleftrightarrow> cluster n es x = cluster n es y \<or> cluster n es x = ?a \<and> cluster n es y = ?b \<or>
        cluster n es x = ?b \<and> cluster n es y = ?a"
      unfolding cluster_eq [OF x True] cluster_eq [OF x e(1)] cluster_eq [OF x e(2)] cluster_eq [OF True e(1)]
        cluster_eq [OF True e(2)] linked_snoc [symmetric] using True by (simp add: cluster_def)
    then show ?thesis
      using cluster_mem [OF x e(1)] cluster_mem [OF x e(2)] cluster_mem [OF True e(1)] cluster_mem [OF True e(2)]
        cluster_mem [OF True x] by (metis Un_iff)
  qed (auto simp: cluster_def)
  then show ?thesis unfolding Let_def by (rule set_eqI)
qed

lemma clusters_merge:
  fixes es :: "uedge list"
  assumes e: "ue_a e < n" "ue_b e < n"
  defines "A \<equiv> cluster n es (ue_a e)" and "B \<equiv> cluster n es (ue_b e)"
  shows "clusters n (es @ [e]) = insert (A \<union> B) (clusters n es - {A, B})"
proof (intro subset_antisym subsetI)
  note new = cluster_snoc [OF e, of _ es, folded A_def B_def, unfolded Let_def]
  note memA = cluster_mem [OF _ e(1), of _ es, folded A_def] and memB = cluster_mem [OF _ e(2), of _ es, folded B_def]
  fix S
  {
    assume "S \<in> clusters n (es @ [e])"
    then obtain x where x: "x < n" "S = cluster n (es @ [e]) x" by (auto simp: clusters_def)
    show "S \<in> insert (A \<union> B) (clusters n es - {A, B})"
      using x new [OF x(1)] memA [OF x(1)] memB [OF x(1)] by (auto simp: clusters_def)
  next
    assume "S \<in> insert (A \<union> B) (clusters n es - {A, B})"
    then consider "S = A \<union> B" | x where "x < n" "S = cluster n es x" "S \<noteq> A" "S \<noteq> B" by (auto simp: clusters_def)
    then show "S \<in> clusters n (es @ [e])"
    proof cases
      case 1
      then have "S = cluster n (es @ [e]) (ue_a e)" using new [OF e(1)] memA [OF e(1)] by (simp add: A_def)
      then show ?thesis using e(1) by (simp add: clusters_def)
    next
      case 2
      then have "S = cluster n (es @ [e]) x" using new [OF 2(1)] memA [OF 2(1)] memB [OF 2(1)] by simp
      then show ?thesis using 2(1) by (simp add: clusters_def)
    qed
  }
qed

lemma clusters_snoc:
  assumes e: "ue_a e < n" "ue_b e < n"
  shows "card (clusters n es) = card (clusters n (es @ [e])) + (if linked es (ue_a e) (ue_b e) then 0 else 1)"
proof (cases "linked es (ue_a e) (ue_b e)")
  case True
  have "linked (es @ [e]) x y \<longleftrightarrow> linked es x y" for x y
    unfolding linked_snoc using True linked_trans linked_sym by metis
  then show ?thesis using True by (simp add: clusters_def cluster_def)
next
  case False
  let ?a = "cluster n es (ue_a e)" and ?b = "cluster n es (ue_b e)"
  have ab: "?a \<in> clusters n es" "?b \<in> clusters n es" "?a \<noteq> ?b"
    using e cluster_eq [OF e] False by (auto simp: clusters_def)
  moreover have "?a \<union> ?b \<notin> clusters n es"
  proof
    assume "?a \<union> ?b \<in> clusters n es"
    then obtain z where z: "z < n" "?a \<union> ?b = cluster n es z" by (auto simp: clusters_def)
    then have "?a = cluster n es z" "?b = cluster n es z"
      using cluster_mem [OF e(1) z(1)] cluster_mem [OF e(2) z(1)] cluster_mem [OF e(1) e(1)] cluster_mem [OF e(2) e(2)]
      by blast+
    then show False using ab(3) by simp
  qed
  moreover have "card {?a, ?b} \<le> card (clusters n es)" using ab by (intro card_mono) auto
  ultimately show ?thesis using False clusters_merge [OF e, of es] by (simp add: card_Diff_subset card_insert_if)
qed

lemma clusters_append: "edges_ok n ys \<Longrightarrow> card (clusters n xs) \<le> card (clusters n (xs @ ys)) + length ys"
proof (induction ys rule: rev_induct)
  case (snoc e ys)
  then show ?case using clusters_snoc [of e n "xs @ ys"] by (simp add: edges_ok_def split: if_splits)
qed simp

lemma clusters_forest: "edges_ok n A \<Longrightarrow> forest_edges A \<Longrightarrow> card (clusters n A) + length A = n"
proof (induction A rule: rev_induct)
  case Nil
  have "inj_on (cluster n []) {..<n}" by (rule inj_onI) (simp add: cluster_eq linked_def link_def)
  then show ?case by (simp add: clusters_def card_image)
next
  case (snoc e A)
  then show ?case using clusters_snoc [of e n A] by (simp add: edges_ok_def forest_snoc)
qed

definition total_weight :: "uedge list \<Rightarrow> nat" where
  "total_weight es = sum_list (map ue_w es)"

lemma weight_layers:
  "(\<And>e. e \<in> set es \<Longrightarrow> ue_w e \<le> m) \<Longrightarrow> total_weight es = (\<Sum>k<m. length (filter (\<lambda>e. k < ue_w e) es))"
proof (induction es)
  case (Cons e es)
  have "{k. k < m \<and> k < ue_w e} = {..<ue_w e}" using Cons.prems [of e] by auto
  then have "(\<Sum>k<m. if k < ue_w e then 1 else 0) = ue_w e" by (simp add: sum.If_cases lessThan_def Int_def)
  moreover have "(\<Sum>k<m. length (filter (\<lambda>e. k < ue_w e) (e # es))) =
      (\<Sum>k<m. (if k < ue_w e then 1 else 0) + length (filter (\<lambda>e. k < ue_w e) es))" by (rule sum.cong) auto
  ultimately show ?case using Cons by (simp add: total_weight_def sum.distrib)
qed (simp add: total_weight_def)

lemma forest_take: "forest_edges A \<Longrightarrow> forest_edges (take k A)"
  by (auto simp: forest_edges_def min_def)

lemma sorted_prefix:
  "sorted (map ue_w A) \<Longrightarrow> \<exists>k. filter (\<lambda>e. ue_w e \<le> w) A = take k A"
proof (induction A)
  case (Cons a A)
  show ?case
  proof (cases "ue_w a \<le> w")
    case True
    then show ?thesis using Cons by (auto intro: exI [of _ "Suc _"])
  next
    case False
    then have "filter (\<lambda>e. ue_w e \<le> w) (a # A) = take 0 (a # A)" using Cons.prems by (auto simp: filter_empty_conv)
    then show ?thesis by blast
  qed
qed simp

lemma linked_bridged:
  assumes "\<And>e. e \<in> set es \<Longrightarrow> linked B (ue_a e) (ue_b e)" "linked es x y"
  shows "linked B x y"
proof -
  have "link es \<subseteq> (link B)\<^sup>*" using assms(1) linked_sym unfolding link_def linked_def by blast
  then show ?thesis using assms(2) rtrancl_subset_rtrancl unfolding linked_def by blast
qed

lemma heavy_count:
  assumes ok: "edges_ok n es" and A: "set A \<subseteq> set es" "forest_edges A" "sorted (map ue_w A)" "\<And>e. e \<in> set es \<Longrightarrow> bridged A e"
    and B: "set B \<subseteq> set es" "\<And>x y. linked es x y \<Longrightarrow> linked B x y"
  shows "length (filter (\<lambda>e. k < ue_w e) A) \<le> length (filter (\<lambda>e. k < ue_w e) B)"
proof -
  let ?le = "filter (\<lambda>e. ue_w e \<le> k)" and ?gt = "filter (\<lambda>e. k < ue_w e)"
  have okA: "edges_ok n (?le A)" "edges_ok n A" "edges_ok n (?gt B)" using ok A(1) B(1) by (auto simp: edges_ok_def)
  have fA: "forest_edges (?le A)" using sorted_prefix [OF A(3), of k] forest_take [OF A(2)] by metis
  have split: "length (?le A) + length (?gt A) = length A"
    using sum_length_filter_compl [of "\<lambda>e. ue_w e \<le> k" A] by (simp add: not_le)
  have "linked (?le B) x y \<Longrightarrow> linked (?le A) x y" for x y
  proof (rule linked_bridged)
    fix e assume "e \<in> set (?le B)"
    then have e: "e \<in> set es" "ue_w e \<le> k" using B(1) by auto
    then have "set (filter (\<lambda>x. ue_w x \<le> ue_w e) A) \<subseteq> set (?le A)" by auto
    then show "linked (?le A) (ue_a e) (ue_b e)" using A(4) [OF e(1)] linked_mono unfolding bridged_def by blast
  qed
  then have "card (clusters n (?le A)) \<le> card (clusters n (?le B))" by (rule clusters_mono)
  moreover have "card (clusters n (?le B)) \<le> card (clusters n (?le B @ ?gt B)) + length (?gt B)"
    by (rule clusters_append [OF okA(3)])
  moreover have "card (clusters n (?le B @ ?gt B)) \<le> card (clusters n A)"
  proof (rule clusters_mono)
    fix x y assume "linked A x y"
    then have "linked B x y" using linked_mono [OF A(1)] B(2) by blast
    then show "linked (?le B @ ?gt B) x y" by (rule linked_mono [rotated]) auto
  qed
  ultimately show ?thesis using clusters_forest [OF okA(1) fA] clusters_forest [OF okA(2) A(2)] split by linarith
qed

lemma kruskal_forest:
  assumes "edges_ok n es"
  shows "\<exists>t A. kruskal n (edge_order ids es) (mst_init n) = Some t \<and> mst_inv n A t \<and> sorted (map ue_w A) \<and>
    set A \<subseteq> set es \<and> (\<forall>e\<in>set es. bridged A e)"
proof -
  have "sorted (map (order_key ids) (edge_order ids es))" by (simp add: edge_order_def)
  then have "sorted (map ue_w (edge_order ids es))"
    unfolding sorted_map by (rule sorted_wrt_mono_rel [rotated]) (auto simp: order_key_def less_eq_prod_def)
  then show ?thesis
    using kruskal_run [OF mst_init_inv, of n "edge_order ids es"] assms by (auto simp: edges_ok_def edge_order_def)
qed

text \<open>Property C28. For every merged edge list, Kruskal's loop ends (no parent chain of the
  union-find structure is circular), and the tree edges it pushes form a forest of input edges that
  connects exactly the nodes the graph connects; no other selection of edges that connects them has
  a smaller total weight.\<close>

theorem kruskal_minimum_forest:
  assumes "edges_ok n es"
  shows "\<exists>t A. kruskal n (edge_order ids es) (mst_init n) = Some t \<and> mstAdj t = adjacency n A \<and>
    mstCount t = length A \<and> set A \<subseteq> set es \<and> forest_edges A \<and> (\<forall>x y. linked A x y \<longleftrightarrow> linked es x y) \<and>
    (\<forall>B. set B \<subseteq> set es \<and> (\<forall>x y. linked es x y \<longrightarrow> linked B x y) \<longrightarrow> total_weight A \<le> total_weight B)"
proof -
  obtain t A where t: "kruskal n (edge_order ids es) (mst_init n) = Some t" "mst_inv n A t"
      "sorted (map ue_w A)" "set A \<subseteq> set es" "\<And>e. e \<in> set es \<Longrightarrow> bridged A e"
    using kruskal_forest [OF assms] by blast
  have "linked A (ue_a e) (ue_b e)" if "e \<in> set es" for e
    using t(5) [OF that] linked_mono [of "filter (\<lambda>x. ue_w x \<le> ue_w e) A" A] unfolding bridged_def by auto
  then have span: "linked A x y \<longleftrightarrow> linked es x y" for x y using linked_bridged [of es A] linked_mono [OF t(4)] by blast
  have "total_weight A \<le> total_weight B" if B: "set B \<subseteq> set es" "\<And>x y. linked es x y \<Longrightarrow> linked B x y" for B
  proof -
    let ?m = "Max (ue_w ` set es)"
    have "e \<in> set es \<Longrightarrow> ue_w e \<le> ?m" for e by simp
    then show ?thesis using weight_layers [of A ?m] weight_layers [of B ?m] t(4) B(1)
        sum_mono [OF heavy_count [OF assms t(4) mst_invD(6) [OF t(2)] t(3,5) B], of "{..<?m}"] by (simp add: subset_iff)
  qed
  then show ?thesis using t(1,4) mst_invD(4-6) [OF t(2)] span by (intro exI [of _ t] exI [of _ A]) blast
qed

theorem kruskal_minimum_forest_witness:
  "\<exists>t A. kruskal 3 (edge_order [''a'', ''b'', ''c'']
      [\<lparr>ue_a = 0, ue_b = 1, ue_w = 3\<rparr>, \<lparr>ue_a = 1, ue_b = 2, ue_w = 1\<rparr>, \<lparr>ue_a = 0, ue_b = 2, ue_w = 1\<rparr>]) (mst_init 3) = Some t \<and>
    mstAdj t = adjacency 3 A \<and> mstCount t = length A \<and> forest_edges A"
proof -
  have "edges_ok 3 [\<lparr>ue_a = 0, ue_b = 1, ue_w = 3\<rparr>, \<lparr>ue_a = 1, ue_b = 2, ue_w = 1\<rparr>, \<lparr>ue_a = 0, ue_b = 2, ue_w = 1\<rparr>]"
    by (simp add: edges_ok_def)
  from kruskal_minimum_forest [OF this, of "[''a'', ''b'', ''c'']"] show ?thesis by blast
qed

end
