(* ===== verification/TopoPlace.thy ===== *)
theory TopoPlace
  imports TopoForest
begin

section \<open>Depths and positions of the topology layout\<close>

text \<open>
  The queue loop of \<open>bfs\<close> computes graph distances; the refinement keeps the root where it is and
  moves every other node by at most a tenth of the temperature in each round; \<open>compute\<close> returns, for
  graphs of proper nodes, a position inside the reported bounds for every node.
\<close>

subsection \<open>Breadth-first search computes distances\<close>

definition arcs :: "nat \<Rightarrow> nat list list \<Rightarrow> (nat \<times> nat) set" where
  "arcs n adj = {(u, v). u < n \<and> v < n \<and> v \<in> set (adj ! u)}"

text \<open>While nodes of depth \<open>k\<close> are expanded: depths are lengths of paths and at most \<open>k + 1\<close>, and the
  queue holds reached nodes of depth at least \<open>k\<close> in the order of their depths.\<close>

definition bfs_core :: "nat \<Rightarrow> nat list list \<Rightarrow> nat \<Rightarrow> nat \<Rightarrow> nat option list \<Rightarrow> nat list \<Rightarrow> bool" where
  "bfs_core n adj r k depth queue \<longleftrightarrow>
     length depth = n \<and> depth ! r = Some 0 \<and>
     (\<forall>v d. v < n \<longrightarrow> depth ! v = Some d \<longrightarrow> (r, v) \<in> arcs n adj ^^ d \<and> d \<le> Suc k) \<and>
     (\<forall>v\<in>set queue. v < n \<and> (\<exists>d. depth ! v = Some d \<and> k \<le> d)) \<and>
     sorted (map (\<lambda>v. the (depth ! v)) queue)"

lemma bfs_coreD:
  assumes "bfs_core n adj r k depth queue"
  shows "length depth = n" "depth ! r = Some 0"
    "v < n \<Longrightarrow> depth ! v = Some d \<Longrightarrow> (r, v) \<in> arcs n adj ^^ d"
    "v < n \<Longrightarrow> depth ! v = Some d \<Longrightarrow> d \<le> Suc k"
    "v \<in> set queue \<Longrightarrow> v < n" "v \<in> set queue \<Longrightarrow> \<exists>d. depth ! v = Some d \<and> k \<le> d"
    "sorted (map (\<lambda>v. the (depth ! v)) queue)"
  using assms by (auto simp: bfs_core_def)

text \<open>What a pass over neighbours does: reached nodes keep their depths, and a newly reached node is
  on the queue.\<close>

definition extends :: "nat \<Rightarrow> nat option list \<times> nat list \<Rightarrow> nat option list \<times> nat list \<Rightarrow> bool" where
  "extends n s t \<longleftrightarrow> (\<forall>u d. fst s ! u = Some d \<longrightarrow> fst t ! u = Some d) \<and> set (snd s) \<subseteq> set (snd t) \<and>
     (\<forall>u d. u < n \<longrightarrow> fst t ! u = Some d \<longrightarrow> fst s ! u = None \<longrightarrow> u \<in> set (snd t))"

lemma extends_refl: "extends n s s"
  by (simp add: extends_def)

lemma extends_trans:
  assumes "extends n s t" "extends n t w"
  shows "extends n s w"
proof -
  have "u \<in> set (snd w)" if "u < n" "fst w ! u = Some d" "fst s ! u = None" for u d
    using assms that by (cases "fst t ! u") (auto simp: extends_def)
  then show ?thesis using assms by (auto simp: extends_def)
qed

lemma visit_step:
  assumes core: "bfs_core n adj r k (fst s) (snd s)" and cur: "cur < n" "fst s ! cur = Some k"
    and nb: "nb \<in> set (adj ! cur)"
  shows "bfs_core n adj r k (fst (visit cur nb s)) (snd (visit cur nb s))" (is ?core)
    and "extends n s (visit cur nb s)" (is ?ext)
    and "nb < n \<Longrightarrow> \<exists>e\<le>Suc k. fst (visit cur nb s) ! nb = Some e" (is "_ \<Longrightarrow> ?set")
proof -
  obtain depth queue where s: "s = (depth, queue)" by fastforce
  note D = bfs_coreD [OF core, unfolded s fst_conv snd_conv]
  have "?core \<and> ?ext \<and> (nb < n \<longrightarrow> ?set)"
  proof (cases "nb < n \<and> depth ! nb = None")
    case True
    have v: "visit cur nb s = (depth[nb := Some (Suc k)], queue @ [nb])"
      using True cur D(1) by (simp add: visit_def s next_depth_def)
    have "(r, nb) \<in> arcs n adj ^^ Suc k"
      using D(3) [OF cur(1)] cur nb True by (auto simp: s arcs_def intro: relpow_Suc_I)
    moreover have other: "u \<noteq> nb" if "depth ! u = Some d" for u d using that True by auto
    moreover have "sorted (map (\<lambda>v. the (depth[nb := Some (Suc k)] ! v)) (queue @ [nb]))"
    proof -
      have eq: "map (\<lambda>v. the (depth[nb := Some (Suc k)] ! v)) queue = map (\<lambda>v. the (depth ! v)) queue"
        using D(6) other by fastforce
      have "\<forall>v\<in>set queue. the (depth ! v) \<le> Suc k" using D(4,5,6) by fastforce
      then show ?thesis unfolding map_append eq using D(1,7) True by (simp add: sorted_append)
    qed
    ultimately have "bfs_core n adj r k (depth[nb := Some (Suc k)]) (queue @ [nb])"
      unfolding bfs_core_def using True D(1-6) by (auto simp: nth_list_update)
    then show ?thesis using v True D(1) other by (auto simp: extends_def s nth_list_update)
  next
    case False
    then have "visit cur nb s = s" using D(1) by (auto simp: visit_def s)
    then show ?thesis using False core D(4) by (auto simp: s extends_refl)
  qed
  then show ?core ?ext "nb < n \<Longrightarrow> ?set" by auto
qed

lemma visits_step:
  assumes "bfs_core n adj r k (fst s) (snd s)" "cur < n" "fst s ! cur = Some k" "set nbs \<subseteq> set (adj ! cur)"
  shows "bfs_core n adj r k (fst (fold (visit cur) nbs s)) (snd (fold (visit cur) nbs s)) \<and>
    extends n s (fold (visit cur) nbs s) \<and>
    (\<forall>v\<in>set nbs. v < n \<longrightarrow> (\<exists>e\<le>Suc k. fst (fold (visit cur) nbs s) ! v = Some e))"
  using assms
proof (induction nbs arbitrary: s)
  case (Cons nb nbs)
  note V = visit_step [OF Cons.prems(1-3), of nb]
  have nb: "nb \<in> set (adj ! cur)" and sub: "set nbs \<subseteq> set (adj ! cur)" using Cons.prems(4) by auto
  have "fst (visit cur nb s) ! cur = Some k" using V(2) [OF nb] Cons.prems(3) by (simp add: extends_def)
  note IH = Cons.IH [OF V(1) [OF nb] Cons.prems(2) this sub]
  then have "\<exists>e\<le>Suc k. fst (fold (visit cur) nbs (visit cur nb s)) ! nb = Some e" if "nb < n"
    using V(3) [OF nb that] by (auto simp: extends_def)
  then show ?case using IH extends_trans [OF V(2) [OF nb]] by auto
qed (simp add: extends_refl)

lemma bfs_loop_distances:
  assumes "bfs_core n adj r (case queue of [] \<Rightarrow> k | v # _ \<Rightarrow> the (depth ! v)) depth queue"
    and "\<And>u v d. (u, v) \<in> arcs n adj \<Longrightarrow> depth ! u = Some d \<Longrightarrow> u \<notin> set queue \<Longrightarrow> \<exists>e\<le>Suc d. depth ! v = Some e"
  shows "\<exists>k. bfs_core n adj r k (bfs_loop adj depth queue) [] \<and>
    (\<forall>u v d. (u, v) \<in> arcs n adj \<longrightarrow> bfs_loop adj depth queue ! u = Some d \<longrightarrow>
      (\<exists>e\<le>Suc d. bfs_loop adj depth queue ! v = Some e))"
  using assms
proof (induction adj depth queue arbitrary: k rule: bfs_loop.induct)
  case (1 adj depth)
  then show ?case by (intro exI [of _ k]) simp
next
  case (2 adj depth cur rest)
  obtain k where k: "depth ! cur = Some k" using bfs_coreD(6) [OF 2(2), of cur] by auto
  note core = 2(2) [unfolded list.case k option.sel]
  have rest: "bfs_core n adj r k depth rest" using core by (auto simp: bfs_core_def)
  obtain depth' queue' where s: "fold (visit cur) (adj ! cur) (depth, rest) = (depth', queue')" by fastforce
  have V: "bfs_core n adj r k depth' queue'" "extends n (depth, rest) (depth', queue')"
      "\<And>v. v \<in> set (adj ! cur) \<Longrightarrow> v < n \<Longrightarrow> \<exists>e\<le>Suc k. depth' ! v = Some e"
    using visits_step [of n adj r k "(depth, rest)" cur "adj ! cur"] rest k bfs_coreD(5) [OF core, of cur]
    by (auto simp: s)
  have head: "bfs_core n adj r (case queue' of [] \<Rightarrow> k | v # _ \<Rightarrow> the (depth' ! v)) depth' queue'"
    using V(1) by (cases queue') (fastforce simp: bfs_core_def)+
  have followed: "\<exists>e\<le>Suc d. depth' ! v = Some e"
    if "(u, v) \<in> arcs n adj" "depth' ! u = Some d" "u \<notin> set queue'" for u v d
  proof (cases "u = cur")
    case True
    then show ?thesis using V(2,3) k that by (auto simp: extends_def arcs_def)
  next
    case False
    have "u < n" using that(1) by (simp add: arcs_def)
    then have "depth ! u = Some d" "u \<notin> set rest" using V(2) that(2,3) by (cases "depth ! u"; auto simp: extends_def)+
    then show ?thesis using 2(3) [OF that(1)] False V(2) by (fastforce simp: extends_def)
  qed
  show ?case using 2(1) [OF s [symmetric] refl head followed] by (simp add: s)
qed

lemma bfs_final:
  assumes "r < n"
  shows "\<exists>k. bfs_core n adj r k (bfs n r adj) [] \<and> (\<forall>u v d. (u, v) \<in> arcs n adj \<longrightarrow>
    bfs n r adj ! u = Some d \<longrightarrow> (\<exists>e\<le>Suc d. bfs n r adj ! v = Some e))"
proof -
  let ?d0 = "(replicate n None)[r := Some 0]"
  have "bfs_core n adj r 0 ?d0 [r]"
    using assms by (auto simp: bfs_core_def nth_list_update split: if_splits)
  then have "bfs_core n adj r (case [r] of [] \<Rightarrow> 0 | v # _ \<Rightarrow> the (?d0 ! v)) ?d0 [r]" using assms by simp
  moreover have "\<exists>e\<le>Suc d. ?d0 ! v = Some e" if "(u, v) \<in> arcs n adj" "?d0 ! u = Some d" "u \<notin> set [r]" for u v d
    using that by (auto simp: arcs_def)
  ultimately show ?thesis
    unfolding bfs_def using bfs_loop_distances [where k = 0 and queue = "[r]" and depth = ?d0] by blast
qed

text \<open>Property C29. The queue loop computes distances: the depth of a node is the length of a shortest
  path from the root, and a node has no depth exactly when no path leads to it.\<close>

theorem bfs_computes_distances:
  assumes "r < n" "v < n"
  shows "(bfs n r adj ! v = Some d \<longleftrightarrow> (r, v) \<in> arcs n adj ^^ d \<and> (\<forall>j<d. (r, v) \<notin> arcs n adj ^^ j)) \<and>
    (bfs n r adj ! v = None \<longleftrightarrow> (r, v) \<notin> (arcs n adj)\<^sup>*)"
proof -
  let ?b = "bfs n r adj"
  obtain k where core: "bfs_core n adj r k ?b []"
    and closed: "\<And>u v d. (u, v) \<in> arcs n adj \<Longrightarrow> ?b ! u = Some d \<Longrightarrow> \<exists>e\<le>Suc d. ?b ! v = Some e"
    using bfs_final [OF assms(1)] by blast
  have short: "\<exists>e\<le>j. ?b ! w = Some e" if "(r, w) \<in> arcs n adj ^^ j" for w j
    using that
  proof (induction j arbitrary: w)
    case 0
    then show ?case using bfs_coreD(2) [OF core] by simp
  next
    case (Suc j)
    then obtain u where "(r, u) \<in> arcs n adj ^^ j" "(u, w) \<in> arcs n adj" by (auto elim: relpow_Suc_E)
    then show ?case using Suc.IH closed by (meson Suc_le_mono le_trans)
  qed
  have path: "?b ! v = Some d \<Longrightarrow> (r, v) \<in> arcs n adj ^^ d" for d using bfs_coreD(3) [OF core assms(2)] .
  have "?b ! v = Some d \<longleftrightarrow> (r, v) \<in> arcs n adj ^^ d \<and> (\<forall>j<d. (r, v) \<notin> arcs n adj ^^ j)"
    using short path by (metis le_neq_implies_less not_less option.inject)
  moreover have "?b ! v = None \<longleftrightarrow> (r, v) \<notin> (arcs n adj)\<^sup>*"
    using short path by (metis not_Some_eq option.distinct(1) rtrancl_power)
  ultimately show ?thesis by blast
qed

theorem bfs_computes_distances_witness:
  "bfs 3 0 [[1], [0], []] ! 1 = Some 1 \<longleftrightarrow>
    (0, 1) \<in> arcs 3 [[1], [0], []] ^^ 1 \<and> (\<forall>j<1. (0, 1) \<notin> arcs 3 [[1], [0], []] ^^ j)"
  using bfs_computes_distances [of 0 3 1 "[[1], [0], []]" 1] by simp

subsection \<open>The refinement moves nodes little\<close>

definition pt :: "coords \<Rightarrow> nat \<Rightarrow> complex" where
  "pt c i = Complex (fst c ! i) (snd c ! i)"

definition sized :: "nat \<Rightarrow> coords \<Rightarrow> bool" where
  "sized n c \<longleftrightarrow> length (fst c) = n \<and> length (snd c) = n"

lemma move_sized [simp]: "sized n (move temp r d i c) \<longleftrightarrow> sized n c"
  by (cases c; cases d) (simp add: move_def sized_def Let_def)

lemma move_other: "j \<noteq> i \<Longrightarrow> pt (move temp r d i c) j = pt c j"
  by (cases c; cases d) (simp add: move_def pt_def Let_def)

lemma move_root: "pt (move temp r d i c) r = pt c r"
  by (cases c; cases d) (auto simp: move_def pt_def Let_def)

lemma move_bound:
  assumes "sized n c" "i < n" "0 \<le> temp"
  shows "cmod (pt (move temp r d i c) i - pt c i) \<le> temp / 10"
proof -
  obtain xs ys dx dy where c: "c = (xs, ys)" "d = (dx, dy)" by fastforce
  let ?m = "sqrt (dx ! i * dx ! i + dy ! i * dy ! i)"
  let ?s = "if ?m < temp then 1 else temp / ?m"
  have m: "cmod (Complex (dx ! i) (dy ! i)) = ?m" by (simp add: cmod_def power2_eq_square)
  show ?thesis
  proof (cases "i = r \<or> ?m < 0.01")
    case True
    then have "move temp r d i c = c" by (auto simp: c move_def Let_def)
    then show ?thesis using assms(3) by simp
  next
    case False
    have "pt (move temp r d i c) i - pt c i = of_real (?s / 10) * Complex (dx ! i) (dy ! i)"
      using False assms(1,2) by (simp add: c move_def pt_def sized_def Let_def complex_eq_iff)
    then have "cmod (pt (move temp r d i c) i - pt c i) = \<bar>?s / 10\<bar> * ?m" by (simp only: norm_mult norm_of_real m)
    moreover have "0.01 \<le> ?m" using False by (simp only: de_Morgan_disj not_less)
    then have "0 < ?m" by (rule less_le_trans [rotated]) simp
    ultimately show ?thesis using assms(3) by (auto simp: field_simps)
  qed
qed

lemma moves_bound:
  assumes "sized n c" "j < n" "0 \<le> temp" "distinct is"
  shows "cmod (pt (fold (move temp r d) is c) j - pt c j) \<le> (if j \<in> set is then temp / 10 else 0)"
  using assms
proof (induction "is" arbitrary: c)
  case (Cons i "is")
  let ?c = "move temp r d i c"
  have IH: "cmod (pt (fold (move temp r d) is ?c) j - pt ?c j) \<le> (if j \<in> set is then temp / 10 else 0)"
    using Cons by simp
  show ?case
  proof (cases "j = i")
    case True
    then have "pt (fold (move temp r d) is ?c) j = pt ?c j" using IH Cons.prems(4) by simp
    then show ?thesis using True move_bound [OF Cons.prems(1) _ Cons.prems(3)] Cons.prems(2) by simp
  next
    case False
    then show ?thesis using IH move_other [OF False, of temp r d c] by simp
  qed
qed simp

lemma force_round_facts:
  assumes "sized n c" "j < n" "it < iters"
  shows "sized n (force_round n r es iters it c)"
    "pt (force_round n r es iters it c) r = pt c r"
    "cmod (pt (force_round n r es iters it c) j - pt c j) \<le> sqrt (FR_AREA / real n) * (1 - real it / real iters) / 10"
proof -
  let ?temp = "sqrt (FR_AREA / real n) * (1 - real it / real iters)"
  let ?d = "attract (sqrt (FR_AREA / real n)) c es (repel n (sqrt (FR_AREA / real n)) c (replicate n 0, replicate n 0))"
  have eq: "force_round n r es iters it c = fold (move ?temp r ?d) [0..<n] c" by (simp add: force_round_def Let_def)
  show "sized n (force_round n r es iters it c)"
    unfolding eq by (rule fold_inv) (use assms(1) in simp_all)
  show "pt (force_round n r es iters it c) r = pt c r"
    unfolding eq by (rule fold_obs_same [of _ "\<lambda>c. pt c r"]) (rule move_root)
  have "0 \<le> 1 - real it / real iters" using assms(3) by (simp add: field_simps)
  then have "0 \<le> ?temp" by (simp add: FR_AREA_def)
  then show "cmod (pt (force_round n r es iters it c) j - pt c j) \<le> ?temp / 10"
    unfolding eq using moves_bound [OF assms(1,2), of ?temp "[0..<n]" r ?d] assms(2) by simp
qed

lemma rounds_facts:
  assumes "sized n c" "j < n" "m \<le> iters"
  shows "sized n (fold (force_round n r es iters) [0..<m] c) \<and> pt (fold (force_round n r es iters) [0..<m] c) r = pt c r \<and>
    cmod (pt (fold (force_round n r es iters) [0..<m] c) j - pt c j) \<le>
      (\<Sum>it<m. sqrt (FR_AREA / real n) * (1 - real it / real iters) / 10)"
  using assms(3)
proof (induction m)
  case (Suc m)
  let ?c = "fold (force_round n r es iters) [0..<m] c"
  have IH: "sized n ?c" "pt ?c r = pt c r"
      "cmod (pt ?c j - pt c j) \<le> (\<Sum>it<m. sqrt (FR_AREA / real n) * (1 - real it / real iters) / 10)"
    using Suc by auto
  have "m < iters" using Suc.prems by simp
  note F = force_round_facts [OF IH(1) assms(2) this, of r es]
  have "cmod (pt (force_round n r es iters m ?c) j - pt c j) \<le>
      cmod (pt (force_round n r es iters m ?c) j - pt ?c j) + cmod (pt ?c j - pt c j)"
    using norm_triangle_ineq [of "pt (force_round n r es iters m ?c) j - pt ?c j" "pt ?c j - pt c j"] by simp
  then have "cmod (pt (force_round n r es iters m ?c) j - pt c j) \<le>
      (\<Sum>it<Suc m. sqrt (FR_AREA / real n) * (1 - real it / real iters) / 10)"
    unfolding sum.lessThan_Suc using F(3) IH(3) by linarith
  then show ?case using F(1,2) IH(2) by simp
qed (use assms(1) in simp)

lemma temperature_sum: "(\<Sum>it<m. k * (1 - real it / 120) / 10) = k * (real m - real m * (real m - 1) / 240) / 10"
  by (induction m) (simp_all add: field_simps)

lemma temperatures: "(\<Sum>it<120. k * (1 - real it / 120) / 10) = k * 6.05"
  using temperature_sum [of k 120] by simp

text \<open>The refinement keeps the pinned root exactly where it was and moves no node further
  than 6.05 times the ideal edge length (500 over the square root of the number of nodes) from
  its place on the rings.\<close>

theorem forceRefine_moves_little:
  assumes "2 \<le> n" "length xs = n" "length ys = n" "j < n"
  shows "pt (forceRefine n r es FR_ITERS (xs, ys)) r = pt (xs, ys) r \<and>
    cmod (pt (forceRefine n r es FR_ITERS (xs, ys)) j - pt (xs, ys) j) \<le> 6.05 * (500 / sqrt (real n))"
proof -
  have "sqrt FR_AREA = 500" by (simp add: FR_AREA_def real_sqrt_unique)
  then have kk: "sqrt (FR_AREA / real n) = 500 / sqrt (real n)" by (simp add: real_sqrt_divide)
  have "sized n (xs, ys)" using assms by (simp add: sized_def)
  from rounds_facts [OF this assms(4) order_refl, of r es FR_ITERS, unfolded kk FR_ITERS_def of_nat_numeral temperatures]
  show ?thesis using assms(1) by (simp add: forceRefine_def FR_ITERS_def mult.commute)
qed

theorem forceRefine_moves_little_witness:
  "pt (forceRefine 2 0 [\<lparr>ue_a = 0, ue_b = 1, ue_w = 1\<rparr>] FR_ITERS ([0, 150], [0, 0])) 0 = pt ([0, 150], [0, 0]) 0"
  using forceRefine_moves_little [of 2 "[0, 150]" "[0, 0]" 1 0 "[\<lparr>ue_a = 0, ue_b = 1, ue_w = 1\<rparr>]"] by simp

subsection \<open>compute returns\<close>

lemma map_of_own_put:
  "map_of (own_put k v m) k' = (if k' = k \<and> k \<noteq> ''__proto__'' then Some v else map_of m k')"
  unfolding own_put_def by (cases "k = ''__proto__''") (simp_all only: map_of_put if_True if_False simp_thms)

lemma idxOf_range: "map_of (idxOf ids) k = Some i \<Longrightarrow> i < length ids \<and> ids ! i = k"
proof -
  let ?P = "\<lambda>m. \<forall>k i. map_of m k = Some i \<longrightarrow> i < length ids \<and> ids ! i = k"
  have "?P (fold (\<lambda>i m. own_put (ids ! i) i m) [0..<length ids] [])"
  proof (rule fold_inv)
    fix x m assume x: "x \<in> set [0..<length ids]" and IH: "?P m"
    show "?P (own_put (ids ! x) x m)"
    proof (intro allI impI)
      fix k i assume "map_of (own_put (ids ! x) x m) k = Some i"
      then consider "k = ids ! x" "i = x" | "map_of m k = Some i" unfolding map_of_own_put by (metis option.inject)
      then show "i < length ids \<and> ids ! i = k" by cases (use x IH in simp_all)
    qed
  qed simp
  then show "map_of (idxOf ids) k = Some i \<Longrightarrow> i < length ids \<and> ids ! i = k" unfolding idxOf_def by blast
qed

lemma look_index: "look (idxOf ids) k = Index i \<Longrightarrow> i < length ids"
  by (auto simp: look_def idxOf_range split: option.splits if_splits)

lemma look_proper: "k \<notin> set inherited \<Longrightarrow> look (idxOf ids) k \<noteq> Inherited k'"
  by (auto simp: look_def split: option.splits)

definition proper_edge :: "jval \<Rightarrow> bool" where
  "proper_edge e \<longleftrightarrow> idKey (jget e ''from'') \<notin> set inherited \<and> idKey (jget e ''to'') \<notin> set inherited"

lemma set_put: "set (map snd (put k v m)) \<subseteq> insert v (set (map snd m))"
proof (induction m)
  case (Cons kv m)
  then show ?case by (cases kv) auto
qed simp

lemma edge_step_ok:
  assumes "proper_edge e" "edges_ok (length ids) (map snd m)"
  shows "\<exists>m'. edge_step (idxOf ids) e m = Some m' \<and> edges_ok (length ids) (map snd m')"
proof -
  have merge: "edges_ok (length ids) (map snd (merge_edge lo hi w m))" if "lo < length ids" "hi < length ids" for lo hi w
  proof -
    let ?ok = "\<lambda>e. ue_a e < length ids \<and> ue_b e < length ids"
    have put: "?ok v \<Longrightarrow> edges_ok (length ids) (map snd (put (edge_key lo hi) v m))" for v
      using set_put [of "edge_key lo hi" v m] assms(2) unfolding edges_ok_def by blast
    show ?thesis
    proof (cases "map_of m (edge_key lo hi)")
      case None
      then show ?thesis using put that by (simp add: merge_edge_def)
    next
      case (Some prev)
      then have "prev \<in> set (map snd m)" using map_of_SomeD [OF Some] by force
      then have "?ok prev" using assms(2) by (auto simp: edges_ok_def)
      then show ?thesis using Some put [of "prev\<lparr>ue_w := w\<rparr>"] assms(2) by (simp add: merge_edge_def)
    qed
  qed
  show ?thesis
    using assms look_proper [of "idKey (jget e ''from'')" ids] look_proper [of "idKey (jget e ''to'')" ids]
      look_index [of ids] merge
    by (auto simp: edge_step_def proper_edge_def split: found.splits)
qed

lemma edgeMap_ok:
  "list_all proper_edge es \<Longrightarrow> edges_ok (length ids) (map snd m) \<Longrightarrow>
   \<exists>m'. edgeMap (idxOf ids) es m = Some m' \<and> edges_ok (length ids) (map snd m')"
proof (induction es arbitrary: m)
  case (Cons e es)
  then show ?case using edge_step_ok [of e ids m] by fastforce
qed simp

lemma gear_root_in: "gear_root ids deg nodes is b d = Some r \<Longrightarrow> r \<in> set is \<or> b = Some r"
  by (induction ids deg nodes "is" b d rule: gear_root.induct) (auto simp: Let_def split: if_splits)

lemma first_role_in: "first_role ids nodes s = Some r \<Longrightarrow> r < length nodes"
proof -
  have "\<forall>r. first_role ids nodes s = Some r \<longrightarrow> r < length nodes"
    unfolding first_role_def by (rule fold_inv) auto
  then show "first_role ids nodes s = Some r \<Longrightarrow> r < length nodes" by blast
qed

lemma rootIdx_in:
  assumes "nodes \<noteq> []" "length ids = length nodes"
    and "nullish (jget opts ''rootHint'') \<or> idKey (jget opts ''rootHint'') \<notin> set inherited"
  shows "\<exists>r. rootIdx opts ids deg nodes = Some r \<and> r < length nodes"
proof -
  have "length (by_id ids [0..<length nodes]) = length nodes" by (simp add: by_id_def)
  then have "by_id ids [0..<length nodes] \<noteq> []" using assms(1) by auto
  then have "hd (by_id ids [0..<length nodes]) \<in> set (by_id ids [0..<length nodes])" by simp
  then have fb: "hd (by_id ids [0..<length nodes]) < length nodes" by (simp add: by_id_def)
  have ch: "gear_root ids deg nodes [0..<length nodes] None (-1) = Some r \<Longrightarrow> r < length nodes" for r
    using gear_root_in by fastforce
  show ?thesis
  proof -
    let ?c = "if view_of opts nodes = ''network'' then gear_root ids deg nodes [0..<length nodes] None (-1)
      else case first_role ids nodes ''server'' of Some i \<Rightarrow> Some i | None \<Rightarrow> first_role ids nodes ''monitor''"
    let ?r = "case ?c of Some i \<Rightarrow> i | None \<Rightarrow> hd (by_id ids [0..<length nodes])"
    have "?c = Some i \<Longrightarrow> i < length nodes" for i
      using ch first_role_in [of ids nodes "''server''"] first_role_in [of ids nodes "''monitor''"]
      by (cases "view_of opts nodes = ''network''") (simp_all split: option.splits)
    then have r: "?r < length nodes" using fb by (cases ?c) simp_all
    have eq: "rootIdx opts ids deg nodes = (if nullish (jget opts ''rootHint'') then Some ?r
        else case look (idxOf ids) (idKey (jget opts ''rootHint'')) of
          Index i \<Rightarrow> Some i | Inherited _ \<Rightarrow> None | Absent \<Rightarrow> Some ?r)"
      by (simp only: rootIdx_def Let_def)
    show ?thesis
    proof (cases "nullish (jget opts ''rootHint'')")
      case True
      then show ?thesis using r eq by simp
    next
      case False
      then have "look (idxOf ids) (idKey (jget opts ''rootHint'')) \<noteq> Inherited k" for k
        using assms(3) by (intro look_proper) simp
      then show ?thesis using assms(2) r look_index [of ids "idKey (jget opts ''rootHint'')"] unfolding eq if_not_P [OF False]
        by (cases "look (idxOf ids) (idKey (jget opts ''rootHint''))") auto
    qed
  qed
qed

lemma depths_root: "r < n \<Longrightarrow> length (depths n r t adj) = n \<and> depths n r t adj ! r = Some 0"
  using bfs_final [of r n] bfs_coreD(1,2) unfolding depths_def by (metis (full_types))

lemma place_facts: "sized n (place_at i p c) \<longleftrightarrow> sized n c" "j \<noteq> i \<Longrightarrow> pt (place_at i p c) j = pt c j"
  "sized n c \<Longrightarrow> i < n \<Longrightarrow> pt (place_at i p c) i = Complex (fst p) (snd p)"
  by (cases c; simp add: place_at_def sized_def pt_def)+

lemma group_set: "set (group_at ids depth d) = {i. i < length depth \<and> depth ! i = Some d}"
  by (auto simp: group_at_def by_id_def)

lemma disconnected_set: "set (disconnected ids depth) = {i. i < length depth \<and> depth ! i = None}"
  by (auto simp: disconnected_def by_id_def)

lemma place_group_root:
  assumes "depth ! r = Some 0" "pt c r = 0" "sized (length depth) c"
  shows "pt (place_group ids depth d c) r = 0 \<and> sized (length depth) (place_group ids depth d c)"
proof -
  let ?g = "group_at ids depth d"
  have step: "pt (place_at (?g ! i) (ring_point d (length ?g) i (?g ! i)) c') r = 0"
    if "i < length ?g" "pt c' r = 0" "sized (length depth) c'" for i c'
  proof (cases "?g ! i = r")
    case True
    have "r \<in> set ?g" using True that(1) nth_mem by blast
    then have "r < length depth" "d = 0" using assms(1) by (auto simp: group_set)
    then show ?thesis using True that(3) by (simp add: place_facts(3) ring_point_def complex_eq_iff)
  next
    case False
    then show ?thesis using that(2) place_facts(2) by metis
  qed
  show ?thesis unfolding place_group_def Let_def
    by (rule fold_inv [where P = "\<lambda>c. pt c r = 0 \<and> sized (length depth) c"])
      (use assms step in \<open>auto simp: place_facts(1)\<close>)
qed

lemma place_outer_root:
  assumes "depth ! r = Some 0" "pt c r = 0" "sized (length depth) c"
  shows "pt (place_outer ids depth c) r = 0 \<and> sized (length depth) (place_outer ids depth c)"
proof -
  have "r \<noteq> disconnected ids depth ! i" if "i < length (disconnected ids depth)" for i
    using nth_mem [OF that] assms(1) by (auto simp: disconnected_set)
  then show ?thesis unfolding place_outer_def Let_def
    by (intro fold_inv [where P = "\<lambda>c. pt c r = 0 \<and> sized (length depth) c"])
      (use assms in \<open>auto simp: place_facts(1,2)\<close>)
qed

lemma radial_root:
  assumes "depth ! r = Some 0" "r < length depth"
  shows "pt (radial ids depth) r = 0 \<and> sized (length depth) (radial ids depth)"
proof -
  have "pt (replicate (length depth) 0, replicate (length depth) 0) r = 0 \<and>
      sized (length depth) (replicate (length depth) 0, replicate (length depth) 0)"
    using assms(2) by (simp add: pt_def sized_def complex_eq_iff)
  then have "pt (fold (place_group ids depth) [0..<Suc (maxDepth depth)] (replicate (length depth) 0, replicate (length depth) 0)) r = 0 \<and>
      sized (length depth) (fold (place_group ids depth) [0..<Suc (maxDepth depth)] (replicate (length depth) 0, replicate (length depth) 0))"
    by (rule fold_inv [where P = "\<lambda>c. pt c r = 0 \<and> sized (length depth) c"])
      (use place_group_root [OF assms(1)] in blast)
  then show ?thesis unfolding radial_def using place_outer_root [OF assms(1)] by blast
qed

lemma assemble_facts:
  assumes "m \<le> length ids" "i < m" "distinct ids" "''__proto__'' \<notin> set ids"
  shows "let r = fold (emit ids c) [0..<m] emptyResult in
    map_of (positions r) (ids ! i) = Some (fst c ! i, snd c ! i) \<and>
    minX r \<le> fst c ! i \<and> fst c ! i \<le> maxX r \<and> minY r \<le> snd c ! i \<and> snd c ! i \<le> maxY r"
  using assms(1,2)
proof (induction m)
  case (Suc m)
  let ?r = "fold (emit ids c) [0..<m] emptyResult"
  have r: "fold (emit ids c) [0..<Suc m] emptyResult = emit ids c m ?r" by simp
  have proto: "ids ! m \<noteq> ''__proto__''" using assms(4) Suc.prems(1) by (metis Suc_le_lessD nth_mem)
  show ?case
  proof (cases "i = m")
    case True
    then show ?thesis unfolding r Let_def using proto by (simp add: emit_def Let_def map_of_own_put)
  next
    case False
    then have "i < m" "ids ! i \<noteq> ids ! m" using Suc.prems assms(3) by (auto simp: nth_eq_iff_index_eq)
    then show ?thesis using Suc unfolding r Let_def by (auto simp: emit_def Let_def map_of_own_put)
  qed
qed simp

lemma assemble_keys:
  "''__proto__'' \<notin> set ids \<Longrightarrow> set (map fst (positions (assemble ids c))) = set ids"
proof -
  assume np: "''__proto__'' \<notin> set ids"
  have "set (map fst (positions (fold (emit ids c) [0..<m] emptyResult))) = set (take m ids)" if "m \<le> length ids" for m
    using that
  proof (induction m)
    case (Suc m)
    then have "ids ! m \<noteq> ''__proto__''" using np by (metis Suc_le_lessD nth_mem)
    then show ?case using Suc by (simp add: emit_def Let_def own_put_def take_Suc_conv_app_nth keys_put [unfolded set_map])
  qed (simp add: emptyResult_def)
  then show ?thesis by (simp add: assemble_def)
qed

subsection \<open>Which node is the root\<close>

definition gear :: "jval \<Rightarrow> bool" where
  "gear nd \<longleftrightarrow> jget nd ''kind'' = JStr ''gear''"

definition gateway :: "jval \<Rightarrow> bool" where
  "gateway nd \<longleftrightarrow> gear nd \<and> jget nd ''gearKind'' = JStr ''gateway''"

definition least_id :: "string list \<Rightarrow> nat set \<Rightarrow> nat \<Rightarrow> bool" where
  "least_id ids S r \<longleftrightarrow> r \<in> S \<and> (\<forall>j\<in>S. ids ! r \<le> ids ! j)"

definition most_connected :: "string list \<Rightarrow> nat list \<Rightarrow> nat set \<Rightarrow> nat \<Rightarrow> bool" where
  "most_connected ids deg S r \<longleftrightarrow> r \<in> S \<and> (\<forall>j\<in>S. deg ! j < deg ! r \<or> deg ! j = deg ! r \<and> ids ! r \<le> ids ! j)"

text \<open>The root that the layout is to have: the node the hint names; else, for a network, its first gateway or its most
  connected gear; else, for monitoring, the server of least id or the monitor of least id; else the node of
  least id.\<close>

definition is_root :: "jval \<Rightarrow> string list \<Rightarrow> nat list \<Rightarrow> jval list \<Rightarrow> nat \<Rightarrow> bool" where
  "is_root opts ids deg nodes r \<longleftrightarrow>
     (let hint = jget opts ''rootHint''; sel = (\<lambda>P. {i. i < length nodes \<and> P (nodes ! i)}); role = (\<lambda>x nd. jget nd ''role'' = JStr x) in
      if \<not> nullish hint \<and> idKey hint \<in> set ids then r < length ids \<and> ids ! r = idKey hint
      else if view_of opts nodes = ''network'' then
        (if sel gateway \<noteq> {} then r \<in> sel gateway \<and> (\<forall>j\<in>sel gateway. r \<le> j)
         else if sel gear \<noteq> {} then most_connected ids deg (sel gear) r else least_id ids {..<length nodes} r)
      else if sel (role ''server'') \<noteq> {} then least_id ids (sel (role ''server'')) r
      else if sel (role ''monitor'') \<noteq> {} then least_id ids (sel (role ''monitor'')) r
      else least_id ids {..<length nodes} r)"

definition best_of :: "(nat set \<Rightarrow> nat \<Rightarrow> bool) \<Rightarrow> nat set \<Rightarrow> nat option \<Rightarrow> bool" where
  "best_of Q S res = (case res of None \<Rightarrow> S = {} | Some r \<Rightarrow> Q S r)"

lemma gear_root_best:
  assumes "\<forall>i\<in>set is. \<not> gateway (nodes ! i)" "best_of (most_connected ids deg) S b" "d = (case b of None \<Rightarrow> - 1 | Some g \<Rightarrow> int (deg ! g))"
  shows "best_of (most_connected ids deg) (S \<union> {i \<in> set is. gear (nodes ! i)}) (gear_root ids deg nodes is b d)"
  using assms
proof (induction "is" arbitrary: S b d)
  case (Cons i "is")
  let ?S = "if gear (nodes ! i) then insert i S else S"
  have S: "S \<union> {j \<in> set (i # is). gear (nodes ! j)} = ?S \<union> {j \<in> set is. gear (nodes ! j)}" by auto
  let ?new = "gear (nodes ! i) \<and> (int (deg ! i) > d \<or> int (deg ! i) = d \<and> (case b of None \<Rightarrow> False | Some g \<Rightarrow> cmpId (ids ! i) (ids ! g) < 0))"
  have g: "gear_root ids deg nodes (i # is) b d = (if ?new then gear_root ids deg nodes is (Some i) (int (deg ! i)) else gear_root ids deg nodes is b d)"
    using Cons.prems(1) by (auto simp: gear_def gateway_def Let_def)
  show ?case
  proof (cases ?new)
    case True
    then have "best_of (most_connected ids deg) ?S (Some i)" using Cons.prems(2,3)
      by (auto simp: best_of_def most_connected_def cmpId_def split: option.splits if_splits)
    then show ?thesis unfolding S g if_P [OF True] using Cons.IH [of ?S "Some i"] Cons.prems(1) by simp
  next
    case False
    then have "best_of (most_connected ids deg) ?S b" using Cons.prems(2,3)
      by (auto simp: best_of_def most_connected_def cmpId_def not_less split: option.splits if_splits)
    then show ?thesis unfolding S g if_not_P [OF False] using Cons.IH [of ?S b] Cons.prems(1,3) by simp
  qed
qed simp

lemma gear_root_gateway:
  assumes "i \<in> set is" "gateway (nodes ! i)" "sorted is"
  shows "\<exists>r. gear_root ids deg nodes is b d = Some r \<and> r \<in> set is \<and> gateway (nodes ! r) \<and> (\<forall>j\<in>set is. gateway (nodes ! j) \<longrightarrow> r \<le> j)"
  using assms
proof (induction "is" arbitrary: b d)
  case (Cons k "is")
  show ?case
  proof (cases "gateway (nodes ! k)")
    case True
    then show ?thesis using Cons.prems(3) by (intro exI [of _ k]) (auto simp: gear_def gateway_def Let_def)
  next
    case False
    then have "\<exists>b' d'. gear_root ids deg nodes (k # is) b d = gear_root ids deg nodes is b' d'" by (auto simp: gear_def gateway_def Let_def)
    then obtain b' d' where g: "gear_root ids deg nodes (k # is) b d = gear_root ids deg nodes is b' d'" by blast
    have "i \<in> set is" using Cons.prems(1,2) False by auto
    then show ?thesis unfolding g using Cons.IH [of b' d'] Cons.prems(2,3) False by auto
  qed
qed simp

lemma first_role_best:
  "best_of (least_id ids) {i. i < length nodes \<and> jget (nodes ! i) ''role'' = JStr x} (first_role ids nodes x)"
proof -
  let ?step = "\<lambda>i f. if jget (nodes ! i) ''role'' = JStr x \<and> (case f of None \<Rightarrow> True | Some g \<Rightarrow> cmpId (ids ! i) (ids ! g) < 0) then Some i else f"
  have "best_of (least_id ids) (S \<union> {i \<in> set is. jget (nodes ! i) ''role'' = JStr x}) (fold ?step is f)" if "best_of (least_id ids) S f" for S f "is"
    using that
  proof (induction "is" arbitrary: S f)
    case (Cons i "is")
    let ?S = "if jget (nodes ! i) ''role'' = JStr x then insert i S else S"
    have S: "S \<union> {j \<in> set (i # is). jget (nodes ! j) ''role'' = JStr x} = ?S \<union> {j \<in> set is. jget (nodes ! j) ''role'' = JStr x}" by auto
    have "best_of (least_id ids) ?S (?step i f)" using Cons.prems
      by (auto simp: best_of_def least_id_def cmpId_def split: option.splits if_splits intro: order.trans less_imp_le)
    then show ?case unfolding S using Cons.IH by simp
  qed simp
  from this [of "{}" None "[0..<length nodes]"] show ?thesis by (simp add: best_of_def first_role_def)
qed

lemma by_id_least: "n \<noteq> 0 \<Longrightarrow> least_id ids {..<n} (hd (by_id ids [0..<n]))"
proof -
  assume n: "n \<noteq> 0"
  let ?l = "by_id ids [0..<n]"
  have st: "set ?l = {..<n}" by (auto simp: by_id_def)
  have "length ?l = n" by (simp add: by_id_def)
  then have ne: "?l \<noteq> []" using n by fastforce
  have "sorted (map (\<lambda>i. ids ! i) ?l)" by (simp add: by_id_def)
  then have "\<forall>j\<in>set ?l. ids ! hd ?l \<le> ids ! j" using ne by (cases ?l) auto
  then show ?thesis using st ne hd_in_set [OF ne] by (simp add: least_id_def)
qed

lemma idxOf_get: "distinct ids \<Longrightarrow> ''__proto__'' \<notin> set ids \<Longrightarrow> i < length ids \<Longrightarrow> map_of (idxOf ids) (ids ! i) = Some i"
proof -
  assume d: "distinct ids" "''__proto__'' \<notin> set ids" and i: "i < length ids"
  have "map_of (fold (\<lambda>i m. own_put (ids ! i) i m) [0..<k] []) (ids ! i) = (if i < k then Some i else None)" if "k \<le> length ids" for k
    using that
  proof (induction k)
    case (Suc k)
    have "ids ! k \<noteq> ''__proto__''" using d(2) Suc.prems by (metis Suc_le_lessD nth_mem)
    moreover have "ids ! i = ids ! k \<longleftrightarrow> i = k" using d(1) i Suc.prems by (simp add: nth_eq_iff_index_eq)
    ultimately show ?case using Suc by (simp add: map_of_own_put)
  qed simp
  then show ?thesis using i by (simp add: idxOf_def)
qed

lemma rootIdx_is_root:
  assumes "rootIdx opts ids deg nodes = Some r" "nodes \<noteq> []" "length ids = length nodes" "distinct ids" "list_all (\<lambda>k. k \<notin> set inherited) ids"
    and "nullish (jget opts ''rootHint'') \<or> idKey (jget opts ''rootHint'') \<notin> set inherited"
  shows "is_root opts ids deg nodes r"
proof (cases "\<not> nullish (jget opts ''rootHint'') \<and> idKey (jget opts ''rootHint'') \<in> set ids")
  case True
  then obtain i where i: "i < length ids" "ids ! i = idKey (jget opts ''rootHint'')" by (auto simp: in_set_conv_nth)
  have "''__proto__'' \<notin> set ids" using assms(5) by (auto simp: list_all_iff inherited_def)
  from idxOf_get [OF assms(4) this i(1)] have "look (idxOf ids) (idKey (jget opts ''rootHint'')) = Index i" by (simp add: look_def i(2))
  then have "r = i" using assms(1) True by (simp add: rootIdx_def Let_def)
  then show ?thesis unfolding is_root_def Let_def if_P [OF True] using i by simp
next
  case False
  let ?chosen = "if view_of opts nodes = ''network'' then gear_root ids deg nodes [0..<length nodes] None (-1)
      else case first_role ids nodes ''server'' of Some i \<Rightarrow> Some i | None \<Rightarrow> first_role ids nodes ''monitor''"
  have "look (idxOf ids) (idKey (jget opts ''rootHint'')) = Absent" if "\<not> nullish (jget opts ''rootHint'')"
  proof -
    have "map_of (idxOf ids) (idKey (jget opts ''rootHint'')) = None"
      using that False idxOf_range [of ids "idKey (jget opts ''rootHint'')"] by (metis nth_mem option.exhaust)
    then show ?thesis using that assms(6) by (simp add: look_def)
  qed
  then have r: "r = (case ?chosen of Some i \<Rightarrow> i | None \<Rightarrow> hd (by_id ids [0..<length nodes]))"
    using assms(1) by (cases "nullish (jget opts ''rootHint'')") (simp_all add: rootIdx_def Let_def)
  have least: "least_id ids {..<length nodes} (hd (by_id ids [0..<length nodes]))" using assms(2) by (intro by_id_least) simp
  show ?thesis
  proof (cases "view_of opts nodes = ''network''")
    case net: True
    show ?thesis
    proof (cases "\<exists>i<length nodes. gateway (nodes ! i)")
      case True
      then obtain i where "i \<in> set [0..<length nodes]" "gateway (nodes ! i)" by auto
      from gear_root_gateway [OF this, of ids deg None "-1"] True show ?thesis
        unfolding is_root_def Let_def if_not_P [OF False] r using net by auto
    next
      case no_gw: False
      then have "best_of (most_connected ids deg) {i. i < length nodes \<and> gear (nodes ! i)} (gear_root ids deg nodes [0..<length nodes] None (-1))"
        using gear_root_best [of "[0..<length nodes]" nodes ids deg "{}" None "-1"] by (simp add: best_of_def)
      then show ?thesis unfolding is_root_def Let_def if_not_P [OF False] r using net no_gw least
        by (auto simp: best_of_def most_connected_def split: option.splits)
    qed
  next
    case mon: False
    show ?thesis unfolding is_root_def Let_def if_not_P [OF False] r
      using mon least first_role_best [of ids nodes "''server''"] first_role_best [of ids nodes "''monitor''"]
      by (auto simp: best_of_def least_id_def split: option.splits)
  qed
qed

text \<open>Nodes that are objects with pairwise different ids, none of them an inherited name, and edges
  and a root hint that name no inherited property.\<close>

definition proper_graph :: "jval list \<Rightarrow> string list \<Rightarrow> jval list \<Rightarrow> jval \<Rightarrow> bool" where
  "proper_graph nodes ids edges opts \<longleftrightarrow> node_ids nodes = Some ids \<and> distinct ids \<and>
     list_all (\<lambda>k. k \<notin> set inherited) ids \<and> list_all proper_edge edges \<and>
     (nullish (jget opts ''rootHint'') \<or> idKey (jget opts ''rootHint'') \<notin> set inherited)"

lemma node_ids_length: "node_ids nodes = Some ids \<Longrightarrow> length ids = length nodes"
proof (induction nodes arbitrary: ids)
  case (Cons nd nodes)
  then show ?case by (auto simp: node_ids_def split: option.splits)
qed (simp add: node_ids_def)

lemma lay_out_facts:
  assumes "length ids = length nodes" "2 \<le> length nodes" "edges_ok (length nodes) es"
    and "nullish (jget opts ''rootHint'') \<or> idKey (jget opts ''rootHint'') \<notin> set inherited"
  shows "\<exists>c r. lay_out opts nodes ids es = Some (assemble ids c) \<and> rootIdx opts ids (degree_of (length nodes) es) nodes = Some r \<and> r < length nodes \<and> pt c r = 0"
proof -
  let ?n = "length nodes"
  obtain t where t: "kruskal ?n (edge_order ids es) (mst_init ?n) = Some t" using kruskal_forest [OF assms(3)] by blast
  have "nodes \<noteq> []" using assms(2) by auto
  then obtain r where r: "rootIdx opts ids (degree_of ?n es) nodes = Some r" "r < ?n"
    using rootIdx_in [OF _ assms(1,4)] by blast
  let ?d = "depths ?n r t (adjacency ?n es)"
  have "length ?d = ?n" "?d ! r = Some 0" using depths_root [OF r(2)] by blast+
  then have c: "pt (radial ids ?d) r = 0" "sized ?n (radial ids ?d)"
    using radial_root [of ?d r ids] r(2) by auto
  then have "pt (forceRefine ?n r es FR_ITERS (radial ids ?d)) r = 0"
    using rounds_facts [OF c(2) r(2) order_refl, of r es FR_ITERS] by (simp add: forceRefine_def)
  then show ?thesis using t r
    by (intro exI [of _ "forceRefine ?n r es FR_ITERS (radial ids ?d)"] exI [of _ r]) (simp add: lay_out_def Let_def)
qed

text \<open>Property C30. For every proper graph of one node or more the layout returns; its positions are those of exactly the nodes'
  ids, each inside the reported bounds, and the root that the options, the view and the nodes call for (the node of
  the hint, the first gateway or most connected gear, the server or monitor of least id, the node of least id) is at the
  origin.  The degrees are those of the merged edges.\<close>

theorem compute_places_every_node:
  assumes "proper_graph nodes ids (jarr edges) opts" "nodes \<noteq> []"
  shows "\<exists>lay m r. compute (JArr nodes) edges opts = Some lay \<and> set (map fst (positions lay)) = set ids \<and>
    (\<forall>i<length ids. \<exists>x y. map_of (positions lay) (ids ! i) = Some (x, y) \<and>
       minX lay \<le> x \<and> x \<le> maxX lay \<and> minY lay \<le> y \<and> y \<le> maxY lay) \<and>
    edgeMap (idxOf ids) (jarr edges) [] = Some m \<and> is_root opts ids (degree_of (length nodes) (map snd m)) nodes r \<and>
    r < length ids \<and> map_of (positions lay) (ids ! r) = Some (0, 0)"
proof -
  have ids: "node_ids nodes = Some ids" "distinct ids" "list_all proper_edge (jarr edges)" "list_all (\<lambda>k. k \<notin> set inherited) ids"
    and hint: "nullish (jget opts ''rootHint'') \<or> idKey (jget opts ''rootHint'') \<notin> set inherited"
    using assms(1) by (simp_all add: proper_graph_def)
  have np: "''__proto__'' \<notin> set ids" using ids(4) by (auto simp: list_all_iff inherited_def)
  have len: "length ids = length nodes" by (rule node_ids_length [OF ids(1)])
  obtain m where m: "edgeMap (idxOf ids) (jarr edges) [] = Some m" "edges_ok (length ids) (map snd m)"
    using edgeMap_ok [OF ids(3), of ids "[]"] by (auto simp: edges_ok_def)
  let ?deg = "degree_of (length nodes) (map snd m)"
  have root: "is_root opts ids ?deg nodes r" if "rootIdx opts ids ?deg nodes = Some r" for r
    by (rule rootIdx_is_root [OF that assms(2) len ids(2,4) hint])
  show ?thesis
  proof (cases "length nodes = 1")
    case True
    then obtain k where k: "ids = [k]" using len by (cases ids) auto
    let ?lay = "emptyResult\<lparr>positions := own_put k (0, 0) []\<rparr>"
    obtain r where r: "rootIdx opts ids ?deg nodes = Some r" "r < length nodes" using rootIdx_in [OF assms(2) len hint] by blast
    have "compute (JArr nodes) edges opts = Some ?lay" using True ids(1) k by (auto simp: compute_def Let_def)
    moreover have "positions ?lay = [(k, (0, 0))]" using np k by (auto simp: own_put_def emptyResult_def)
    ultimately show ?thesis using root [OF r(1)] r(2) True m(1) k by (intro exI [of _ ?lay] exI [of _ m] exI [of _ 0]) (simp add: emptyResult_def)
  next
    case False
    then have two: "2 \<le> length nodes" using assms(2) by (cases nodes) (auto simp: neq_Nil_conv Suc_le_eq)
    obtain c r where c: "lay_out opts nodes ids (map snd m) = Some (assemble ids c)" "rootIdx opts ids ?deg nodes = Some r" "r < length ids" "pt c r = 0"
      using lay_out_facts [OF len two m(2) [unfolded len] hint] len by auto
    have "compute (JArr nodes) edges opts = Some (assemble ids c)"
      using two ids(1) m(1) c(1) by (auto simp: compute_def Let_def)
    moreover note facts = assemble_facts [OF order_refl _ ids(2) np, unfolded Let_def, folded assemble_def, of _ c]
    moreover have "map_of (positions (assemble ids c)) (ids ! r) = Some (0, 0)"
      using facts [OF c(3)] c(4) by (simp add: pt_def complex_eq_iff)
    ultimately show ?thesis using assemble_keys [OF np, of c] c(3) facts m(1) root [OF c(2)]
      by (intro exI [of _ "assemble ids c"] exI [of _ m] exI [of _ r]) blast
  qed
qed

definition two_nodes :: "jval list" where
  "two_nodes = [JObj [(''id'', JStr ''a''), (''role'', JStr ''server'')], JObj [(''id'', JStr ''b'')]]"

lemma two_nodes_root: "is_root JUndef [''a'', ''b''] deg two_nodes r \<Longrightarrow> r = 0"
proof -
  assume r: "is_root JUndef [''a'', ''b''] deg two_nodes r"
  have "{i. i < length two_nodes \<and> jget (two_nodes ! i) ''role'' = JStr ''server''} = {0}" by (auto simp: two_nodes_def less_Suc_eq)
  moreover have "view_of JUndef two_nodes = ''monitoring''" by (simp add: view_of_def two_nodes_def)
  ultimately show "r = 0" using r by (simp add: is_root_def least_id_def)
qed

theorem compute_places_every_node_witness:
  "\<exists>lay. compute (JArr two_nodes) (JArr [JObj [(''from'', JStr ''a''), (''to'', JStr ''b''), (''kind'', JStr ''uplink'')]]) JUndef = Some lay \<and>
    set (map fst (positions lay)) = {''a'', ''b''} \<and> map_of (positions lay) ''a'' = Some (0, 0)"
proof -
  let ?es = "JArr [JObj [(''from'', JStr ''a''), (''to'', JStr ''b''), (''kind'', JStr ''uplink'')]]"
  have g: "proper_graph two_nodes [''a'', ''b''] (jarr ?es) JUndef"
    by (simp add: proper_graph_def two_nodes_def node_ids_def member_of_def idKey_def inherited_def proper_edge_def)
  have "two_nodes \<noteq> []" by (simp add: two_nodes_def)
  from compute_places_every_node [OF g this] obtain lay deg r where "compute (JArr two_nodes) ?es JUndef = Some lay"
    "set (map fst (positions lay)) = set [''a'', ''b'']" "is_root JUndef [''a'', ''b''] deg two_nodes r"
    "map_of (positions lay) ([''a'', ''b''] ! r) = Some (0, 0)" by blast
  then show ?thesis using two_nodes_root by fastforce
qed

end
