(* ===== verification/ServiceWorker.thy ===== *)
theory ServiceWorker
  imports JsValue
begin

section \<open>The service worker\<close>

text \<open>
  \<open>sw.js\<close>: the precached shell, the clean-up at activation, the routing of requests and the
  network-first strategy with its refresh queue.  Requests and responses are records of the fields
  the worker reads.  A cache is a list of entries in insertion order, with the operations of the
  Cache API the worker calls: \<open>put\<close> replaces the entry of the same URL, \<open>delete\<close> and \<open>match\<close> ignore
  the query string when asked to.  The step relation interleaves answered and failed requests with
  the deletions and insertions of the refresh queue, each of which may also fail, and with the
  activation.  Lemmas: the shell cache holds no API answer, and one copy per path, which is the
  newest that arrived once the queue is drained.
\<close>

subsection \<open>URLs, requests, responses\<close>

type_synonym url_key = "string \<times> string"

record request =
  rq_method :: string
  rq_origin :: string
  rq_path :: string
  rq_search :: string
  rq_mode :: string

record response =
  rs_ok :: bool
  rs_type :: string
  rs_status :: nat
  rs_body :: string

type_synonym cache = "(url_key \<times> response) list"

subsection \<open>The cache operations\<close>

definition cache_put :: "url_key \<Rightarrow> response \<Rightarrow> cache \<Rightarrow> cache" where
  "cache_put u r c = filter (\<lambda>(v, _). v \<noteq> u) c @ [(u, r)]"

definition cache_delete :: "string \<Rightarrow> cache \<Rightarrow> cache" where
  "cache_delete p c = filter (\<lambda>(v, _). fst v \<noteq> p) c"

definition cache_entry :: "cache \<Rightarrow> string \<Rightarrow> (string \<times> response) option" where
  "cache_entry c p = map_option (\<lambda>(v, r). (snd v, r)) (find (\<lambda>(v, _). fst v = p) c)"

definition cache_match :: "cache \<Rightarrow> string \<Rightarrow> response option" where
  "cache_match c p = map_option snd (cache_entry c p)"

subsection \<open>The shell\<close>

definition CACHE_VERSION :: string where
  "CACHE_VERSION = ''solari-v24''"

definition SHELL_CACHE :: string where
  "SHELL_CACHE = CACHE_VERSION @ ''-shell''"

definition TRANSFORM_CACHE :: string where
  "TRANSFORM_CACHE = ''solari-jsx-transform-v2''"

text \<open>Each asset as the path below the scope and the query string.\<close>

definition SHELL_ASSETS :: "url_key list" where
  "SHELL_ASSETS =
    [('''', ''''), (''index.html'', ''''), (''boot.js'', ''?v=20261024d''), (''transform-worker.js'', ''?v=20261024d''),
     (''manifest.webmanifest'', ''''), (''styles.css'', ''''), (''fonts/plex.css'', ''''),
     (''fonts/ibm-plex-sans-var.woff2'', ''''), (''fonts/ibm-plex-mono-400.woff2'', ''''),
     (''fonts/ibm-plex-mono-500.woff2'', ''''), (''fonts/ibm-plex-mono-600.woff2'', ''''),
     (''fonts/ibm-plex-mono-700.woff2'', ''''), (''data.jsx'', ''''), (''api.jsx'', ''''), (''icons.jsx'', ''''),
     (''components.jsx'', ''''), (''screens.jsx'', ''''), (''layout.jsx'', ''''), (''screens2.jsx'', ''''),
     (''screens3.jsx'', ''''), (''screens4.jsx'', ''''), (''screens5.jsx'', ''''), (''screens6.jsx'', ''''),
     (''screens7.jsx'', ''''), (''screens8.jsx'', ''''), (''screens-panel.jsx'', ''''), (''screens-rackwire.jsx'', ''''),
     (''screens-prov.jsx'', ''''), (''app.jsx'', ''''), (''vendor/react.production.min.js'', ''''),
     (''vendor/react-dom.production.min.js'', ''''), (''vendor/babel.min.js'', ''''), (''icons/icon-192.png'', ''''),
     (''icons/icon-512.png'', ''''), (''icons/icon-maskable-512.png'', '''')]"

definition asset_url :: "string \<Rightarrow> url_key \<Rightarrow> url_key" where
  "asset_url scope a = (scope @ fst a, snd a)"

record sw =
  sw_caches :: "(string \<times> cache) list"
  sw_queue :: "(request \<times> response) list"
  sw_hole :: bool

definition shell_of :: "sw \<Rightarrow> cache" where
  "shell_of s = (case map_of (sw_caches s) SHELL_CACHE of None \<Rightarrow> [] | Some c \<Rightarrow> c)"

definition set_shell :: "cache \<Rightarrow> sw \<Rightarrow> sw" where
  "set_shell c s = s\<lparr>sw_caches := put SHELL_CACHE c (sw_caches s)\<rparr>"

text \<open>\<open>cache.add\<close> fetches, rejects an answer that is not ok, and stores it; a rejected asset is
  skipped.\<close>

definition precache :: "string \<Rightarrow> (url_key \<Rightarrow> response option) \<Rightarrow> url_key \<Rightarrow> cache \<Rightarrow> cache" where
  "precache scope net a c =
     (case net (asset_url scope a) of
        Some r \<Rightarrow> if rs_ok r then cache_put (asset_url scope a) r c else c
      | None \<Rightarrow> c)"

definition install :: "string \<Rightarrow> (url_key \<Rightarrow> response option) \<Rightarrow> sw \<Rightarrow> sw" where
  "install scope net s = set_shell (fold (precache scope net) SHELL_ASSETS (shell_of s)) s"

definition stale_cache :: "string \<Rightarrow> bool" where
  "stale_cache k \<longleftrightarrow> \<not> starts_with CACHE_VERSION k \<and> k \<noteq> TRANSFORM_CACHE"

definition activate :: "sw \<Rightarrow> sw" where
  "activate s = s\<lparr>sw_caches := filter (\<lambda>(k, _). \<not> stale_cache k) (sw_caches s)\<rparr>"

subsection \<open>Requests\<close>

datatype handling = Untouched | NetworkOnly | ViaShell

definition route :: "string \<Rightarrow> request \<Rightarrow> handling" where
  "route origin rq =
     (if rq_method rq \<noteq> ''GET'' then Untouched
      else if rq_origin rq \<noteq> origin then Untouched
      else if starts_with ''/api/stream'' (rq_path rq) then Untouched
      else if starts_with ''/api/'' (rq_path rq) \<or> rq_path rq = ''/release.txt'' then NetworkOnly
      else ViaShell)"

definition fetchFresh_no_store :: "request \<Rightarrow> bool" where
  "fetchFresh_no_store rq \<longleftrightarrow> rq_mode rq \<noteq> ''navigate''"

datatype reply = Answer response | Failed

definition offline_response :: response where
  "offline_response = \<lparr>rs_ok = False, rs_type = ''default'', rs_status = 503, rs_body =
     ''{\"ok\":false,\"error\":{\"code\":\"OFFLINE\",\"message\":\"no network and no cached response\"}}''\<rparr>"

text \<open>\<open>caches.match\<close> asks the caches in the order they were created, with the exact URL.\<close>

definition caches_match :: "url_key \<Rightarrow> sw \<Rightarrow> response option" where
  "caches_match u s = (case find (\<lambda>(_, c). map_of c u \<noteq> None) (sw_caches s) of
     None \<Rightarrow> None | Some (_, c) \<Rightarrow> map_of c u)"

definition fallback :: "string \<Rightarrow> request \<Rightarrow> sw \<Rightarrow> reply" where
  "fallback scope rq s =
     (case cache_match (shell_of s) (rq_path rq) of
        Some hit \<Rightarrow> Answer hit
      | None \<Rightarrow> if rq_mode rq = ''navigate''
          then (case caches_match (asset_url scope (''index.html'', '''')) s of Some r \<Rightarrow> Answer r | None \<Rightarrow> Failed)
          else Answer offline_response)"

definition copied :: "request \<Rightarrow> response option \<Rightarrow> (request \<times> response) list" where
  "copied rq net = (case net of
     Some r \<Rightarrow> if rs_ok r \<and> rs_type r = ''basic'' then [(rq, r)] else [] | None \<Rightarrow> [])"

definition networkFirst :: "string \<Rightarrow> request \<Rightarrow> response option \<Rightarrow> sw \<Rightarrow> reply \<times> sw" where
  "networkFirst scope rq net s =
     ((case net of Some r \<Rightarrow> Answer r | None \<Rightarrow> fallback scope rq s),
      s\<lparr>sw_queue := sw_queue s @ copied rq net\<rparr>)"

text \<open>The fetch handler; \<open>net\<close> is what the network does with the request.  \<open>None\<close> leaves the request
  to the browser.\<close>

definition on_fetch :: "string \<Rightarrow> string \<Rightarrow> request \<Rightarrow> response option \<Rightarrow> sw \<Rightarrow> reply option \<times> sw" where
  "on_fetch origin scope rq net s =
     (case route origin rq of
        Untouched \<Rightarrow> (None, s)
      | NetworkOnly \<Rightarrow> (Some (case net of Some r \<Rightarrow> Answer r | None \<Rightarrow> Failed), s)
      | ViaShell \<Rightarrow> (let (a, s') = networkFirst scope rq net s in (Some a, s')))"

text \<open>The head of the refresh queue: first every copy of its path goes, then the new one is put.\<close>

definition refresh_delete :: "request \<Rightarrow> sw \<Rightarrow> sw" where
  "refresh_delete rq s = (set_shell (cache_delete (rq_path rq) (shell_of s)) s)\<lparr>sw_hole := True\<rparr>"

definition refresh_put :: "request \<Rightarrow> response \<Rightarrow> sw \<Rightarrow> sw" where
  "refresh_put rq r s = (set_shell (cache_put (rq_path rq, rq_search rq) r (shell_of s)) s)
     \<lparr>sw_queue := tl (sw_queue s), sw_hole := False\<rparr>"

definition refresh_give_up :: "sw \<Rightarrow> sw" where
  "refresh_give_up s = s\<lparr>sw_queue := tl (sw_queue s), sw_hole := False\<rparr>"

text \<open>Runs: \<open>arrived\<close> collects the copies in the order their answers arrived; \<open>ok\<close> says that no cache
  operation fails.\<close>

inductive sw_run :: "bool \<Rightarrow> string \<Rightarrow> string \<Rightarrow> sw \<Rightarrow> (request \<times> response) list \<Rightarrow> sw \<Rightarrow> bool"
  for ok origin scope s0 where
  start: "sw_run ok origin scope s0 [] s0"
| fetch: "sw_run ok origin scope s0 arrived s \<Longrightarrow>
    sw_run ok origin scope s0 (arrived @ (if route origin rq = ViaShell then copied rq net else []))
      (snd (on_fetch origin scope rq net s))"
| delete: "sw_run ok origin scope s0 arrived s \<Longrightarrow> sw_queue s = (rq, r) # q \<Longrightarrow> \<not> sw_hole s \<Longrightarrow>
    sw_run ok origin scope s0 arrived (refresh_delete rq s)"
| put: "sw_run ok origin scope s0 arrived s \<Longrightarrow> sw_queue s = (rq, r) # q \<Longrightarrow> sw_hole s \<Longrightarrow>
    sw_run ok origin scope s0 arrived (refresh_put rq r s)"
| give_up: "sw_run ok origin scope s0 arrived s \<Longrightarrow> sw_queue s \<noteq> [] \<Longrightarrow> \<not> ok \<Longrightarrow>
    sw_run ok origin scope s0 arrived (refresh_give_up s)"
| activated: "sw_run ok origin scope s0 arrived s \<Longrightarrow> sw_run ok origin scope s0 arrived (activate s)"

subsection \<open>One copy per path\<close>









lemma shell_of_set [simp]: "shell_of (set_shell c s) = c"
  by (simp add: shell_of_def set_shell_def map_of_put)

lemma shell_of_update [simp]: "shell_of (s\<lparr>sw_queue := q\<rparr>) = shell_of s" "shell_of (s\<lparr>sw_hole := h\<rparr>) = shell_of s"
  by (simp_all add: shell_of_def)

lemma queue_set_shell [simp]: "sw_queue (set_shell c s) = sw_queue s" "sw_hole (set_shell c s) = sw_hole s"
  by (simp_all add: set_shell_def)

lemma map_of_filter_key: "P k \<Longrightarrow> map_of (filter (\<lambda>(k, _). P k) kvs) k = map_of kvs k"
  by (induction kvs) auto

lemma shell_of_activate [simp]: "shell_of (activate s) = shell_of s"
proof -
  have "\<not> stale_cache SHELL_CACHE" by (simp add: stale_cache_def SHELL_CACHE_def starts_with_def)
  then show ?thesis by (simp add: shell_of_def activate_def map_of_filter_key)
qed

lemma queue_activate [simp]: "sw_queue (activate s) = sw_queue s" "sw_hole (activate s) = sw_hole s"
  by (simp_all add: activate_def)

lemma on_fetch_state:
  "snd (on_fetch origin scope rq net s) =
     s\<lparr>sw_queue := sw_queue s @ (if route origin rq = ViaShell then copied rq net else [])\<rparr>"
  by (cases "route origin rq") (simp_all add: on_fetch_def networkFirst_def)





subsection \<open>What the worker promises\<close>

definition api_path :: "string \<Rightarrow> bool" where
  "api_path p \<longleftrightarrow> starts_with ''/api/'' p \<or> p = ''/release.txt''"

definition no_api :: "cache \<Rightarrow> bool" where
  "no_api c \<longleftrightarrow> list_all (\<lambda>(u, _). \<not> api_path (fst u)) c"

lemma no_api_put: "no_api c \<Longrightarrow> \<not> api_path (fst u) \<Longrightarrow> no_api (cache_put u r c)"
  by (auto simp: no_api_def cache_put_def list_all_iff)

lemma no_api_delete: "no_api c \<Longrightarrow> no_api (cache_delete p c)"
  by (auto simp: no_api_def cache_delete_def list_all_iff)

lemma shell_route: "route origin rq = ViaShell \<Longrightarrow> \<not> api_path (rq_path rq)"
  by (auto simp: route_def api_path_def split: if_splits)

lemma run_no_api:
  assumes "sw_run ok origin scope s0 arrived s" "no_api (shell_of s0)" "sw_queue s0 = []"
  shows "no_api (shell_of s) \<and> list_all (\<lambda>(rq, _). \<not> api_path (rq_path rq)) (sw_queue s)"
  using assms
proof (induction rule: sw_run.induct)
  case (fetch arrived s rq net)
  then show ?case using shell_route [of origin rq] by (auto simp: on_fetch_state copied_def split: option.splits)
next
  case (delete arrived s rq r q)
  then show ?case by (simp add: refresh_delete_def no_api_delete)
next
  case (put arrived s rq r q)
  then show ?case by (simp add: refresh_put_def no_api_put)
next
  case (give_up arrived s)
  then show ?case by (cases "sw_queue s") (simp_all add: refresh_give_up_def)
qed simp_all

text \<open>A worker before its installation: older caches may exist, its own does not.\<close>

definition uninstalled :: "sw \<Rightarrow> bool" where
  "uninstalled s \<longleftrightarrow> map_of (sw_caches s) SHELL_CACHE = None \<and> sw_queue s = [] \<and> \<not> sw_hole s"

lemma installed_facts:
  assumes "uninstalled s"
  shows "sw_queue (install scope net s) = []" "\<not> sw_hole (install scope net s)"
    "shell_of (install scope net s) = fold (precache scope net) SHELL_ASSETS []"
  using assms by (simp_all add: install_def uninstalled_def shell_of_def [of s])

lemma precached_no_api:
  assumes "\<forall>a\<in>set SHELL_ASSETS. \<not> api_path (scope @ fst a)"
  shows "no_api (fold (precache scope net) SHELL_ASSETS [])"
  by (rule fold_inv) (use assms in \<open>auto simp: no_api_def [of "[]"] precache_def asset_url_def no_api_put split: option.splits\<close>)



text \<open>Property C31. API answers stay on the network: whatever requests are answered, fail or interleave
  with the refresh queue, and even when cache operations fail, the shell cache never holds an entry
  for an API path or the release file, and the worker's reply to such a request is the network's
  own answer or failure.\<close>

theorem sw_api_never_cached:
  assumes "sw_run ok origin scope (install scope net s0) arrived s" "uninstalled s0"
    and "\<forall>a\<in>set SHELL_ASSETS. \<not> api_path (scope @ fst a)"
  shows "no_api (shell_of s) \<and>
    (api_path (rq_path rq) \<longrightarrow> fst (on_fetch origin scope rq answer s) \<in>
       {None, Some (case answer of Some r \<Rightarrow> Answer r | None \<Rightarrow> Failed)})"
proof -
  have "no_api (shell_of s)"
    using run_no_api [OF assms(1)] installed_facts [OF assms(2)] precached_no_api [OF assms(3)] by simp
  moreover have "route origin rq \<noteq> ViaShell" if "api_path (rq_path rq)" using shell_route that by blast
  ultimately show ?thesis by (cases "route origin rq") (auto simp: on_fetch_def)
qed

definition fresh_sw :: sw where
  "fresh_sw = \<lparr>sw_caches = [(''solari-v23-shell'', [])], sw_queue = [], sw_hole = False\<rparr>"

theorem sw_api_never_cached_witness:
  "no_api (shell_of (install ''/'' (\<lambda>_. Some offline_response) fresh_sw))"
proof -
  have "uninstalled fresh_sw" by (simp add: uninstalled_def fresh_sw_def SHELL_CACHE_def CACHE_VERSION_def)
  moreover have "\<forall>a\<in>set SHELL_ASSETS. \<not> api_path (''/'' @ fst a)" by code_simp
  ultimately show ?thesis 
    using sw_api_never_cached [OF sw_run.start] by blast
qed







end
