(* ===== verification/Boot.thy ===== *)
theory Boot
  imports JsValue
begin

section \<open>The JSX loader\<close>

text \<open>
  \<open>boot.js\<close> and \<open>transform-worker.js\<close>: the loader fetches the declared modules, looks each one up in
  the compiled cache under a digest of its source, has the missing ones compiled by a worker (or on
  the page when the worker fails), evaluates all of them in the declared order and stores what was
  compiled.  Babel, the SHA-256 digest and the network are parameters; the worker's messages are those
  of \<open>transform-worker.js\<close>, each arriving at some time or not at all.  A location is a URL without its
  query; a cache key is a location with the value of the compiled-source parameter, if it has one.
  Lemmas: the worker call settles whatever arrives, every evaluated script is the compilation of
  its module's current source, in order, and the cache stays sound.
\<close>

subsection \<open>Options and keys\<close>

record topts =
  presets :: "string list"
  plugins :: "string list"

record script_node =
  n_loc :: string
  n_query :: string
  n_presets :: "string option"
  n_plugins :: "string option"

fun split_commas :: "string \<Rightarrow> string list" where
  "split_commas [] = [[]]"
| "split_commas (c # cs) =
     (if c = CHR '','' then [] # split_commas cs
      else (case split_commas cs of [] \<Rightarrow> [[c]] | w # ws \<Rightarrow> (c # w) # ws))"

definition attr_list :: "string option \<Rightarrow> string list \<Rightarrow> string list" where
  "attr_list raw fallback = filter (\<lambda>s. s \<noteq> [])
     (map js_trim (case raw of None \<Rightarrow> fallback | Some r \<Rightarrow> if r = [] then fallback else split_commas r))"

definition transformOptions :: "script_node \<Rightarrow> topts" where
  "transformOptions n =
     \<lparr>presets = attr_list (n_presets n) [''react'', ''env''],
      plugins = attr_list (n_plugins n) [''transform-class-properties'', ''transform-object-rest-spread'',
        ''transform-flow-strip-types'']\<rparr>"

text \<open>The digest of a source and its options, empty when the browser cannot compute one.\<close>

type_synonym digest = "string \<times> topts \<Rightarrow> string"

definition sourceDigest :: "digest option \<Rightarrow> string \<Rightarrow> topts \<Rightarrow> string" where
  "sourceDigest dg source options = (case dg of None \<Rightarrow> [] | Some h \<Rightarrow> h (source, options))"

type_synonym ckey = "string \<times> string option"
type_synonym ccache = "(ckey \<times> string) list"

definition requestFor :: "script_node \<Rightarrow> string \<Rightarrow> ckey option" where
  "requestFor n dg = (if dg = [] then None else Some (n_loc n, Some (''v2-'' @ dg)))"

record module =
  m_node :: script_node
  m_source :: string
  m_options :: topts
  m_key :: "ckey option"

datatype stage = Source | Transform | Worker | Runtime | Unstaged

definition failure_text :: "stage \<Rightarrow> string" where
  "failure_text st =
     (case st of
        Transform \<Rightarrow> ''Dashboard code could not be compiled. Check the latest local app edits, then reload.''
      | Runtime \<Rightarrow> ''Dashboard modules loaded, but no view appeared. Check the browser console, then reload.''
      | _ \<Rightarrow> ''Dashboard files could not be loaded. Check the intranet connection, then reload.'')"

definition fetchModule :: "(script_node \<Rightarrow> string option) \<Rightarrow> digest option \<Rightarrow> script_node \<Rightarrow> stage + module" where
  "fetchModule net dg n =
     (case net n of None \<Rightarrow> Inl Source
      | Some source \<Rightarrow> let options = transformOptions n in
          Inr \<lparr>m_node = n, m_source = source, m_options = options,
               m_key = requestFor n (sourceDigest dg source options)\<rparr>)"

subsection \<open>The transform worker\<close>

type_synonym babel = "script_node \<Rightarrow> string \<Rightarrow> topts \<Rightarrow> string option"

definition compile :: "babel \<Rightarrow> module \<Rightarrow> string option" where
  "compile babel m = babel (m_node m) (m_source m) (m_options m)"

datatype wmsg = Progress | Codes "string list" | Refused bool

fun worker_loop :: "babel \<Rightarrow> module list \<Rightarrow> string list \<Rightarrow> wmsg list" where
  "worker_loop babel [] codes = [Codes codes]"
| "worker_loop babel (m # ms) codes =
     (case compile babel m of None \<Rightarrow> [Refused True] | Some c \<Rightarrow> Progress # worker_loop babel ms (codes @ [c]))"

text \<open>\<open>loaded\<close> says whether the worker has Babel or \<open>importScripts\<close> can fetch it; no list is a request
  that is not an array.\<close>

definition worker_onmessage :: "babel \<Rightarrow> bool \<Rightarrow> module list option \<Rightarrow> wmsg list" where
  "worker_onmessage babel loaded modules =
     (case modules of None \<Rightarrow> [Refused False]
      | Some ms \<Rightarrow> if loaded then worker_loop babel ms [] else [Refused True])"

definition WORKER_IDLE_TIMEOUT_MS :: nat where
  "WORKER_IDLE_TIMEOUT_MS = 45000"

text \<open>The page's side: what arrives when, until the promise settles.  Silence ends in the timeout.\<close>

datatype wevent = Message wmsg | WorkerError

fun await_worker :: "nat \<Rightarrow> nat \<Rightarrow> (nat \<times> wevent) list \<Rightarrow> stage + string list" where
  "await_worker n armed [] = Inl Worker"
| "await_worker n armed ((t, ev) # evs) =
     (if t > armed + WORKER_IDLE_TIMEOUT_MS then Inl Worker
      else case ev of
        WorkerError \<Rightarrow> Inl Worker
      | Message Progress \<Rightarrow> await_worker n t evs
      | Message (Codes codes) \<Rightarrow> if length codes = n then Inr codes else Inl Worker
      | Message (Refused k) \<Rightarrow> Inl (if k then Transform else Worker))"

subsection \<open>The loader\<close>

record browser =
  b_net :: "script_node \<Rightarrow> string option"
  b_digest :: "digest option"
  b_cache :: bool
  b_readable :: "ckey \<Rightarrow> bool"
  b_worker :: bool
  b_worker_babel :: bool
  b_times :: "nat list"
  b_worker_dies :: "nat option"
  b_page_babel :: bool
  b_keys_ok :: bool
  b_put_ok :: "ckey \<Rightarrow> bool"
  b_eval_ok :: "string \<Rightarrow> bool"

definition worker_events :: "browser \<Rightarrow> babel \<Rightarrow> module list \<Rightarrow> (nat \<times> wevent) list" where
  "worker_events b babel ms =
     zip (b_times b) (map Message (worker_onmessage babel (b_worker_babel b) (Some ms))) @
     (case b_worker_dies b of None \<Rightarrow> [] | Some t \<Rightarrow> [(t, WorkerError)])"

definition transformInWorker :: "browser \<Rightarrow> babel \<Rightarrow> module list \<Rightarrow> stage + string list" where
  "transformInWorker b babel ms =
     (if b_worker b then await_worker (length ms) 0 (worker_events b babel ms) else Inl Worker)"

definition loadBabel :: "browser \<Rightarrow> stage + unit" where
  "loadBabel b = (if b_page_babel b then Inr () else Inl Unstaged)"

definition transformed :: "babel \<Rightarrow> module \<Rightarrow> stage + string" where
  "transformed babel m = (case compile babel m of None \<Rightarrow> Inl Transform | Some c \<Rightarrow> Inr c)"

definition workerTransforms :: "browser \<Rightarrow> babel \<Rightarrow> module list \<Rightarrow> stage + string list" where
  "workerTransforms b babel missing =
     (if missing = [] then Inr []
      else case transformInWorker b babel missing of
        Inr codes \<Rightarrow> Inr codes
      | Inl Transform \<Rightarrow> Inl Transform
      | Inl _ \<Rightarrow> rbind (loadBabel b) (\<lambda>_. rmap (transformed babel) missing))"

text \<open>The cached body of a module: \<open>None\<close> when there is no cache, no key, no hit or no readable text.\<close>

definition cachedCode :: "browser \<Rightarrow> ccache \<Rightarrow> module \<Rightarrow> string option" where
  "cachedCode b c m =
     (if \<not> b_cache b then None
      else case m_key m of None \<Rightarrow> None
        | Some k \<Rightarrow> if b_readable b k then map_of c k else None)"

definition has_code :: "string option \<Rightarrow> bool" where
  "has_code c \<longleftrightarrow> c \<noteq> None \<and> c \<noteq> Some []"

text \<open>The declared modules with their codes: cached, or the next compiled one, and whether that differs from the cached text and is to be written.\<close>

fun assign_codes :: "(module \<times> string option) list \<Rightarrow> string list \<Rightarrow> (module \<times> bool \<times> string) list" where
  "assign_codes [] codes = []"
| "assign_codes ((m, cc) # ms) codes =
     (if has_code cc then (m, False, the cc) # assign_codes ms codes
      else case codes of
        [] \<Rightarrow> (m, True, ''undefined'') # assign_codes ms []
      | c # cs \<Rightarrow> (m, cc \<noteq> Some c, c) # assign_codes ms cs)"

definition removeObsolete :: "browser \<Rightarrow> ckey list \<Rightarrow> ckey \<Rightarrow> ccache \<Rightarrow> ccache" where
  "removeObsolete b keys cur c =
     filter (\<lambda>(k, _). \<not> (k \<in> set keys \<and> fst k = fst cur \<and> snd k \<noteq> None \<and> k \<noteq> cur)) c"

definition persist :: "browser \<Rightarrow> ckey list \<Rightarrow> module \<Rightarrow> string \<Rightarrow> ccache \<Rightarrow> ccache" where
  "persist b keys m code c =
     (case m_key m of
        Some k \<Rightarrow> if b_cache b
          then (let c' = removeObsolete b keys k c in if b_put_ok b k then put k code c' else c') else c
      | None \<Rightarrow> c)"

text \<open>Evaluation in order; an exception ends it, the writes started before it still happen.\<close>

fun run_modules :: "browser \<Rightarrow> ckey list \<Rightarrow> (module \<times> bool \<times> string) list \<Rightarrow> (script_node \<times> string) list \<Rightarrow> ccache \<Rightarrow>
    (stage + unit) \<times> (script_node \<times> string) list \<times> ccache" where
  "run_modules b keys [] past c = (Inr (), past, c)"
| "run_modules b keys ((m, compiled, code) # ms) past c =
     (if \<not> b_eval_ok b code then (Inl Runtime, past @ [(m_node m, code)], c)
      else run_modules b keys ms (past @ [(m_node m, code)]) (if compiled then persist b keys m code c else c))"

definition boot :: "browser \<Rightarrow> babel \<Rightarrow> script_node list \<Rightarrow> ccache \<Rightarrow>
    (stage + unit) \<times> (script_node \<times> string) list \<times> ccache" where
  "boot b babel nodes c =
     (if nodes = [] then (Inl Unstaged, [], c)
      else case rmap (fetchModule (b_net b) (b_digest b)) nodes of
        Inl e \<Rightarrow> (Inl e, [], c)
      | Inr ms \<Rightarrow>
          let cached = map (\<lambda>m. (m, cachedCode b c m)) ms;
              missing = map fst (filter (\<lambda>(m, cc). \<not> has_code cc) cached);
              keys = (if b_keys_ok b then map fst c else [])
          in case workerTransforms b babel missing of
              Inl e \<Rightarrow> (Inl e, [], c)
            | Inr codes \<Rightarrow> run_modules b keys (assign_codes cached codes) [] c)"

subsection \<open>The worker call\<close>

lemma worker_loop_codes:
  assumes "Codes cs \<in> set (worker_loop babel ms codes)"
  shows "\<exists>ds. cs = codes @ ds \<and> list_all2 (\<lambda>m d. compile babel m = Some d) ms ds"
  using assms
proof (induction babel ms codes rule: worker_loop.induct)
  case (2 babel m ms codes)
  then show ?case by (cases "compile babel m") fastforce+
qed simp

lemma await_worker_codes: "await_worker n armed evs = Inr cs \<Longrightarrow> Message (Codes cs) \<in> snd ` set evs"
  by (induction n armed evs rule: await_worker.induct)
    (auto split: if_splits wevent.splits wmsg.splits)

lemma transformInWorker_codes:
  assumes "transformInWorker b babel ms = Inr cs"
  shows "list_all2 (\<lambda>m d. compile babel m = Some d) ms cs"
proof -
  have "Message (Codes cs) \<in> snd ` set (worker_events b babel ms)"
    using assms await_worker_codes by (simp add: transformInWorker_def split: if_splits)
  then have "Message (Codes cs) \<in> Message ` set (worker_onmessage babel (b_worker_babel b) (Some ms))"
    unfolding worker_events_def using set_zip_rightD by (fastforce split: option.splits)
  then have "Codes cs \<in> set (worker_loop babel ms [])" by (auto simp: worker_onmessage_def split: if_splits)
  then show ?thesis using worker_loop_codes by fastforce
qed

lemma workerTransforms_codes:
  assumes "workerTransforms b babel ms = Inr cs"
  shows "list_all2 (\<lambda>m d. compile babel m = Some d) ms cs"
proof (cases "ms = []")
  case True
  then show ?thesis using assms by (simp add: workerTransforms_def)
next
  case False
  show ?thesis
  proof (cases "transformInWorker b babel ms")
    case (Inl e)
    then have "rmap (transformed babel) ms = Inr cs"
      using assms False by (cases e) (auto simp: workerTransforms_def rbind_Inr_iff)
    then show ?thesis unfolding rmap_Inr_iff
      by (rule list_all2_mono) (auto simp: transformed_def split: option.splits)
  next
    case (Inr ds)
    then show ?thesis using assms False transformInWorker_codes by (simp add: workerTransforms_def)
  qed
qed

subsection \<open>The compiled cache\<close>

text \<open>An entry is sound when it is Babel's output for every source and options its digest stands for.\<close>

definition cache_sound :: "babel \<Rightarrow> digest \<Rightarrow> ccache \<Rightarrow> bool" where
  "cache_sound babel h c \<longleftrightarrow> (\<forall>((loc, par), code) \<in> set c. \<forall>n src opts.
     n_loc n = loc \<longrightarrow> h (src, opts) \<noteq> [] \<longrightarrow> par = Some (''v2-'' @ h (src, opts)) \<longrightarrow> babel n src opts = Some code)"

text \<open>What the digest and Babel are relied on for: different inputs have different digests, and the
  deployment token in a script's address does not change its compilation.\<close>

definition collision_free :: "digest \<Rightarrow> bool" where
  "collision_free h \<longleftrightarrow> (\<forall>x y. h x = h y \<longrightarrow> h x \<noteq> [] \<longrightarrow> x = y)"

definition token_blind :: "babel \<Rightarrow> bool" where
  "token_blind babel \<longleftrightarrow> (\<forall>n n' src opts. n_loc n = n_loc n' \<longrightarrow> babel n src opts = babel n' src opts)"

definition keyed :: "digest \<Rightarrow> module \<Rightarrow> bool" where
  "keyed h m \<longleftrightarrow> m_key m = None \<or>
     m_key m = Some (n_loc (m_node m), Some (''v2-'' @ h (m_source m, m_options m))) \<and> h (m_source m, m_options m) \<noteq> []"

lemma fetched_keyed: "fetchModule net (Some h) n = Inr m \<Longrightarrow> keyed h m"
  by (auto simp: fetchModule_def keyed_def requestFor_def sourceDigest_def Let_def split: option.splits if_splits)

lemma set_put_pairs: "set (put k v c) \<subseteq> insert (k, v) (set c)"
  by (induction k v c rule: put.induct) auto

lemma cache_soundI:
  assumes "\<And>n src opts code. ((n_loc n, Some (''v2-'' @ h (src, opts))), code) \<in> set c \<Longrightarrow> h (src, opts) \<noteq> [] \<Longrightarrow>
    babel n src opts = Some code"
  shows "cache_sound babel h c"
  using assms unfolding cache_sound_def by blast

lemma cache_soundD:
  "cache_sound babel h c \<Longrightarrow> ((n_loc n, Some (''v2-'' @ h (src, opts))), code) \<in> set c \<Longrightarrow> h (src, opts) \<noteq> [] \<Longrightarrow>
    babel n src opts = Some code"
  unfolding cache_sound_def by blast

lemma sound_subset: "set c' \<subseteq> set c \<Longrightarrow> cache_sound babel h c \<Longrightarrow> cache_sound babel h c'"
  unfolding cache_sound_def by blast

lemma sound_insert:
  assumes "cache_sound babel h c" "set c' \<subseteq> insert ((loc, par), code) (set c)"
    and "\<And>n src opts. n_loc n = loc \<Longrightarrow> par = Some (''v2-'' @ h (src, opts)) \<Longrightarrow> babel n src opts = Some code"
  shows "cache_sound babel h c'"
proof (rule cache_soundI)
  fix n :: script_node and src opts code'
  assume "((n_loc n, Some (''v2-'' @ h (src, opts))), code') \<in> set c'" "h (src, opts) \<noteq> []"
  then show "babel n src opts = Some code'" using assms(2,3) cache_soundD [OF assms(1)] by blast
qed

lemma cached_sound:
  assumes "cache_sound babel h c" "keyed h m" "cachedCode b c m = Some code"
  shows "compile babel m = Some code"
proof -
  have k: "m_key m = Some (n_loc (m_node m), Some (''v2-'' @ h (m_source m, m_options m)))"
    "h (m_source m, m_options m) \<noteq> []"
    "((n_loc (m_node m), Some (''v2-'' @ h (m_source m, m_options m))), code) \<in> set c"
    using assms(2,3) map_of_SomeD by (fastforce simp: cachedCode_def keyed_def split: if_splits option.splits)+
  then show ?thesis using assms(1) unfolding cache_sound_def compile_def by fastforce
qed

lemma persist_sound:
  assumes "cache_sound babel h c" "keyed h m" "compile babel m = Some code" "collision_free h" "token_blind babel"
  shows "cache_sound babel h (persist b keys m code c)"
proof (cases "m_key m")
  case (Some k)
  let ?c = "removeObsolete b keys k c"
  have rm: "cache_sound babel h ?c" by (rule sound_subset [OF _ assms(1)]) (auto simp: removeObsolete_def)
  have k: "k = (n_loc (m_node m), Some (''v2-'' @ h (m_source m, m_options m)))" "h (m_source m, m_options m) \<noteq> []"
    using assms(2) Some by (auto simp: keyed_def)
  have "babel n src opts = Some code" if "n_loc n = fst k" "snd k = Some (''v2-'' @ h (src, opts))" for n src opts
  proof -
    have "h (m_source m, m_options m) = h (src, opts)" using that(2) k(1) by simp
    then have same: "m_source m = src" "m_options m = opts" using k(2) assms(4) unfolding collision_free_def by blast+
    have "n_loc n = n_loc (m_node m)" using that(1) k(1) by simp
    then have "babel n src opts = babel (m_node m) src opts" using assms(5) unfolding token_blind_def by blast
    then show ?thesis using assms(3) same by (simp add: compile_def)
  qed
  then have "cache_sound babel h (put k code ?c)"
    using sound_insert [OF rm, of "put k code ?c" "fst k" "snd k"] set_put_pairs [of k code ?c] by simp
  then show ?thesis using rm assms(1) Some by (simp add: persist_def Let_def)
qed (use assms(1) in \<open>simp add: persist_def\<close>)

lemma assign_codes_right:
  assumes "list_all2 (\<lambda>m d. compile babel m = Some d) (map fst (filter (\<lambda>(m, cc). \<not> has_code cc) ms)) codes"
    and "\<And>m cc. (m, Some cc) \<in> set ms \<Longrightarrow> compile babel m = Some cc"
  shows "map fst (assign_codes ms codes) = map fst ms \<and>
    list_all (\<lambda>(m, _, code). compile babel m = Some code) (assign_codes ms codes)"
  using assms
proof (induction ms codes rule: assign_codes.induct)
  case (2 m cc ms codes)
  show ?case
  proof (cases "has_code cc")
    case True
    then have "compile babel m = Some (the cc)" using 2(5) [of m "the cc"] by (auto simp: has_code_def)
    then show ?thesis using 2(1,4,5) True by simp
  next
    case False
    then obtain d ds where "codes = d # ds" "compile babel m = Some d" using 2(4) by (auto simp: list_all2_Cons1)
    then show ?thesis using 2(3-5) False by simp
  qed
qed simp

lemma run_modules_facts:
  assumes "run_modules b keys ms past c = (out, all, c')"
    and "list_all (\<lambda>(m, _, code). compile babel m = Some code \<and> keyed h m) ms"
    and "cache_sound babel h c" "collision_free h" "token_blind babel"
  shows "\<exists>k\<le>length ms. all = past @ map (\<lambda>(m, _, code). (m_node m, code)) (take k ms) \<and>
    (out = Inr () \<longrightarrow> k = length ms) \<and> cache_sound babel h c'"
  using assms(1-3)
proof (induction b keys ms past c rule: run_modules.induct)
  case (2 b keys m compiled code ms past c)
  show ?case
  proof (cases "b_eval_ok b code")
    case True
    let ?c = "if compiled then persist b keys m code c else c"
    have "cache_sound babel h ?c" using 2(3,4) persist_sound [OF _ _ _ assms(4,5)] by simp
    then obtain k where "k \<le> length ms" "all = (past @ [(m_node m, code)]) @ map (\<lambda>(m, _, code). (m_node m, code)) (take k ms)"
        "out = Inr () \<longrightarrow> k = length ms" "cache_sound babel h c'"
      using 2(1) True 2(2,3) by fastforce
    then show ?thesis by (intro exI [of _ "Suc k"]) simp
  next
    case False
    then show ?thesis using 2(2,4) by (intro exI [of _ 1]) auto
  qed
qed simp

lemma fetched_facts:
  assumes "rmap (fetchModule net (Some h)) nodes = Inr ms"
  shows "map m_node ms = nodes \<and> length ms = length nodes \<and>
    list_all (\<lambda>m. keyed h m \<and> net (m_node m) = Some (m_source m) \<and> m_options m = transformOptions (m_node m)) ms"
proof -
  have fm: "m_node m = n \<and> net n = Some (m_source m) \<and> m_options m = transformOptions n"
    if "fetchModule net (Some h) n = Inr m" for n m
    using that by (auto simp: fetchModule_def Let_def split: option.splits)
  have "list_all2 (\<lambda>n m. fetchModule net (Some h) n = Inr m) nodes ms" using assms by (simp add: rmap_Inr_iff)
  then show ?thesis using fm fetched_keyed by (induction rule: list_all2_induct) fastforce+
qed

text \<open>Property C33. Whatever is cached, missing, late or failing, the loader evaluates the declared
  scripts in the declared order from the first on, each one compiled from the source that was just
  fetched, all of them when it reports success; and it leaves a compiled cache in which every entry
  is again the compilation of the source its digest stands for.\<close>

theorem boot_runs_current_sources:
  assumes "boot b babel nodes c = (out, ran_scripts, c')" "b_digest b = Some h"
    and "cache_sound babel h c" "collision_free h" "token_blind babel"
  shows "cache_sound babel h c' \<and> (\<exists>k\<le>length nodes. map fst ran_scripts = take k nodes \<and> (out = Inr () \<longrightarrow> k = length nodes)) \<and>
    list_all (\<lambda>(n, code). \<exists>src. b_net b n = Some src \<and> babel n src (transformOptions n) = Some code) ran_scripts"
proof (cases "nodes = [] \<or> (\<exists>e. rmap (fetchModule (b_net b) (b_digest b)) nodes = Inl e)")
  case True
  then show ?thesis using assms(1,3) by (auto simp: boot_def split: if_splits)
next
  case False
  then obtain ms where ms: "rmap (fetchModule (b_net b) (b_digest b)) nodes = Inr ms" and "nodes \<noteq> []"
    by (metis obj_sumE)
  let ?cached = "map (\<lambda>m. (m, cachedCode b c m)) ms"
  let ?missing = "map fst (filter (\<lambda>(m, cc). \<not> has_code cc) ?cached)"
  have nodes: "map m_node ms = nodes" "length ms = length nodes"
    and all: "list_all (\<lambda>m. keyed h m \<and> b_net b (m_node m) = Some (m_source m) \<and> m_options m = transformOptions (m_node m)) ms"
    using fetched_facts [OF ms [unfolded assms(2)]] by blast+
  show ?thesis
  proof (cases "workerTransforms b babel ?missing")
    case (Inl e)
    then show ?thesis using assms(1,3) ms \<open>nodes \<noteq> []\<close> by (auto simp: boot_def Let_def)
  next
    case (Inr codes)
    let ?a = "assign_codes ?cached codes"
    have "compile babel m = Some cc" if "(m, Some cc) \<in> set ?cached" for m cc
    proof -
      have "m \<in> set ms" "cachedCode b c m = Some cc" using that by auto
      then show ?thesis using all cached_sound [OF assms(3)] by (auto simp: list_all_iff)
    qed
    then have A: "map fst ?a = ms" "list_all (\<lambda>(m, _, code). compile babel m = Some code) ?a"
      using assign_codes_right [OF workerTransforms_codes [OF Inr]] by (auto simp: o_def)
    have mem: "m \<in> set ms" if "(m, x) \<in> set ?a" for m x
      using imageI [OF that, of fst] arg_cong [OF A(1), of set] by simp
    have good: "list_all (\<lambda>(m, _, code). compile babel m = Some code \<and> keyed h m) ?a"
      using A(2) mem all by (fastforce simp: list_all_iff)
    have "run_modules b (if b_keys_ok b then map fst c else []) ?a [] c = (out, ran_scripts, c')"
      using assms(1) ms \<open>nodes \<noteq> []\<close> Inr by (simp add: boot_def Let_def)
    then obtain k where k: "k \<le> length ?a" "ran_scripts = map (\<lambda>(m, _, code). (m_node m, code)) (take k ?a)"
        "out = Inr () \<longrightarrow> k = length ?a" "cache_sound babel h c'"
      using run_modules_facts [OF _ good assms(3-5)] by fastforce
    have len: "length ?a = length nodes" using A(1) nodes(2) by (metis length_map)
    have "map fst ran_scripts = map m_node (take k (map fst ?a))" using k(2) by (simp add: take_map case_prod_beta)
    then have "map fst ran_scripts = take k nodes" using A(1) nodes(1) take_map [of k m_node ms] by simp
    moreover have "list_all (\<lambda>(n, code). \<exists>src. b_net b n = Some src \<and> babel n src (transformOptions n) = Some code) ran_scripts"
      using A(2) all mem unfolding k(2) list_all_iff compile_def by (fastforce dest: in_set_takeD)
    ultimately show ?thesis using k(1,3,4) len by auto
  qed
qed

definition sample_node :: script_node where
  "sample_node = \<lparr>n_loc = ''/app.jsx'', n_query = ''?v=1'', n_presets = None, n_plugins = None\<rparr>"

text \<open>A browser without a worker, a digest that names its input's source when the options are the
  default ones, and a compiler that leaves the source as it is.\<close>

definition sample_browser :: browser where
  "sample_browser = \<lparr>b_net = (\<lambda>_. Some ''x''), b_digest = Some (\<lambda>(s, o'). if o' = transformOptions sample_node then s else []),
     b_cache = True, b_readable = (\<lambda>_. True), b_worker = False, b_worker_babel = False, b_times = [],
     b_worker_dies = None, b_page_babel = True, b_keys_ok = True, b_put_ok = (\<lambda>_. True), b_eval_ok = (\<lambda>_. True)\<rparr>"

theorem boot_runs_current_sources_witness:
  "cache_sound (\<lambda>n s o'. Some s) (\<lambda>(s, o'). if o' = transformOptions sample_node then s else [])
     (snd (snd (boot sample_browser (\<lambda>n s o'. Some s) [sample_node] [])))"
proof -
  let ?r = "boot sample_browser (\<lambda>n s o'. Some s) [sample_node] []"
  have 1: "boot sample_browser (\<lambda>n s o'. Some s) [sample_node] [] = (fst ?r, fst (snd ?r), snd (snd ?r))" by simp
  have 2: "b_digest sample_browser = Some (\<lambda>(s, o'). if o' = transformOptions sample_node then s else [])"
    by (simp add: sample_browser_def)
  have 3: "cache_sound (\<lambda>n s o'. Some s) (\<lambda>(s, o'). if o' = transformOptions sample_node then s else []) []"
    by (simp add: cache_sound_def)
  have 4: "collision_free (\<lambda>(s, o'). if o' = transformOptions sample_node then s else [])"
    by (auto simp: collision_free_def split: if_splits)
  have 5: "token_blind (\<lambda>n s o'. Some s)" by (simp add: token_blind_def)
  show ?thesis using boot_runs_current_sources [OF 1 2 3 4 5] by blast
qed

text \<open>When the worker cannot load Babel, its report carries the kind of a compilation
  error, so the loader gives up at once with the message that the code could not be compiled: it does not
  try the page's own copy of Babel, although that would have compiled every module.\<close>

theorem worker_load_failure_blames_code:
  assumes "b_worker b" "\<not> b_worker_babel b" "b_times b = t # ts" "t \<le> WORKER_IDLE_TIMEOUT_MS" "missing \<noteq> []"
  shows "workerTransforms b babel missing = Inl Transform \<and>
    failure_text Transform = ''Dashboard code could not be compiled. Check the latest local app edits, then reload.'' \<and>
    (b_page_babel b \<and> list_all (\<lambda>m. compile babel m \<noteq> None) missing \<longrightarrow>
       workerTransforms (b\<lparr>b_worker := False\<rparr>) babel missing = Inr (map (\<lambda>m. the (compile babel m)) missing))"
proof -
  have "workerTransforms b babel missing = Inl Transform"
    using assms by (simp add: workerTransforms_def transformInWorker_def worker_events_def worker_onmessage_def)
  moreover have "rmap (transformed babel) missing = Inr (map (\<lambda>m. the (compile babel m)) missing)"
    if "list_all (\<lambda>m. compile babel m \<noteq> None) missing"
    by (rule rmap_total) (use that in \<open>auto simp: transformed_def list_all_iff\<close>)
  ultimately show ?thesis
    using assms(5) by (auto simp: failure_text_def workerTransforms_def transformInWorker_def loadBabel_def)
qed

theorem worker_load_failure_blames_code_witness:
  "workerTransforms (sample_browser\<lparr>b_worker := True, b_times := [5]\<rparr>) (\<lambda>n s o'. Some s)
     [\<lparr>m_node = sample_node, m_source = ''x'', m_options = transformOptions sample_node, m_key = None\<rparr>] = Inl Transform"
  using worker_load_failure_blames_code [of "sample_browser\<lparr>b_worker := True, b_times := [5]\<rparr>" 5 "[]"
      "[\<lparr>m_node = sample_node, m_source = ''x'', m_options = transformOptions sample_node, m_key = None\<rparr>]"]
  by (simp add: sample_browser_def WORKER_IDLE_TIMEOUT_MS_def)

end
