(* ===== verification/ApiMap.thy ===== *)
theory ApiMap
  imports ApiWire "HOL-Library.Monad_Syntax"
begin

section \<open>The API adapter: from wire rows to the dashboard's model\<close>

text \<open>
  \<open>api.jsx\<close>: the mappers that turn the rows of the REST API into the shape the screens read, and the
  history series.  A mapped value is a wire value passed through, a computed number, a list or an
  object.  \<open>None\<close> is a \<open>TypeError\<close>, which the code raises where it reads a property of \<open>null\<close>, maps
  over what is no array or splits what is no string.  Keys of lookup tables are taken not to be names
  that every JavaScript object inherits.  The long dash the code shows for missing text is written as a
  hyphen.  Lemmas: when a row cannot raise, the range of the percentages, the derived probe and alert
  states, and what the rollup counts.
\<close>

subsection \<open>Values of the model\<close>

datatype uval = V jval | N jnum | L "uval list" | R "(string \<times> uval) list"

fun u_fld :: "uval \<Rightarrow> string \<Rightarrow> uval" where
  "u_fld (R kvs) k = (case map_of kvs k of Some v \<Rightarrow> v | None \<Rightarrow> V JUndef)"
| "u_fld (V j) k = V (jget j k)"
| "u_fld _ k = V JUndef"

fun u_truthy :: "uval \<Rightarrow> bool" where
  "u_truthy (V j) = truthy j"
| "u_truthy (N x) = (x \<noteq> Fin 0 \<and> x \<noteq> NaN)"
| "u_truthy _ = True"

fun u_num :: "uval \<Rightarrow> jnum" where
  "u_num (V j) = js_Number j"
| "u_num (N x) = x"
| "u_num _ = NaN"

fun u_str :: "uval \<Rightarrow> string" where
  "u_str (V j) = js_String j"
| "u_str (N (Fin r)) = num_str r"
| "u_str (N PosInf) = ''Infinity''"
| "u_str (N NegInf) = ''-Infinity''"
| "u_str (N NaN) = ''NaN''"
| "u_str (L us) = join_str '','' (map u_str us)"
| "u_str (R _) = ''[object Object]''"

fun stringish :: "uval \<Rightarrow> bool" where
  "stringish (V (JStr _)) = True"
| "stringish (V (JArr _)) = True"
| "stringish (V (JObj _)) = True"
| "stringish (L _) = True"
| "stringish (R _) = True"
| "stringish _ = False"

text \<open>The operator \<open>+\<close>, and \<open>a || b\<close>.\<close>

definition u_plus :: "uval \<Rightarrow> uval \<Rightarrow> uval" where
  "u_plus a b = (if stringish a \<or> stringish b then V (JStr (u_str a @ u_str b)) else N (jn_add (u_num a) (u_num b)))"

definition uor :: "uval \<Rightarrow> uval \<Rightarrow> uval" where
  "uor a b = (if u_truthy a then a else b)"

text \<open>\<open>w.k\<close>, \<open>w.k || d\<close> and \<open>w.k != null ? w.k : d\<close>.\<close>

definition fld :: "jval \<Rightarrow> string \<Rightarrow> uval" where
  "fld w k = V (jget w k)"

definition fld_or :: "jval \<Rightarrow> string \<Rightarrow> uval \<Rightarrow> uval" where
  "fld_or w k d = uor (fld w k) d"

definition fld_nn :: "jval \<Rightarrow> string \<Rightarrow> uval \<Rightarrow> uval" where
  "fld_nn w k d = (if nullish (jget w k) then d else fld w k)"

definition u0 :: uval where "u0 = V (JNum 0)"
definition unull :: uval where "unull = V JNull"
definition uempty :: uval where "uempty = V (JStr [])"
definition ubool :: "bool \<Rightarrow> uval" where "ubool b = V (JBool b)"
definition ustr :: "string \<Rightarrow> uval" where "ustr s = V (JStr s)"
definition ulen :: "'a list \<Rightarrow> uval" where "ulen xs = N (Fin (real (length xs)))"

definition opt_age :: "uval \<Rightarrow> int option \<Rightarrow> uval" where
  "opt_age d m = (case m of None \<Rightarrow> d | Some i \<Rightarrow> N (Fin (of_int i)))"

text \<open>\<open>v.map(f)\<close>, and the helper \<open>A\<close> of the code: arrays as they are, anything else as empty.\<close>

definition jmap :: "(jval \<Rightarrow> uval option) \<Rightarrow> jval \<Rightarrow> uval list option" where
  "jmap f v = (case v of JArr xs \<Rightarrow> those (map f xs) | _ \<Rightarrow> None)"

definition A :: "jval \<Rightarrow> uval" where
  "A v = V (JArr (jarr v))"

fun own_props :: "jval \<Rightarrow> (string \<times> jval) list" where
  "own_props (JObj kvs) = kvs"
| "own_props (JArr xs) = map (\<lambda>(i, x). (nat_str i, x)) (enumerate 0 xs)"
| "own_props (JStr s) = map (\<lambda>(i, c). (nat_str i, JStr [c])) (enumerate 0 s)"
| "own_props _ = []"

definition umembers :: "jval \<Rightarrow> (string \<times> uval) list" where
  "umembers j = map (\<lambda>(k, v). (k, V v)) (own_props j)"

definition assign :: "(string \<times> uval) list \<Rightarrow> (string \<times> uval) list \<Rightarrow> (string \<times> uval) list" where
  "assign base upd = fold (\<lambda>(k, v). put k v) upd base"

fun split_on :: "char \<Rightarrow> string \<Rightarrow> string list" where
  "split_on sep [] = [[]]"
| "split_on sep (c # s) = (if c = sep then [] # split_on sep s
     else case split_on sep s of [] \<Rightarrow> [[c]] | t # ts \<Rightarrow> (c # t) # ts)"

subsection \<open>Nodes\<close>

definition node_cores :: "jval \<Rightarrow> uval list option" where
  "node_cores w = jmap (\<lambda>c. Some (if truthy (jget w ''cpuLoadMilli'') then N (milliToPct c) else V c))
     (jor (jget w ''cpuLoadMilli'') (jor (jget w ''cores'') (JArr [])))"

definition node_cpu :: "jval \<Rightarrow> uval list \<Rightarrow> uval" where
  "node_cpu w cores = fld_nn w ''cpuPct''
     (if cores \<noteq> [] then N (jn_round (jn_div (u_num (foldl u_plus u0 cores)) (Fin (real (length cores)))))
      else N (milliToPct (jget w ''cpuAvgMilli'')))"

definition node_disk :: "jval \<Rightarrow> uval option" where
  "node_disk d = (if nullish d then None else Some (R [
     (''mount'', fld d ''mount''),
     (''totalGb'', fld_nn d ''totalGb''
        (if truthy (jget d ''totalKb'') then N (jn_round (jn_div (js_Number (jget d ''totalKb'')) (Fin 1048576))) else u0)),
     (''usedPct'', fld_nn d ''usedPct'' (N (pct (jget d ''usedKb'') (jget d ''totalKb'')))),
     (''fs'', fld d ''fs'')]))"

definition kbps_to_mbps :: "jval \<Rightarrow> uval" where
  "kbps_to_mbps v = N (jn_round (jn_div (js_Number (jor v (JNum 0))) (Fin 1000)))"

definition node_iface :: "jval \<Rightarrow> uval option" where
  "node_iface f = (if nullish f then None else Some (R [
     (''name'', fld f ''name''),
     (''capMbps'', fld_nn f ''capMbps'' (fld_or f ''speedMbps'' u0)),
     (''rxMbps'', fld_nn f ''rxMbps'' (kbps_to_mbps (jget f ''rxKbps''))),
     (''txMbps'', fld_nn f ''txMbps'' (kbps_to_mbps (jget f ''txKbps''))),
     (''errs'', fld_or f ''errs'' u0)]))"

definition node_proc :: "jval \<Rightarrow> uval option" where
  "node_proc p = (if nullish p then None else Some (R [
     (''name'', fld p ''name''), (''pid'', fld p ''pid''), (''runState'', fld p ''runState''),
     (''nFiles'', fld p ''nFiles''), (''nSockets'', fld p ''nSockets''), (''rssKb'', fld_nn p ''rssKb'' u0)]))"

definition host_label :: "jval \<Rightarrow> uval option" where
  "host_label w =
     (if truthy (jget w ''name'') then Some (fld w ''name'')
      else if \<not> truthy (jget w ''hostFqdn'') then Some (ustr (js_String (jget w ''nodeId'')))
      else case jget w ''hostFqdn'' of JStr s \<Rightarrow> Some (ustr (hd (split_on (CHR ''.'') s))) | _ \<Rightarrow> None)"

definition no_hist :: uval where
  "no_hist = R [(''cpu'', L []), (''ram'', L []), (''net'', L []), (''disk'', L [])]"

definition disk_max :: "uval list \<Rightarrow> jnum" where
  "disk_max disks = foldl (\<lambda>m d. jn_max m (u_num (u_fld d ''usedPct''))) (Fin 0) disks"

definition mapNode :: "clock \<Rightarrow> (string \<times> uval) list \<Rightarrow> jval \<Rightarrow> uval option" where
  "mapNode ck segIndex w =
     (if nullish w then None else do {
        let seg = (case map_of segIndex (js_String (jget w ''segId'')) of Some s \<Rightarrow> s | None \<Rightarrow> R []);
        let ramTotalKb = fld_or w ''ramTotalKb'' u0;
        let ramUsedKb = fld_or w ''ramUsedKb'' u0;
        let swapTotalKb = fld_or w ''swapTotalKb'' u0;
        let swapUsedKb = fld_or w ''swapUsedKb'' u0;
        cores \<leftarrow> node_cores w;
        disks \<leftarrow> jmap node_disk (jor (jget w ''disks'') (JArr []));
        ifaces \<leftarrow> jmap node_iface (jor (jget w ''ifaces'') (JArr []));
        procs \<leftarrow> jmap node_proc (jor (jget w ''procs'') (JArr []));
        name \<leftarrow> host_label w;
        Some (R [
          (''nodeId'', fld w ''nodeId''),
          (''sym'', fld_or w ''sym'' uempty),
          (''name'', name),
          (''hostFqdn'', fld w ''hostFqdn''),
          (''ip'', fld w ''ip''),
          (''role'', fld w ''role''),
          (''segId'', fld w ''segId''),
          (''segName'', uor (u_fld seg ''name'') (fld_or w ''segName'' uempty)),
          (''cidr'', uor (u_fld seg ''cidr'') (fld_or w ''cidr'' uempty)),
          (''osName'', fld w ''osName''), (''arch'', fld w ''arch''),
          (''state'', fld w ''state''),
          (''criticality'', fld_nn w ''criticality'' unull),
          (''lifecycle'', fld_or w ''lifecycle'' unull),
          (''lastSeenMin'', fld_nn w ''lastSeenMin'' (opt_age u0 (minsSince ck (jget w ''lastSeenAt'')))),
          (''enrolledDaysAgo'', fld_nn w ''enrolledDaysAgo'' (opt_age unull (daysSince ck (jget w ''enrolledAt'')))),
          (''configEpoch'', fld_nn w ''configEpoch'' (fld_or w ''appliedEpoch'' u0)),
          (''converged'', fld_nn w ''converged'' (ubool True)),
          (''cpuPct'', node_cpu w cores), (''cores'', L cores),
          (''ramPct'', fld_nn w ''ramPct'' (N (pct (jor (jget w ''ramUsedKb'') (JNum 0)) (jor (jget w ''ramTotalKb'') (JNum 0))))),
          (''ramUsedKb'', ramUsedKb), (''ramTotalKb'', ramTotalKb),
          (''swapPct'', fld_nn w ''swapPct'' (N (pct (jor (jget w ''swapUsedKb'') (JNum 0)) (jor (jget w ''swapTotalKb'') (JNum 0))))),
          (''swapUsedKb'', swapUsedKb), (''swapTotalKb'', swapTotalKb),
          (''disks'', L disks), (''ifaces'', L ifaces), (''procs'', L procs),
          (''diskMaxPct'', N (disk_max disks)),
          (''netTotalMbps'', foldl (\<lambda>a b. u_plus (u_plus a (u_fld b ''rxMbps'')) (u_fld b ''txMbps'')) u0 ifaces),
          (''netCapMbps'', foldl (\<lambda>a b. u_plus a (u_fld b ''capMbps'')) u0 ifaces),
          (''alertsCount'', fld_nn w ''alertsCount'' u0),
          (''hist'', fld_or w ''hist'' no_hist),
          (''uptimeDays'', fld_nn w ''uptimeDays'' (opt_age unull (daysSince ck (jget w ''bootAt'')))),
          (''uplink'', fld_or w ''uplinkGearId'' (fld_or w ''uplink'' unull)),
          (''uplinkPort'', fld_or w ''uplinkPort'' (fld_or w ''localIf'' unull)),
          (''linkType'', fld_or w ''linkType'' unull),
          (''linkSpeedMbps'', fld_nn w ''linkSpeedMbps'' (fld_or w ''speedMbps''
             (uor (case ifaces of [] \<Rightarrow> V JUndef | f # _ \<Rightarrow> u_fld f ''capMbps'') (V (JNum 1000))))),
          (''lldp'', fld_nn w ''lldp'' (fld_or w ''viaLldp'' (ubool False))),
          (''rssi'', fld w ''rssi''),
          (''label'', fld w ''label'')])
      })"

text \<open>The detail view merges the nested answer into one row.\<close>

definition loadNode_row :: "jval \<Rightarrow> jval option" where
  "loadNode_row w =
     (if nullish w then None
      else let flat = fold (\<lambda>(k, v). put k v) (own_props (jget w ''node'') @ own_props (jget w ''host'')) [] in
        Some (JObj (if truthy (jget w ''procs'') then put ''procs'' (jget w ''procs'') flat else flat)))"

definition loadNode :: "clock \<Rightarrow> (string \<times> uval) list \<Rightarrow> jval \<Rightarrow> uval option" where
  "loadNode ck segIndex w = loadNode_row w \<bind> mapNode ck segIndex"

subsection \<open>Probes and alerts\<close>

definition monitor_name :: "jval \<Rightarrow> uval" where
  "monitor_name v = fld_or v ''monitorName''
     (if nullish (jget v ''monitorNode'') then ustr ''monitor''
      else let s = js_String (jget v ''monitorNode'') in ustr (''mon-'' @ drop (length s - 4) s))"

definition vantage :: "clock \<Rightarrow> jval \<Rightarrow> uval option" where
  "vantage ck v = (if nullish v then None else Some (R [
     (''monitorNode'', fld v ''monitorNode''),
     (''monitorName'', monitor_name v),
     (''outcome'', fld v ''outcome''),
     (''rttMicros'', fld_or v ''rttMicros'' u0),
     (''jitterMicros'', fld_or v ''jitterMicros'' u0),
     (''lossPermille'', fld_nn v ''lossPermille'' u0),
     (''throughputKbps'', fld_or v ''throughputKbps'' u0),
     (''sampledMin'', fld_nn v ''sampledMin'' (opt_age u0 (minsSince ck (jget v ''sampledAt''))))]))"

definition bad_outcome :: "uval \<Rightarrow> bool" where
  "bad_outcome v \<longleftrightarrow> u_fld v ''outcome'' \<noteq> ustr ''ok''"

definition mapProbe :: "clock \<Rightarrow> jval \<Rightarrow> uval option" where
  "mapProbe ck w =
     (if nullish w then None else do {
        vantages \<leftarrow> jmap (vantage ck) (jor (jget w ''vantages'') (JArr []));
        let anyBad = list_ex bad_outcome vantages;
        let allBad = (length vantages > 0 \<and> list_all bad_outcome vantages);
        Some (R [
          (''targetId'', fld w ''targetId''), (''host'', fld w ''host''),
          (''hostNode'', fld w ''hostNode''), (''hostName'', fld_or w ''hostName'' unull), (''assetId'', fld w ''assetId''),
          (''port'', fld w ''port''), (''proto'', fld w ''proto''), (''label'', fld w ''label''),
          (''replFactor'', fld_nn w ''replFactor'' (ulen vantages)),
          (''vantages'', L vantages),
          (''state'', fld_or w ''state'' (ustr (if allBad then ''down'' else if anyBad then ''degraded'' else ''up'')))])
      })"

definition mapAlert :: "clock \<Rightarrow> (string \<times> uval) list \<Rightarrow> jval \<Rightarrow> uval option" where
  "mapAlert ck nodeIndex w =
     (if nullish w then None
      else let n = (if nullish (jget w ''nodeId'') then None else map_of nodeIndex (js_String (jget w ''nodeId'')));
               of_node = (\<lambda>k. case n of Some nd \<Rightarrow> u_fld nd k | None \<Rightarrow> unull);
               cleared = fld_nn w ''cleared'' (ubool (truthy (jget w ''clearedAt''))) in
        Some (R [
          (''eventId'', fld w ''eventId''), (''ruleId'', fld w ''ruleId''), (''ruleName'', fld w ''ruleName''),
          (''node'', fld_or w ''node'' (of_node ''name'')),
          (''nodeId'', fld_nn w ''nodeId'' unull),
          (''segName'', fld_or w ''segName'' (of_node ''segName'')),
          (''severity'', fld w ''severity''), (''detail'', fld w ''detail''),
          (''firedMinAgo'', fld_nn w ''firedMinAgo'' (opt_age u0 (minsSince ck (jget w ''firedAt'')))),
          (''cleared'', cleared),
          (''clearedMinAgo'', fld_nn w ''clearedMinAgo'' (opt_age unull (minsSince ck (jget w ''clearedAt'')))),
          (''ackedAt'', fld_or w ''ackedAt'' unull),
          (''ackedBy'', fld_or w ''ackedBy'' unull),
          (''ackedMinAgo'', fld_nn w ''ackedMinAgo'' (opt_age unull (minsSince ck (jget w ''ackedAt'')))),
          (''status'', fld_or w ''status'' (ustr (if truthy (jget w ''ackedAt'') then ''acked''
             else if u_truthy cleared then ''cleared'' else ''active''))),
          (''opieReportId'', fld_nn w ''opieReportId'' unull)]))"

definition mapOpie :: "clock \<Rightarrow> jval \<Rightarrow> uval option" where
  "mapOpie ck w = (if nullish w then None else Some (R [
     (''reportId'', fld w ''reportId''),
     (''incidentKey'', fld_or w ''incidentKey'' unull),
     (''triggerKind'', fld_or w ''triggerKind'' unull),
     (''firstEventId'', fld_nn w ''firstEventId'' unull),
     (''nodeId'', fld_nn w ''nodeId'' unull),
     (''hostFqdn'', fld_or w ''hostFqdn'' unull),
     (''severity'', fld_or w ''severity'' (ustr ''warn'')),
     (''status'', fld_or w ''status'' (ustr ''investigating'')),
     (''summary'', fld_or w ''summary'' uempty),
     (''analysis'', fld_nn w ''analysis'' unull),
     (''model'', fld_or w ''model'' unull),
     (''durationSec'', fld_nn w ''durationSec'' unull),
     (''startedAt'', fld_or w ''startedAt'' unull),
     (''finishedAt'', fld_or w ''finishedAt'' unull),
     (''startedMinAgo'', opt_age unull (minsSince ck (jget w ''startedAt''))),
     (''finishedMinAgo'', opt_age unull (minsSince ck (jget w ''finishedAt'')))]))"

subsection \<open>Discovery, maintenance and the integrations\<close>

definition mdns_services :: "jval \<Rightarrow> uval" where
  "mdns_services v = (case v of
     JArr xs \<Rightarrow> V v
   | JStr s \<Rightarrow> L (map ustr (filter (\<lambda>t. t \<noteq> []) (map js_trim (split_on (CHR '','') s))))
   | _ \<Rightarrow> L [])"

definition mapDiscovered :: "clock \<Rightarrow> jval \<Rightarrow> uval option" where
  "mapDiscovered ck w = (if nullish w then None else Some (R [
     (''discId'', fld w ''discId''),
     (''host'', fld_or w ''host'' (fld w ''ip'')),
     (''ip'', fld w ''ip''),
     (''via'', fld w ''via''),
     (''kind'', fld w ''kind''),
     (''services'', fld_or w ''services'' (L [])),
     (''seen'', fld_nn w ''seen'' (opt_age u0 (minsSince ck (jget w ''lastSeenAt'')))),
     (''seenCount'', fld w ''seenCount''),
     (''seg'', fld_or w ''segId'' (fld w ''seg'')),
     (''arch'', fld w ''arch''),
     (''status'', fld w ''status''),
     (''lastSeenAt'', fld_or w ''lastSeenAt'' unull),
     (''firstSeenAt'', fld_or w ''firstSeenAt'' unull),
     (''mac'', fld_or w ''mac'' unull),
     (''vendor'', fld_or w ''vendor'' unull),
     (''osName'', fld_or w ''osName'' unull),
     (''deviceRole'', fld_or w ''deviceRole'' unull),
     (''sysDescr'', fld_or w ''sysDescr'' unull),
     (''enrichedAt'', fld_or w ''enrichedAt'' unull),
     (''mdnsName'', fld_or w ''mdnsName'' unull),
     (''mdnsServices'', mdns_services (jget w ''mdnsServices'')),
     (''osGuess'', fld_or w ''osGuess'' unull),
     (''openPorts'', A (jget w ''openPorts'')),
     (''neighbor'', fld_or w ''neighbor'' unull),
     (''tombstone'', fld_or w ''tombstone'' unull)]))"

definition mapMaintenance :: "jval \<Rightarrow> uval option" where
  "mapMaintenance w = (if nullish w then None else Some (R [
     (''windowId'', fld w ''windowId''),
     (''scope'', fld_or w ''scope''
        (ustr (if nullish (jget w ''nodeId'') \<and> \<not> truthy (jget w ''hostFqdn'') then ''all'' else ''node''))),
     (''nodeId'', fld_nn w ''nodeId'' unull),
     (''hostFqdn'', fld_or w ''hostFqdn'' unull),
     (''ipAddr'', fld_or w ''ipAddr'' (fld_or w ''ip'' unull)),
     (''reason'', fld_or w ''reason'' uempty),
     (''startsAt'', fld_or w ''startsAt'' unull),
     (''endsAt'', fld_or w ''endsAt'' unull),
     (''status'', fld_or w ''status'' (ustr ''scheduled'')),
     (''createdBy'', fld_or w ''createdBy'' unull),
     (''live'', ubool (if nullish (jget w ''live'') then jget w ''status'' = JStr ''active'' else truthy (jget w ''live'')))]))"

definition mapForgejo :: "jval \<Rightarrow> uval" where
  "mapForgejo v = (let w = jor v (JObj []) in R [
     (''available'', ubool (truthy (jget w ''available''))),
     (''reason'', fld_or w ''reason'' unull),
     (''baseUrl'', fld_or w ''baseUrl'' unull),
     (''version'', fld_or w ''version'' (ustr ''-'')),
     (''counts'', fld_or w ''counts'' (R [(''repos'', ulen (jarr (jget w ''repos''))), (''openIssues'', u0),
        (''openPrs'', ulen (jarr (jget w ''prs'')))])),
     (''repos'', A (jget w ''repos'')),
     (''commits'', A (jget w ''commits'')),
     (''prs'', A (jget w ''prs''))])"

definition ca_generation :: "jval \<Rightarrow> uval" where
  "ca_generation v = (let g = jor v (JObj []) in R (assign (umembers g) [
     (''counts'', fld_or g ''counts'' (R [(''current'', u0), (''stale'', u0), (''pending'', u0), (''offline'', u0), (''expired'', u0)])),
     (''peers'', A (jget g ''peers'')),
     (''excludedPeers'', A (jget g ''excludedPeers''))]))"

definition mapCa :: "jval \<Rightarrow> uval" where
  "mapCa v = (let w = jor v (JObj []); crl = jor (jget w ''crl'') (JObj []) in R [
     (''stepCa'', fld_or w ''stepCa'' (R [(''available'', ubool False), (''status'', unull), (''reason'', ustr ''unavailable''), (''url'', unull)])),
     (''roots'', A (jget w ''roots'')),
     (''provisioners'', A (jget w ''provisioners'')),
     (''nodeCerts'', A (jget w ''nodeCerts'')),
     (''crl'', R (assign (umembers crl) [(''available'', ubool (truthy (jget crl ''available''))),
        (''generations'', L (map ca_generation (jarr (jget crl ''generations''))))])),
     (''warnDays'', fld_nn w ''warnDays'' (V (JNum 60)))])"

definition dns_result :: "jval \<Rightarrow> uval" where
  "dns_result v = (let r = jor v (JObj []) in R [
     (''server'', fld_or r ''server'' (R [(''id'', ustr ''?''), (''label'', ustr ''?''), (''ip'', uempty), (''kind'', ustr ''internal'')])),
     (''status'', fld_or r ''status'' (ustr ''TIMEOUT'')),
     (''flags'', fld_or r ''flags'' (R [(''aa'', ubool False), (''ra'', ubool False)])),
     (''answers'', A (jget r ''answers'')),
     (''authority'', A (jget r ''authority'')),
     (''queryTimeMs'', fld_nn r ''queryTimeMs'' unull),
     (''rpzBlocked'', ubool (truthy (jget r ''rpzBlocked''))),
     (''error'', fld_or r ''error'' unull)])"

definition mapDnsQuery :: "jval \<Rightarrow> uval" where
  "mapDnsQuery v = (let w = jor v (JObj []) in R [
     (''name'', fld_or w ''name'' uempty),
     (''type'', fld_or w ''type'' (ustr ''A'')),
     (''ts'', fld_or w ''ts'' unull),
     (''results'', L (map dns_result (jarr (jget w ''results''))))])"

definition dns_zone :: "jval \<Rightarrow> uval" where
  "dns_zone v = (let z = jor v (JObj []) in R [
     (''name'', fld_or z ''name'' uempty), (''kind'', fld_or z ''kind'' unull), (''authority'', fld_or z ''authority'' unull),
     (''expectedServers'', A (jget z ''expectedServers'')),
     (''soa'', fld_or z ''soa'' (R [])),
     (''parity'', ubool (truthy (jget z ''parity'')))])"

definition mapDnsHealth :: "jval \<Rightarrow> uval" where
  "mapDnsHealth v = (let w = jor v (JObj []) in R [
     (''sorAvailable'', ubool (jget w ''sorAvailable'' \<noteq> JBool False)),
     (''servers'', A (jget w ''servers'')),
     (''zones'', L (map dns_zone (jarr (jget w ''zones'')))),
     (''rpz'', fld_or w ''rpz'' unull)])"

definition mapEnrollment :: "clock \<Rightarrow> jval \<Rightarrow> uval option" where
  "mapEnrollment ck w = (if nullish w then None else Some (R [
     (''enrId'', fld w ''enrId''),
     (''host'', fld w ''host''), (''ip'', fld w ''ip''), (''role'', fld w ''role''),
     (''fp'', fld_or w ''certFp'' (fld w ''fp'')),
     (''requestedMin'', fld_nn w ''requestedMin'' (opt_age u0 (minsSince ck (jget w ''requestedAt'')))),
     (''status'', fld w ''status'')]))"

definition mapBuild :: "jval \<Rightarrow> uval option" where
  "mapBuild w = (if nullish w then None else Some (R [
     (''buildId'', fld w ''buildId''),
     (''arch'', fld w ''arch''), (''os'', fld w ''os''), (''version'', fld w ''version''), (''channel'', fld w ''channel''),
     (''nodes'', fld_nn w ''nodes'' (fld_or w ''nodeCount'' u0)),
     (''status'', fld_or w ''status'' (ustr (if truthy (jget w ''updateAvailable'') then ''update'' else ''current'')))]))"

definition mapGear :: "jval \<Rightarrow> uval option" where
  "mapGear w = (if nullish w then None else Some (R [
     (''id'', fld_or w ''gearId'' (fld w ''id'')),
     (''name'', fld w ''name''), (''kind'', fld w ''kind''), (''model'', fld w ''model''),
     (''seg'', fld_or w ''segId'' (fld w ''seg'')), (''ports'', fld w ''ports''),
     (''uplink'', fld_or w ''uplinkGearId'' (fld_or w ''uplink'' unull)),
     (''wireless'', ubool (truthy (jget w ''wireless''))),
     (''attached'', fld_nn w ''attached'' (fld_or w ''attachedCount'' u0))]))"

subsection \<open>Rollups and systems without an agent\<close>

definition rollup_step :: "(string \<times> nat) list \<Rightarrow> uval \<Rightarrow> (string \<times> nat) list" where
  "rollup_step r n = (let k = u_str (u_fld n ''state'') in
     case map_of r k of Some c \<Rightarrow> put k (c + 1) r | None \<Rightarrow> r)"

definition rollup :: "uval list \<Rightarrow> (string \<times> nat) list" where
  "rollup ns = foldl rollup_step
     [(''total'', length ns), (''up'', 0), (''degraded'', 0), (''down'', 0), (''unknown'', 0), (''retired'', 0)] ns"

definition mapAssetNode :: "clock \<Rightarrow> jval \<Rightarrow> uval option" where
  "mapAssetNode ck a = (if nullish a then None else Some (R [
     (''nodeId'', ustr (''asset-'' @ js_String (jget a ''assetId''))), (''assetId'', fld a ''assetId''), (''isAsset'', ubool True),
     (''sym'', uempty), (''name'', fld_or a ''displayName'' (fld a ''ip'')), (''hostFqdn'', fld_or a ''host'' (fld a ''ip'')), (''ip'', fld a ''ip''),
     (''role'', ustr ''system''), (''segId'', fld a ''poolId''), (''segName'', fld_or a ''poolName'' (ustr ''Unassigned'')), (''cidr'', uempty),
     (''osName'', fld a ''class''), (''arch'', uempty), (''state'', fld_or a ''state'' (ustr ''unknown'')),
     (''criticality'', fld_nn a ''criticality'' unull),
     (''lifecycle'', fld_or a ''lifecycle'' unull),
     (''lastSeenMin'', if nullish (jget a ''lastSeenAt'') then fld_nn a ''lastSeenMin'' unull
        else opt_age unull (minsSince ck (jget a ''lastSeenAt''))),
     (''enrolledDaysAgo'', u0), (''configEpoch'', u0), (''converged'', ubool True),
     (''cpuPct'', u0), (''cores'', L []), (''ramPct'', u0), (''ramUsedKb'', u0), (''ramTotalKb'', u0),
     (''swapPct'', u0), (''swapUsedKb'', u0), (''swapTotalKb'', u0),
     (''disks'', L []), (''ifaces'', L []), (''procs'', L []), (''diskMaxPct'', u0),
     (''netTotalMbps'', u0), (''netCapMbps'', u0), (''alertsCount'', u0),
     (''hist'', no_hist), (''uptimeDays'', u0),
     (''uplink'', unull), (''uplinkPort'', unull), (''linkType'', unull), (''linkSpeedMbps'', u0), (''lldp'', ubool False),
     (''targetCount'', fld a ''targetCount''), (''tags'', fld_or a ''tags'' (L [])), (''pool'', fld a ''poolName'')]))"

subsection \<open>History series\<close>

definition historyMetric :: "jval \<Rightarrow> jval" where
  "historyMetric metric =
     (case map_of [(''cpu'', ''cpuAvgMilli''), (''ram'', ''ramUsedKb''), (''swap'', ''swapUsedKb''), (''disk'', ''diskMinFreePct''), (''net'', ''netKbps'')]
        (js_String metric) of
        Some m \<Rightarrow> JStr m | None \<Rightarrow> jor metric (JStr ''cpuAvgMilli''))"

text \<open>\<open>pct\<close> and \<open>milliToPct\<close> of a number.\<close>

definition pct_of :: "jnum \<Rightarrow> jval \<Rightarrow> jnum" where
  "pct_of v tot = (if \<not> truthy tot then Fin 0 else jn_round (jn_scale 100 (jn_div v (js_Number tot))))"

definition milli_pct :: "jnum \<Rightarrow> jnum" where
  "milli_pct v = jn_max (Fin 0) (jn_min (Fin 100) (jn_round (jn_div v (Fin 10))))"

definition historyValue :: "jval \<Rightarrow> jval \<Rightarrow> jval \<Rightarrow> jnum" where
  "historyValue raw metric opts =
     (let v = js_Number (jor raw (JNum 0)); kb = (\<lambda>k. jor (jget opts ''totalKb'') (jor (jget opts k) (JNum 0))) in
      if metric = JStr ''cpuAvgMilli'' then milli_pct v
      else if metric = JStr ''ramUsedKb'' then pct_of v (kb ''ramTotalKb'')
      else if metric = JStr ''swapUsedKb'' then pct_of v (kb ''swapTotalKb'')
      else if metric = JStr ''diskMinFreePct'' then jn_max (Fin 0) (jn_min (Fin 100) (jn_add (Fin 100) (jn_scale (-1) v)))
      else if metric = JStr ''netKbps'' then jn_div (jn_round (jn_scale 10 (jn_div v (Fin 1000)))) (Fin 10)
      else v)"

definition point_value :: "jval \<Rightarrow> jval" where
  "point_value p = (case p of JObj kvs \<Rightarrow> (case map_of kvs ''value'' of Some v \<Rightarrow> v | None \<Rightarrow> p) | _ \<Rightarrow> p)"

definition loadNodeHistory :: "jval \<Rightarrow> jval \<Rightarrow> jval \<Rightarrow> jnum list option" where
  "loadNodeHistory metric opts w =
     (let series = (if is_arr w then w else jor (jor (jget w ''series'') (jget w ''points'')) (JArr [])) in
      case series of
        JArr ps \<Rightarrow> Some (map (\<lambda>p. historyValue (point_value p) (historyMetric metric) opts) ps)
      | _ \<Rightarrow> None)"

definition gearHistory_series :: "jval \<Rightarrow> jnum list option" where
  "gearHistory_series w =
     (case (if is_arr w then w else jor (jget w ''series'') (JArr [])) of
        JArr ps \<Rightarrow> Some (map (\<lambda>p. js_Number (jor (point_value p) (JNum 0))) ps)
      | _ \<Rightarrow> None)"

subsection \<open>Rows that cannot raise\<close>

lemma pct_as_pct_of: "pct used tot = pct_of (js_Number used) tot"
  by (simp add: pct_def pct_of_def)

lemma milliToPct_as_milli_pct: "\<not> nullish m \<Longrightarrow> milliToPct m = milli_pct (js_Number m)"
  by (simp add: milliToPct_def milli_pct_def)

lemma those_eq_None: "those xs = None \<longleftrightarrow> None \<in> set xs"
  by (induction xs) (auto split: option.split)

lemma those_SomeD: "those xs = Some ys \<Longrightarrow> xs = map Some ys"
  by (induction xs arbitrary: ys) (auto split: option.splits)

lemma jmap_SomeD: "jmap f v = Some us \<Longrightarrow> \<exists>xs. v = JArr xs \<and> map f xs = map Some us"
  by (auto simp: jmap_def split: jval.splits dest: those_SomeD)

text \<open>A list of a row is absent or an array without null entries.\<close>

definition rows_ok :: "jval \<Rightarrow> bool" where
  "rows_ok v \<longleftrightarrow> \<not> truthy v \<or> (is_arr v \<and> list_all (\<lambda>x. \<not> nullish x) (jarr v))"

lemma jmap_ok:
  assumes "rows_ok v" "\<And>x. \<not> nullish x \<Longrightarrow> f x \<noteq> None"
  shows "\<exists>us. jmap f (jor v (JArr [])) = Some us"
proof -
  obtain xs where xs: "jor v (JArr []) = JArr xs" "list_all (\<lambda>x. \<not> nullish x) xs"
    using assms(1) by (cases v) (auto simp: rows_ok_def jor_def)
  then have "those (map f xs) \<noteq> None" using assms(2) by (auto simp: those_eq_None list_all_iff) (metis option.distinct(1))
  then show ?thesis using xs(1) by (auto simp: jmap_def)
qed

definition node_row_ok :: "jval \<Rightarrow> bool" where
  "node_row_ok w \<longleftrightarrow> \<not> nullish w \<and> rows_ok (jget w ''disks'') \<and> rows_ok (jget w ''ifaces'') \<and> rows_ok (jget w ''procs'') \<and>
     is_arr (jor (jget w ''cpuLoadMilli'') (jor (jget w ''cores'') (JArr []))) \<and>
     (\<not> truthy (jget w ''name'') \<and> truthy (jget w ''hostFqdn'') \<longrightarrow> (\<exists>s. jget w ''hostFqdn'' = JStr s))"

lemma those_Some [simp]: "those (map (\<lambda>x. Some (f x)) xs) = Some (map f xs)"
  by (induction xs) simp_all

lemma node_cores_eq:
  assumes "is_arr (jor (jget w ''cpuLoadMilli'') (jor (jget w ''cores'') (JArr [])))"
  shows "node_cores w = Some (map (\<lambda>c. if truthy (jget w ''cpuLoadMilli'') then N (milliToPct c) else V c)
    (jarr (jor (jget w ''cpuLoadMilli'') (jor (jget w ''cores'') (JArr [])))))"
  using assms unfolding node_cores_def jmap_def
  by (cases "jor (jget w ''cpuLoadMilli'') (jor (jget w ''cores'') (JArr []))") simp_all

lemma mapNode_parts:
  assumes "mapNode ck idx w = Some n"
  shows "\<exists>cores disks. node_cores w = Some cores \<and> jmap node_disk (jor (jget w ''disks'') (JArr [])) = Some disks \<and>
    u_fld n ''cpuPct'' = node_cpu w cores \<and> u_fld n ''disks'' = L disks \<and> u_fld n ''diskMaxPct'' = N (disk_max disks) \<and>
    u_fld n ''nodeId'' = fld w ''nodeId'' \<and> u_fld n ''state'' = fld w ''state''"
  using assms by (auto simp: mapNode_def Let_def bind_eq_Some_conv split: if_splits)

lemma mapNode_total: "node_row_ok w \<Longrightarrow> \<exists>n. mapNode ck idx w = Some n"
proof -
  assume ok: "node_row_ok w"
  obtain cores where "node_cores w = Some cores" using ok node_cores_eq by (auto simp: node_row_ok_def)
  moreover obtain disks where "jmap node_disk (jor (jget w ''disks'') (JArr [])) = Some disks"
    using ok jmap_ok [of "jget w ''disks''" node_disk] by (auto simp: node_row_ok_def node_disk_def)
  moreover obtain ifaces where "jmap node_iface (jor (jget w ''ifaces'') (JArr [])) = Some ifaces"
    using ok jmap_ok [of "jget w ''ifaces''" node_iface] by (auto simp: node_row_ok_def node_iface_def)
  moreover obtain procs where "jmap node_proc (jor (jget w ''procs'') (JArr [])) = Some procs"
    using ok jmap_ok [of "jget w ''procs''" node_proc] by (auto simp: node_row_ok_def node_proc_def)
  moreover have "host_label w \<noteq> None" using ok by (auto simp: host_label_def node_row_ok_def)
  then obtain name where "host_label w = Some name" by blast
  ultimately show ?thesis using ok by (simp add: mapNode_def node_row_ok_def Let_def)
qed

subsection \<open>Percentages\<close>

definition percentage :: "uval \<Rightarrow> bool" where
  "percentage u \<longleftrightarrow> (\<exists>i::int. u = N (Fin (of_int i)) \<and> 0 \<le> i \<and> i \<le> 100)"

lemma milliToPct_num: "\<exists>i::int. milliToPct (JNum r) = Fin (of_int i) \<and> 0 \<le> i \<and> i \<le> 100"
proof -
  let ?i = "max 0 (min 100 (js_round (r / 10)))"
  have "milliToPct (JNum r) = Fin (of_int ?i)"
    by (simp add: milliToPct_def jn_max_def jn_min_def min_def max_def)
  then show ?thesis by (intro exI [of _ ?i]) simp
qed

lemma sum_cores:
  assumes "list_all percentage us" "0 \<le> a"
  shows "\<exists>s::int. foldl u_plus (N (Fin (of_int a))) us = N (Fin (of_int s)) \<and> a \<le> s \<and> s \<le> a + 100 * int (length us)"
  using assms
proof (induction us arbitrary: a)
  case (Cons u us)
  obtain i :: int where i: "u = N (Fin (of_int i))" "0 \<le> i" "i \<le> 100" using Cons.prems(1) by (auto simp: percentage_def)
  have "u_plus (N (Fin (of_int a))) u = N (Fin (of_int (a + i)))" using i(1) by (simp add: u_plus_def)
  then show ?case using Cons.IH [of "a + i"] Cons.prems i(2,3) by fastforce
qed auto

lemma mean_percentage:
  assumes "list_all percentage us" "us \<noteq> []"
  shows "percentage (N (jn_round (jn_div (u_num (foldl u_plus u0 us)) (Fin (real (length us))))))"
proof -
  obtain v vs where us: "us = v # vs" using assms(2) by (cases us) auto
  have "u_plus u0 v = u_plus (N (Fin (of_int 0))) v" by (simp add: u_plus_def u0_def)
  then have "foldl u_plus u0 us = foldl u_plus (N (Fin (of_int 0))) us" by (simp add: us)
  then obtain s :: int where s: "foldl u_plus u0 us = N (Fin (of_int s))" "0 \<le> s" "s \<le> 100 * int (length us)"
    using sum_cores [OF assms(1), of 0] by auto
  have "0 \<le> real_of_int s / real (length us)" using s(2) by simp
  moreover have "real_of_int s / real (length us) \<le> 100"
  proof -
    have "real_of_int s \<le> 100 * real (length us)" using s(3) by linarith
    then show ?thesis using assms(2) by (simp add: divide_le_eq)
  qed
  ultimately have "0 \<le> js_round (real_of_int s / real (length us))" "js_round (real_of_int s / real (length us)) \<le> 100"
    using js_round_mono [of 0] js_round_mono [of _ 100] js_round_of_int [of 0] js_round_of_int [of 100] by fastforce+
  then show ?thesis using s(1) assms(2) unfolding percentage_def by simp
qed

lemma disk_max_ge:
  assumes "\<forall>d\<in>set ds. \<exists>r. u_num (u_fld d ''usedPct'') = Fin r"
  shows "\<exists>m. foldl (\<lambda>m d. jn_max m (u_num (u_fld d ''usedPct''))) (Fin a) ds = Fin m \<and> a \<le> m \<and>
    (\<forall>d\<in>set ds. \<forall>r. u_num (u_fld d ''usedPct'') = Fin r \<longrightarrow> r \<le> m) \<and>
    (m = a \<or> (\<exists>d\<in>set ds. u_num (u_fld d ''usedPct'') = Fin m))"
  using assms
proof (induction ds arbitrary: a)
  case (Cons d ds)
  obtain r where r: "u_num (u_fld d ''usedPct'') = Fin r" using Cons.prems by auto
  then have "jn_max (Fin a) (u_num (u_fld d ''usedPct'')) = Fin (max a r)" by (simp add: jn_max_def max_def)
  moreover obtain m where "foldl (\<lambda>m d. jn_max m (u_num (u_fld d ''usedPct''))) (Fin (max a r)) ds = Fin m" "max a r \<le> m"
    "\<forall>d\<in>set ds. \<forall>r. u_num (u_fld d ''usedPct'') = Fin r \<longrightarrow> r \<le> m"
    "m = max a r \<or> (\<exists>d\<in>set ds. u_num (u_fld d ''usedPct'') = Fin m)"
    using Cons.IH [of "max a r"] Cons.prems by auto
  ultimately show ?case using r by (intro exI [of _ m]) (auto simp: max_def split: if_splits)
qed simp

lemma mapped_disk:
  assumes "jget d ''usedPct'' = JUndef" "jget d ''usedKb'' = JNum u" "jget d ''totalKb'' = JNum t" "node_disk d = Some v"
  shows "\<exists>r. u_fld v ''usedPct'' = N (Fin r)"
  using assms by (auto simp: node_disk_def fld_nn_def pct_def split: if_splits)

subsection \<open>Properties\<close>

text \<open>Property C15. A node row whose lists are absent or arrays without nulls and whose name or host is text never
  raises.  When its processor loads are a non-empty list of numbers and its disks give used and total
  sizes as numbers, the processor figure is a whole percentage from 0 to 100, and the disk figure is the
  largest of the disks' percentages, or 0.\<close>

theorem mapNode_figures:
  assumes "node_row_ok w" "nullish (jget w ''cpuPct'')" "jget w ''cpuLoadMilli'' = JArr (map JNum ms)" "ms \<noteq> []"
    "\<forall>d\<in>set (jarr (jget w ''disks'')). jget d ''usedPct'' = JUndef \<and> (\<exists>u t. jget d ''usedKb'' = JNum u \<and> jget d ''totalKb'' = JNum t)"
  shows "\<exists>n ds m. mapNode ck idx w = Some n \<and> percentage (u_fld n ''cpuPct'') \<and>
    u_fld n ''disks'' = L ds \<and> u_fld n ''diskMaxPct'' = N (Fin m) \<and> 0 \<le> m \<and>
    (\<forall>d\<in>set ds. \<exists>r. u_fld d ''usedPct'' = N (Fin r) \<and> r \<le> m) \<and>
    (m = 0 \<or> (\<exists>d\<in>set ds. u_fld d ''usedPct'' = N (Fin m)))"
proof -
  obtain n where n: "mapNode ck idx w = Some n" using mapNode_total [OF assms(1)] by blast
  obtain cores ds where p: "node_cores w = Some cores" "jmap node_disk (jor (jget w ''disks'') (JArr [])) = Some ds"
    "u_fld n ''cpuPct'' = node_cpu w cores" "u_fld n ''disks'' = L ds" "u_fld n ''diskMaxPct'' = N (disk_max ds)"
    using mapNode_parts [OF n] by blast
  have c: "cores = map (\<lambda>r. N (milliToPct (JNum r))) ms"
    using p(1) node_cores_eq [of w] assms(3) by (simp add: jor_def comp_def)
  have "list_all percentage cores" using milliToPct_num by (fastforce simp: c list_all_iff percentage_def)
  then have "percentage (u_fld n ''cpuPct'')"
    using mean_percentage [of cores] p(3) assms(2,4) by (simp add: node_cpu_def fld_nn_def c)
  moreover have used: "\<exists>r. u_fld d ''usedPct'' = N (Fin r)" if "d \<in> set ds" for d
  proof -
    obtain xs where xs: "jor (jget w ''disks'') (JArr []) = JArr xs" "map node_disk xs = map Some ds" using jmap_SomeD [OF p(2)] by blast
    have "Some d \<in> set (map node_disk xs)" using that xs(2) by simp
    then obtain x where x: "x \<in> set xs" "node_disk x = Some d" by auto
    have "x \<in> set (jarr (jget w ''disks''))" using x(1) xs(1) by (auto simp: jor_def split: if_splits)
    then show ?thesis using assms(5) mapped_disk [OF _ _ _ x(2)] by blast
  qed
  moreover have "\<forall>d\<in>set ds. \<exists>r. u_num (u_fld d ''usedPct'') = Fin r" using used by (metis u_num.simps(2))
  from disk_max_ge [OF this, of 0] obtain m where m: "disk_max ds = Fin m" "0 \<le> m"
    "\<forall>d\<in>set ds. \<forall>r. u_num (u_fld d ''usedPct'') = Fin r \<longrightarrow> r \<le> m"
    "m = 0 \<or> (\<exists>d\<in>set ds. u_num (u_fld d ''usedPct'') = Fin m)" unfolding disk_max_def by blast
  have "\<exists>r. u_fld d ''usedPct'' = N (Fin r) \<and> r \<le> m" if d: "d \<in> set ds" for d
  proof -
    obtain r where "u_fld d ''usedPct'' = N (Fin r)" using used [OF d] by blast
    then show ?thesis using m(3) d by (intro exI [of _ r]) simp
  qed
  moreover have "u_fld d ''usedPct'' = N (Fin m)" if "d \<in> set ds" "u_num (u_fld d ''usedPct'') = Fin m" for d
    using used [OF that(1)] that(2) by auto
  then have "m = 0 \<or> (\<exists>d\<in>set ds. u_fld d ''usedPct'' = N (Fin m))" using m(4) by blast
  ultimately show ?thesis using n p(4,5) m(1,2) by (intro exI [of _ n] exI [of _ ds] exI [of _ m]) simp
qed

definition sample_node :: jval where
  "sample_node = JObj [(''nodeId'', JNum 3), (''hostFqdn'', JStr ''atlas.example''), (''cpuLoadMilli'', JArr (map JNum [250, 1500])),
     (''disks'', JArr [JObj [(''usedKb'', JNum 1), (''totalKb'', JNum 4)]])]"

theorem mapNode_figures_witness:
  "\<exists>n. mapNode \<lparr>ck_now = 0, ck_parse = (\<lambda>s. None)\<rparr> [] sample_node = Some n \<and> percentage (u_fld n ''cpuPct'')"
  using mapNode_figures [of sample_node "[250, 1500]" "\<lparr>ck_now = 0, ck_parse = (\<lambda>s. None)\<rparr>" "[]"]
  by (auto simp: sample_node_def node_row_ok_def rows_ok_def jor_def)

lemma bad_vantage: "vantage ck v = Some u \<Longrightarrow> bad_outcome u \<longleftrightarrow> jget v ''outcome'' \<noteq> JStr ''ok''"
  by (auto simp: vantage_def bad_outcome_def fld_def ustr_def split: if_splits)

lemma monitor_name_shown: "vantage ck v = Some u \<Longrightarrow> u_truthy (u_fld u ''monitorName'')"
  by (auto simp: vantage_def monitor_name_def fld_or_def uor_def ustr_def Let_def split: if_splits)

lemma vantage_rows:
  assumes "rows_ok v"
  shows "jmap (vantage ck) (jor v (JArr [])) = Some (map (\<lambda>x. the (vantage ck x)) (jarr (jor v (JArr []))))"
    "\<forall>x\<in>set (jarr (jor v (JArr []))). vantage ck x = Some (the (vantage ck x))"
proof -
  show all: "\<forall>x\<in>set (jarr (jor v (JArr []))). vantage ck x = Some (the (vantage ck x))"
    using assms by (cases v) (auto simp: rows_ok_def jor_def vantage_def list_all_iff)
  obtain us where us: "jmap (vantage ck) (jor v (JArr [])) = Some us" using jmap_ok [OF assms, of "vantage ck"] by (auto simp: vantage_def)
  then obtain xs where xs: "jor v (JArr []) = JArr xs" "map (vantage ck) xs = map Some us" using jmap_SomeD by blast
  have "map (\<lambda>x. the (vantage ck x)) xs = map the (map (vantage ck) xs)" by simp
  also have "\<dots> = us" using xs(2) by (simp add: comp_def)
  finally show "jmap (vantage ck) (jor v (JArr [])) = Some (map (\<lambda>x. the (vantage ck x)) (jarr (jor v (JArr []))))"
    using us xs(1) by simp
qed

text \<open>A probe row whose vantages are absent or an array without nulls never raises; every vantage of
  the result has a monitor name to show; and a row that brings no state of its own is down when it has
  vantages and none reports ok, degraded when some but not all report something else, and up otherwise.\<close>

theorem mapProbe_state:
  assumes "\<not> nullish w" "rows_ok (jget w ''vantages'')" "\<not> truthy (jget w ''state'')"
  defines "outcomes \<equiv> map (\<lambda>v. jget v ''outcome'') (jarr (jor (jget w ''vantages'') (JArr [])))"
  shows "\<exists>p vs. mapProbe ck w = Some p \<and> u_fld p ''vantages'' = L vs \<and> (\<forall>v\<in>set vs. u_truthy (u_fld v ''monitorName'')) \<and>
    u_fld p ''state'' = V (JStr (if outcomes \<noteq> [] \<and> JStr ''ok'' \<notin> set outcomes then ''down''
      else if \<exists>x\<in>set outcomes. x \<noteq> JStr ''ok'' then ''degraded'' else ''up''))"
proof -
  define xs where "xs = jarr (jor (jget w ''vantages'') (JArr []))"
  define vs where "vs = map (\<lambda>x. the (vantage ck x)) xs"
  have j: "jmap (vantage ck) (jor (jget w ''vantages'') (JArr [])) = Some vs" and e: "\<forall>x\<in>set xs. vantage ck x = Some (the (vantage ck x))"
    using vantage_rows [OF assms(2), of ck] by (simp_all add: xs_def vs_def)
  have b: "bad_outcome (the (vantage ck x)) \<longleftrightarrow> jget x ''outcome'' \<noteq> JStr ''ok''" if "x \<in> set xs" for x
    using bad_vantage e that by blast
  have "list_ex bad_outcome vs \<longleftrightarrow> (\<exists>x\<in>set outcomes. x \<noteq> JStr ''ok'')"
    "list_all bad_outcome vs \<longleftrightarrow> JStr ''ok'' \<notin> set outcomes" "length vs > 0 \<longleftrightarrow> outcomes \<noteq> []"
    using b unfolding vs_def outcomes_def xs_def [symmetric] by (auto simp: list_ex_iff list_all_iff image_iff)
  moreover have "\<forall>v\<in>set vs. u_truthy (u_fld v ''monitorName'')" using e monitor_name_shown by (auto simp: vs_def)
  ultimately show ?thesis using assms(1,3) j
    by (auto simp: mapProbe_def Let_def fld_or_def uor_def fld_def ustr_def)
qed

theorem mapProbe_state_witness:
  "\<exists>p. mapProbe \<lparr>ck_now = 0, ck_parse = (\<lambda>s. None)\<rparr>
     (JObj [(''vantages'', JArr [JObj [(''outcome'', JStr ''ok'')], JObj [(''outcome'', JStr ''timeout'')]])]) = Some p \<and>
     u_fld p ''state'' = V (JStr ''degraded'')"
  using mapProbe_state [of "JObj [(''vantages'', JArr [JObj [(''outcome'', JStr ''ok'')], JObj [(''outcome'', JStr ''timeout'')]])]"
      "\<lparr>ck_now = 0, ck_parse = (\<lambda>s. None)\<rparr>"]
  by (auto simp: rows_ok_def jor_def)

lemma rollup_foldl:
  "map_of r k \<noteq> None \<Longrightarrow> map_of (foldl rollup_step r ns) k =
    Some (the (map_of r k) + length (filter (\<lambda>n. u_str (u_fld n ''state'') = k) ns))"
proof (induction ns arbitrary: r)
  case (Cons n ns)
  let ?s = "u_str (u_fld n ''state'')"
  have "map_of (rollup_step r n) k = (if k = ?s then Some (the (map_of r k) + 1) else map_of r k)"
    using Cons.prems by (auto simp: rollup_step_def Let_def map_of_put split: option.split)
  then show ?case using Cons.IH [of "rollup_step r n"] Cons.prems by auto
qed auto

text \<open>A rollup counts, for each of the five states, exactly the nodes in that state, and as total all of
  them, provided that no node reports a state named total.\<close>

theorem rollup_counts:
  assumes "\<forall>n\<in>set ns. u_str (u_fld n ''state'') \<noteq> ''total''"
  shows "map_of (rollup ns) ''total'' = Some (length ns) \<and>
    (\<forall>k. k \<in> {''up'', ''degraded'', ''down'', ''unknown'', ''retired''} \<longrightarrow>
       map_of (rollup ns) k = Some (length (filter (\<lambda>n. u_str (u_fld n ''state'') = k) ns)))"
proof -
  let ?r = "[(''total'', length ns), (''up'', 0), (''degraded'', 0), (''down'', 0), (''unknown'', 0), (''retired'', 0)]"
  have "filter (\<lambda>n. u_str (u_fld n ''state'') = ''total'') ns = []" using assms by (simp add: filter_empty_conv)
  then have "map_of (rollup ns) ''total'' = Some (length ns)" using rollup_foldl [of ?r "''total''" ns] by (simp add: rollup_def)
  moreover have "map_of (rollup ns) k = Some (length (filter (\<lambda>n. u_str (u_fld n ''state'') = k) ns))"
    if "k \<in> {''up'', ''degraded'', ''down'', ''unknown'', ''retired''}" for k
  proof -
    have "map_of ?r k = Some 0" using that by auto
    then show ?thesis using rollup_foldl [of ?r k ns] by (simp add: rollup_def)
  qed
  ultimately show ?thesis by blast
qed

theorem rollup_counts_witness:
  "map_of (rollup [R [(''state'', ustr ''up'')], R [(''state'', ustr ''lost'')], R [(''state'', ustr ''up'')]]) ''up'' = Some 2"
  using rollup_counts [of "[R [(''state'', ustr ''up'')], R [(''state'', ustr ''lost'')], R [(''state'', ustr ''up'')]]"]
  by (simp add: ustr_def)

end
