(* ===== verification/ApiCalls.thy ===== *)
theory ApiCalls
  imports ApiWire
begin

section \<open>The API adapter: endpoints and methods\<close>

text \<open>
  \<open>api.jsx\<close>: the endpoint table \<open>EP\<close> and the methods of the \<open>API\<close> object that issue one request.  As in
  the code the object is a table of functions: each takes its arguments (missing ones are
  \<open>undefined\<close>) and yields the request.  What a method does with the answer is in the theory of the
  mappers.  Lemmas: every method addresses the API, arguments that name a resource stay within their path
  segment, and every request that removes, retires, approves or wipes carries \<open>confirm\<close>.
\<close>

subsection \<open>The endpoint table\<close>

datatype ep =
    EpSummary | EpNodes | EpNode jval | EpNodeHistory jval jval | EpNodeConfig jval | EpAlerts | EpAlertAck | EpAlertAckAll
  | EpOpie | EpOpieReport jval | EpRules | EpRule jval | EpProbes | EpSegments | EpTopology jval | EpNetgear | EpGear
  | EpGearInterfaces jval | EpGearHistory jval jval jval | EpDiscovery | EpDiscScan | EpDiscManualScan | EpDiscScanJobs
  | EpDiscScanRequest jval | EpDiscScanStatus jval | EpDiscAdopt jval | EpDiscIgnore jval

datatype cep =
    EpEnrollments | EpEnrApprove jval | EpEnrReject jval | EpBuilds | EpConfig | EpPools | EpPool jval | EpAssets
  | EpAllocatorNetworks | EpAsset jval | EpProvision | EpDecommission | EpSurvey | EpDeploy | EpFleetProvision | EpImage
  | EpLogin | EpLogout | EpWhoami | EpAuthConfig | EpMaintenance | EpMaintCancel jval | EpForgejo | EpCa | EpDnsQuery
  | EpDnsHealth | EpDnsZones | EpDnsHosts | EpDnsRpz | EpProvPath "jval list"

datatype iep =
    InvInventory | InvComponents | InvEntityLink jval | InvComponent jval | InvModels | InvModel jval | InvLocations
  | InvFlatLocations | InvLocation jval | InvLocationOp jval string | InvBulkStorage | InvContainerTypes
  | InvContainerType jval | InvProductTypes | InvProductType jval | InvProductBarcodes | InvProductBarcode jval
  | InvReceipts | InvProjects | InvProject jval | InvAllocations | InvAllocation jval | InvShopping jval | AllCodes | OneCode jval
  | CodeLookup | CodeReceive | CodeMove | CodeAssoc | CodeHistory | CodeLabel jval | CodePrinted jval | LocContents jval
  | ProjRollup jval

primrec ep_path :: "ep \<Rightarrow> string" where
  "ep_path EpSummary = ''/api/summary''"
| "ep_path EpNodes = ''/api/nodes''"
| "ep_path (EpNode i) = ''/api/nodes/'' @ encodeURIComponent i"
| "ep_path (EpNodeHistory i m) = ''/api/nodes/'' @ encodeURIComponent i @ ''/history?metric='' @ encodeURIComponent m"
| "ep_path (EpNodeConfig i) = ''/api/nodes/'' @ encodeURIComponent i @ ''/config''"
| "ep_path EpAlerts = ''/api/alerts''"
| "ep_path EpAlertAck = ''/api/alerts/ack''"
| "ep_path EpAlertAckAll = ''/api/alerts/ack-all''"
| "ep_path EpOpie = ''/api/opie''"
| "ep_path (EpOpieReport i) = ''/api/opie/'' @ encodeURIComponent i"
| "ep_path EpRules = ''/api/rules''"
| "ep_path (EpRule i) = ''/api/rules/'' @ encodeURIComponent i"
| "ep_path EpProbes = ''/api/probes''"
| "ep_path EpSegments = ''/api/segments''"
| "ep_path (EpTopology v) = ''/api/topology?view='' @ encodeURIComponent (jor v (JStr ''monitoring''))"
| "ep_path EpNetgear = ''/api/netgear''"
| "ep_path EpGear = ''/api/gear''"
| "ep_path (EpGearInterfaces i) = ''/api/gear/'' @ encodeURIComponent i @ ''/interfaces''"
| "ep_path (EpGearHistory i f m) = ''/api/gear/'' @ encodeURIComponent i @ ''/history?ifIndex='' @ encodeURIComponent f @
     ''&metric='' @ encodeURIComponent (jor m (JStr ''inRateKbps''))"
| "ep_path EpDiscovery = ''/api/discovery''"
| "ep_path EpDiscScan = ''/api/discovery/scan''"
| "ep_path EpDiscManualScan = ''/api/discovery/manual-scan''"
| "ep_path EpDiscScanJobs = ''/api/discovery/scan-jobs''"
| "ep_path (EpDiscScanRequest i) = ''/api/discovery/scan-requests/'' @ encodeURIComponent i"
| "ep_path (EpDiscScanStatus i) = ''/api/discovery/scans/'' @ encodeURIComponent i"
| "ep_path (EpDiscAdopt i) = ''/api/discovery/'' @ encodeURIComponent i @ ''/adopt''"
| "ep_path (EpDiscIgnore i) = ''/api/discovery/'' @ encodeURIComponent i @ ''/ignore''"

primrec cep_path :: "cep \<Rightarrow> string" where
  "cep_path EpEnrollments = ''/api/enrollments''"
| "cep_path (EpEnrApprove i) = ''/api/enrollments/'' @ encodeURIComponent i @ ''/approve''"
| "cep_path (EpEnrReject i) = ''/api/enrollments/'' @ encodeURIComponent i @ ''/reject''"
| "cep_path EpBuilds = ''/api/builds''"
| "cep_path EpConfig = ''/api/config''"
| "cep_path EpPools = ''/api/pools''"
| "cep_path (EpPool i) = ''/api/pools/'' @ encodeURIComponent i"
| "cep_path EpAssets = ''/api/assets''"
| "cep_path EpAllocatorNetworks = ''/api/networks/allocator-eligibility''"
| "cep_path (EpAsset i) = ''/api/assets/'' @ encodeURIComponent i"
| "cep_path EpProvision = ''/api/control/provision''"
| "cep_path EpDecommission = ''/api/control/decommission''"
| "cep_path EpSurvey = ''/api/control/survey''"
| "cep_path EpDeploy = ''/api/control/deploy''"
| "cep_path EpFleetProvision = ''/api/control/fleet-provision''"
| "cep_path EpImage = ''/api/control/fleet-image''"
| "cep_path EpLogin = ''/api/auth/login''"
| "cep_path EpLogout = ''/api/auth/logout''"
| "cep_path EpWhoami = ''/api/auth/whoami''"
| "cep_path EpAuthConfig = ''/api/auth/config''"
| "cep_path EpMaintenance = ''/api/maintenance''"
| "cep_path (EpMaintCancel i) = ''/api/maintenance/'' @ encodeURIComponent i @ ''/cancel''"
| "cep_path EpForgejo = ''/api/forgejo''"
| "cep_path EpCa = ''/api/ca''"
| "cep_path EpDnsQuery = ''/api/dns/query''"
| "cep_path EpDnsHealth = ''/api/dns/health''"
| "cep_path EpDnsZones = ''/api/dns/zones''"
| "cep_path EpDnsHosts = ''/api/dns/hosts''"
| "cep_path EpDnsRpz = ''/api/dns/rpz''"
| "cep_path (EpProvPath segs) = ''/api/provisioning/'' @ join_str ''/'' (map encodeURIComponent segs)"

primrec iep_path :: "iep \<Rightarrow> string" where
  "iep_path InvInventory = ''/api/inventory''"
| "iep_path InvComponents = ''/api/inventory/components''"
| "iep_path (InvEntityLink i) = ''/api/inventory/components/'' @ encodeURIComponent i @ ''/entity-link''"
| "iep_path (InvComponent i) = ''/api/inventory/components/'' @ encodeURIComponent i"
| "iep_path InvModels = ''/api/inventory/models''"
| "iep_path (InvModel i) = ''/api/inventory/models/'' @ encodeURIComponent i"
| "iep_path InvLocations = ''/api/inventory/locations''"
| "iep_path InvFlatLocations = ''/api/inventory/locations?flat=1''"
| "iep_path (InvLocation i) = ''/api/inventory/locations/'' @ encodeURIComponent i"
| "iep_path (InvLocationOp i op) = ''/api/inventory/locations/'' @ encodeURIComponent i @ ''/'' @ op"
| "iep_path InvBulkStorage = ''/api/inventory/locations/bulk-storage-units''"
| "iep_path InvContainerTypes = ''/api/inventory/container-types''"
| "iep_path (InvContainerType i) = ''/api/inventory/container-types/'' @ encodeURIComponent i"
| "iep_path InvProductTypes = ''/api/inventory/product-types''"
| "iep_path (InvProductType i) = ''/api/inventory/product-types/'' @ encodeURIComponent i"
| "iep_path InvProductBarcodes = ''/api/inventory/product-barcodes''"
| "iep_path (InvProductBarcode i) = ''/api/inventory/product-barcodes/'' @ encodeURIComponent i"
| "iep_path InvReceipts = ''/api/inventory/receipts''"
| "iep_path InvProjects = ''/api/inventory/projects''"
| "iep_path (InvProject i) = ''/api/inventory/projects/'' @ encodeURIComponent i"
| "iep_path InvAllocations = ''/api/inventory/allocations''"
| "iep_path (InvAllocation i) = ''/api/inventory/allocations/'' @ encodeURIComponent i"
| "iep_path (InvShopping i) = ''/api/inventory/projects/'' @ encodeURIComponent i @ ''/shopping''"
| "iep_path AllCodes = ''/api/inventory/codes''"
| "iep_path (OneCode i) = ''/api/inventory/codes/'' @ encodeURIComponent i"
| "iep_path CodeLookup = ''/api/inventory/codes/lookup''"
| "iep_path CodeReceive = ''/api/inventory/codes/receive''"
| "iep_path CodeMove = ''/api/inventory/codes/move''"
| "iep_path CodeAssoc = ''/api/inventory/codes/associate''"
| "iep_path CodeHistory = ''/api/inventory/codes/history''"
| "iep_path (CodeLabel i) = ''/api/inventory/codes/'' @ encodeURIComponent i @ ''/label''"
| "iep_path (CodePrinted i) = ''/api/inventory/codes/'' @ encodeURIComponent i @ ''/printed''"
| "iep_path (LocContents i) = ''/api/inventory/locations/'' @ encodeURIComponent i @ ''/contents''"
| "iep_path (ProjRollup i) = ''/api/inventory/projects/'' @ encodeURIComponent i @ ''/rollup''"

subsection \<open>The methods\<close>

record callspec =
  c_method :: string
  c_path :: string
  c_body :: "jval option"
  c_headers :: "(string \<times> jval) list"

definition get :: "string \<Rightarrow> callspec" where
  "get path = \<lparr>c_method = ''GET'', c_path = path, c_body = None, c_headers = []\<rparr>"

definition send :: "string \<Rightarrow> string \<Rightarrow> jval \<Rightarrow> callspec" where
  "send m path body = \<lparr>c_method = m, c_path = path, c_body = (if truthy body then Some body else None), c_headers = []\<rparr>"

definition post_with :: "string \<Rightarrow> jval \<Rightarrow> (string \<times> jval) list \<Rightarrow> callspec" where
  "post_with path body hs = \<lparr>c_method = ''POST'', c_path = path, c_body = Some (jor body (JObj [])), c_headers = hs\<rparr>"

definition post :: "string \<Rightarrow> jval \<Rightarrow> callspec" where
  "post path body = post_with path body []"

text \<open>\<open>getJSON(path, opts)\<close> with the caller's options.\<close>

definition opt_call :: "string \<Rightarrow> jval \<Rightarrow> callspec" where
  "opt_call path opts =
     \<lparr>c_method = (if truthy (jget opts ''method'') then js_String (jget opts ''method'') else ''GET''), c_path = path,
      c_body = (if truthy (jget opts ''body'') then Some (jget opts ''body'') else None),
      c_headers = (case jget opts ''headers'' of JObj kvs \<Rightarrow> kvs | _ \<Rightarrow> [])\<rparr>"

definition enc :: "jval \<Rightarrow> string" where
  "enc = encodeURIComponent"

text \<open>\<open>Number(x)\<close> in a body: what is no number is \<open>null\<close> on the wire.\<close>

definition num_body :: "jval \<Rightarrow> jval" where
  "num_body v = (case js_Number v of Fin r \<Rightarrow> JNum r | _ \<Rightarrow> JNull)"

definition empty_obj :: jval where
  "empty_obj = JObj []"

definition confirmed :: "(string \<times> jval) list \<Rightarrow> jval" where
  "confirmed kvs = JObj (kvs @ [(''confirm'', JBool True)])"

definition idem :: "jval \<Rightarrow> (string \<times> jval) list" where
  "idem key = (if truthy key then [(''Idempotency-Key'', key)] else [])"

definition plain :: "jval \<Rightarrow> string" where
  "plain qs = (if truthy qs then js_String qs else [])"

type_synonym table = "(string \<times> ((nat \<Rightarrow> jval) \<Rightarrow> callspec)) list"

text \<open>The two that take any path (a string) from their caller.\<close>

definition API_raw :: table where
  "API_raw = [
    (''get'', \<lambda>a. opt_call (js_String (a 0)) (a 1)),
    (''post'', \<lambda>a. post_with (js_String (a 0)) (a 1) (case a 2 of JObj kvs \<Rightarrow> kvs | _ \<Rightarrow> []))]"

text \<open>The metric of \<open>nodeHistory\<close> is the name \<open>historyMetric\<close> gives it; the third argument of \<open>discoverScan\<close> stands for
  the key that \<open>scan_begin\<close> of \<open>ApiScan\<close> chooses.\<close>

definition API_fleet :: table where
  "API_fleet = [
    (''node'', \<lambda>a. get (ep_path (EpNode (a 0)))),
    (''nodeHistory'', \<lambda>a. get (ep_path (EpNodeHistory (a 0) (a 1)))),
    (''topology'', \<lambda>a. get (ep_path (EpTopology (a 0)))),
    (''gearList'', \<lambda>a. get (ep_path EpGear)),
    (''gearInterfaces'', \<lambda>a. get (ep_path (EpGearInterfaces (a 0)))),
    (''gearHistory'', \<lambda>a. get (ep_path (EpGearHistory (a 0) (a 1) (a 2)))),
    (''listDiscovered'', \<lambda>a. get (ep_path EpDiscovery @ ''?status='' @ enc (jor (a 0) (JStr ''all'')))),
    (''discoverScan'', \<lambda>a. post_with (ep_path EpDiscScan) (JObj [(''cidr'', a 0), (''ports'', jor (a 1) (JStr []))])
       [(''Idempotency-Key'', a 2)]),
    (''scanManualAsset'', \<lambda>a. post (ep_path EpDiscManualScan) (JObj [(''target'', a 0)])),
    (''createAsset'', \<lambda>a. post (cep_path EpAssets) (jor (a 0) empty_obj)),
    (''listDiscoveryScanJobs'', \<lambda>a. get (ep_path EpDiscScanJobs)),
    (''discoverScanRequest'', \<lambda>a. opt_call (ep_path (EpDiscScanRequest (a 0))) (a 1)),
    (''discoverScanStatus'', \<lambda>a. opt_call (ep_path (EpDiscScanStatus (a 0))) (a 1)),
    (''adoptDiscovered'', \<lambda>a. post (ep_path (EpDiscAdopt (a 0))) (jor (a 1) empty_obj)),
    (''ignoreDiscovered'', \<lambda>a. post (ep_path (EpDiscIgnore (a 0))) empty_obj),
    (''pools'', \<lambda>a. get (cep_path EpPools)),
    (''createPool'', \<lambda>a. post (cep_path EpPools) (jor (a 0) empty_obj)),
    (''updatePool'', \<lambda>a. post (cep_path (EpPool (a 0))) (jor (a 1) empty_obj)),
    (''assets'', \<lambda>a. get (cep_path EpAssets)),
    (''allocatorNetworks'', \<lambda>a. get (cep_path EpAllocatorNetworks)),
    (''setAllocatorEligibility'', \<lambda>a. post (''/api/networks/'' @ enc (a 0) @ ''/allocator-eligibility'')
       (confirmed [(''eligible'', JBool (truthy (a 1)))])),
    (''asset'', \<lambda>a. get (cep_path (EpAsset (a 0)))),
    (''updateAsset'', \<lambda>a. post (cep_path (EpAsset (a 0))) (jor (a 1) empty_obj)),
    (''removeAsset'', \<lambda>a. post (cep_path (EpAsset (a 0)) @ ''/remove'') (confirmed [])),
    (''removeTarget'', \<lambda>a. post (cep_path (EpAsset (a 0)) @ ''/targets/'' @ enc (a 1) @ ''/remove'') (confirmed [])),
    (''retireNode'', \<lambda>a. post (ep_path (EpNode (a 0)) @ ''/retire'') (confirmed [])),
    (''deletePool'', \<lambda>a. post (cep_path (EpPool (a 0)) @ ''/delete'') (confirmed [])),
    (''deleteRule'', \<lambda>a. post (ep_path (EpRule (a 0)) @ ''/delete'') (confirmed [])),
    (''approveEnrollment'', \<lambda>a. post (cep_path (EpEnrApprove (a 0))) (confirmed [])),
    (''rejectEnrollment'', \<lambda>a. post (cep_path (EpEnrReject (a 0))) empty_obj),
    (''provision'', \<lambda>a. post (cep_path EpProvision) (jor (a 0) empty_obj)),
    (''decommission'', \<lambda>a. post (cep_path EpDecommission) (confirmed [(''nodeId'', a 0), (''wipeScope'',
       jor (a 1) (JArr [JStr ''config'', JStr ''certs'', JStr ''spool'', JStr ''logs'', JStr ''unit'']))])),
    (''saveConfig'', \<lambda>a. post (cep_path EpConfig) (a 0)),
    (''getNodeConfig'', \<lambda>a. get (ep_path (EpNodeConfig (a 0)))),
    (''setNodeConfig'', \<lambda>a. post (ep_path (EpNodeConfig (a 0))) (JObj [(''config'', a 1)])),
    (''deployClient'', \<lambda>a. post (cep_path EpDeploy) (jor (a 0) empty_obj)),
    (''deployLog'', \<lambda>a. get (cep_path EpDeploy @ ''?host='' @ enc (a 0))),
    (''fleetProvision'', \<lambda>a. post (cep_path EpFleetProvision) (jor (a 0) empty_obj)),
    (''buildImage'', \<lambda>a. post (cep_path EpImage) (jor (a 0) empty_obj)),
    (''provisionLog'', \<lambda>a. get (cep_path EpFleetProvision @ ''?hostname='' @ enc (a 0) @ (if truthy (a 1) then ''&image=1'' else []))),
    (''saveRule'', \<lambda>a. post (ep_path (EpRule (a 0))) (a 1)),
    (''toggleRule'', \<lambda>a. post (ep_path (EpRule (a 0))) (JObj [(''enabled'', a 1)])),
    (''survey'', \<lambda>a. post (cep_path EpSurvey) (JObj [(''scope'', jor (a 0) (JStr ''all''))]))]"

definition prov :: "jval list \<Rightarrow> string" where
  "prov segs = cep_path (EpProvPath segs)"

definition API_prov :: table where
  "API_prov = [
    (''fleetUpdates'', \<lambda>a. post_with (prov [JStr ''updates'']) (JObj [(''mode'', a 0), (''confirm'', JBool (truthy (a 1)))]) [(''Idempotency-Key'', a 2)]),
    (''fleetUpdatesLog'', \<lambda>a. get (prov [JStr ''log''] @ ''?kind=fleet-updates&id='' @ enc (a 0))),
    (''provImages'', \<lambda>a. get (prov [JStr ''images''])),
    (''provImageCreate'', \<lambda>a. post (prov [JStr ''images'']) (jor (a 0) empty_obj)),
    (''provImageUpdate'', \<lambda>a. send ''PUT'' (prov [JStr ''images'', a 0]) (jor (a 1) empty_obj)),
    (''provImageDelete'', \<lambda>a. send ''DELETE'' (prov [JStr ''images'', a 0]) JUndef),
    (''provSoftware'', \<lambda>a. get (prov [JStr ''software''] @ (if truthy (a 0) then ''?type='' @ enc (a 0) else []))),
    (''provSoftwareGet'', \<lambda>a. get (prov [JStr ''software'', a 0])),
    (''provSoftwareCreate'', \<lambda>a. post (prov [JStr ''software'']) (jor (a 0) empty_obj)),
    (''provSoftwareUpdate'', \<lambda>a. send ''PUT'' (prov [JStr ''software'', a 0]) (jor (a 1) empty_obj)),
    (''provSoftwareDelete'', \<lambda>a. send ''DELETE'' (prov [JStr ''software'', a 0]) JUndef),
    (''provArtifactAdd'', \<lambda>a. post (prov [JStr ''software'', a 0, JStr ''artifacts'']) (jor (a 1) empty_obj)),
    (''provArtifactDelete'', \<lambda>a. send ''DELETE'' (prov [JStr ''software'', a 0, JStr ''artifacts'', a 1]) JUndef),
    (''provRequireAdd'', \<lambda>a. post (prov [JStr ''software'', a 0, JStr ''requires'']) (JObj [(''requires_software_id'', num_body (a 1)), (''notes'', jor (a 2) JNull)])),
    (''provRequireDelete'', \<lambda>a. send ''DELETE'' (prov [JStr ''software'', a 0, JStr ''requires'', a 1]) JUndef),
    (''provConflictAdd'', \<lambda>a. post (prov [JStr ''software'', a 0, JStr ''conflicts'']) (JObj [(''software_id'', num_body (a 1)), (''notes'', jor (a 2) JNull)])),
    (''provConflictDelete'', \<lambda>a. send ''DELETE'' (prov [JStr ''software'', a 0, JStr ''conflicts'', a 1]) JUndef),
    (''provStacks'', \<lambda>a. get (prov [JStr ''stacks''])),
    (''provStackGet'', \<lambda>a. get (prov [JStr ''stacks'', a 0])),
    (''provStackCreate'', \<lambda>a. post (prov [JStr ''stacks'']) (jor (a 0) empty_obj)),
    (''provStackUpdate'', \<lambda>a. send ''PUT'' (prov [JStr ''stacks'', a 0]) (jor (a 1) empty_obj)),
    (''provStackDelete'', \<lambda>a. send ''DELETE'' (prov [JStr ''stacks'', a 0]) JUndef),
    (''provMemberAdd'', \<lambda>a. post (prov [JStr ''stacks'', a 0, JStr ''members'']) (jor (a 1) empty_obj)),
    (''provMemberUpdate'', \<lambda>a. send ''PUT'' (prov [JStr ''stacks'', a 0, JStr ''members'', a 1]) (jor (a 2) empty_obj)),
    (''provMemberDelete'', \<lambda>a. send ''DELETE'' (prov [JStr ''stacks'', a 0, JStr ''members'', a 1]) JUndef),
    (''provDepAdd'', \<lambda>a. post (prov [JStr ''stacks'', a 0, JStr ''deps'']) (JObj [(''depends_on_stack_id'', num_body (a 1))])),
    (''provDepDelete'', \<lambda>a. send ''DELETE'' (prov [JStr ''stacks'', a 0, JStr ''deps'', a 1]) JUndef),
    (''provTargets'', \<lambda>a. get (prov [JStr ''targets''])),
    (''provRuns'', \<lambda>a. get (prov [JStr ''runs''] @ plain (a 0))),
    (''provStore'', \<lambda>a. get (prov [JStr ''store''])),
    (''provLog'', \<lambda>a. get (prov [JStr ''log''] @ ''?kind='' @ enc (a 0) @ ''&id='' @ enc (a 1))),
    (''provImageRefresh'', \<lambda>a. post_with (prov [JStr ''image-refresh'']) (JObj [(''image'', num_body (a 0))]) (idem (a 1))),
    (''provStage'', \<lambda>a. post_with (prov [JStr ''stage'']) (jor (a 0) empty_obj) (idem (a 1))),
    (''provApply'', \<lambda>a. post_with (prov [JStr ''apply'']) (jor (a 0) empty_obj) (idem (a 1)))]"

definition null_or_num :: "jval \<Rightarrow> jval" where
  "null_or_num v = (if nullish v then JNull else num_body v)"

definition product_query :: "jval \<Rightarrow> string" where
  "product_query opts =
     (let qs = (if truthy (jget opts ''q'') then [''q='' @ enc (jget opts ''q'')] else []) @
               (if truthy (jget opts ''kind'') then [''kind='' @ enc (jget opts ''kind'')] else []) @
               (if \<not> nullish (jget opts ''limit'') then [''limit='' @ enc (jget opts ''limit'')] else []) @
               (if truthy (jget opts ''offset'') then [''offset='' @ enc (jget opts ''offset'')] else [])
      in if qs \<noteq> [] then ''?'' @ join_str ''&'' qs else [])"

definition API_inv :: table where
  "API_inv = [
    (''inventoryEntityLink'', \<lambda>a. get (iep_path (InvEntityLink (a 0)) @ (if truthy (a 1) then ''?q='' @ enc (a 1) else []))),
    (''linkInventoryEntity'', \<lambda>a. post (iep_path (InvEntityLink (a 0))) (JObj [(''entity_id'', num_body (a 1))])),
    (''unlinkInventoryEntity'', \<lambda>a. send ''DELETE'' (iep_path (InvEntityLink (a 0))) JUndef),
    (''rackwireLibrary'', \<lambda>a. get ''/api/rackwire/library''),
    (''saveRackwireProfile'', \<lambda>a. post (''/api/rackwire/library/'' @ enc (a 0) @ ''/groups'') (jor (a 1) empty_obj)),
    (''createUnit'', \<lambda>a. post (iep_path InvComponents) (jor (a 0) empty_obj)),
    (''updateUnit'', \<lambda>a. send ''PUT'' (iep_path (InvComponent (a 0))) (jor (a 1) empty_obj)),
    (''createModel'', \<lambda>a. post (iep_path InvModels) (jor (a 0) empty_obj)),
    (''updateModel'', \<lambda>a. send ''PUT'' (iep_path (InvModel (a 0))) (jor (a 1) empty_obj)),
    (''createLocation'', \<lambda>a. post (iep_path InvLocations) (jor (a 0) empty_obj)),
    (''getLocation'', \<lambda>a. get (iep_path (InvLocation (a 0)))),
    (''updateLocation'', \<lambda>a. send ''PUT'' (iep_path (InvLocation (a 0))) (jor (a 1) empty_obj)),
    (''moveLocation'', \<lambda>a. post (iep_path (InvLocationOp (a 0) ''move'')) (JObj [(''parent_id'', null_or_num (a 1))])),
    (''locationMergePreview'', \<lambda>a. get (iep_path (InvLocationOp (a 0) ''merge-preview'') @ ''?target_id='' @ enc (a 1))),
    (''mergeLocation'', \<lambda>a. post (iep_path (InvLocationOp (a 0) ''merge'')) (JObj [(''target_id'', num_body (a 1)), (''fingerprint'', a 2)])),
    (''bulkStorageUnits'', \<lambda>a. post (iep_path InvBulkStorage) (jor (a 0) empty_obj)),
    (''setLocationProject'', \<lambda>a. send ''PUT'' (iep_path (InvLocationOp (a 0) ''project'')) (JObj [(''project_id'', null_or_num (a 1))])),
    (''containerTypes'', \<lambda>a. get (iep_path InvContainerTypes @ (if truthy (a 0) then ''?include_deleted=1'' else []))),
    (''createContainerType'', \<lambda>a. post (iep_path InvContainerTypes) (JObj [(''name'', a 0)])),
    (''renameContainerType'', \<lambda>a. send ''PUT'' (iep_path (InvContainerType (a 0))) (JObj [(''name'', a 1), (''updated_at'', a 2)])),
    (''retireContainerType'', \<lambda>a. send ''DELETE'' (iep_path (InvContainerType (a 0))) JUndef),
    (''productTypes'', \<lambda>a. get (iep_path InvProductTypes @ product_query (jor (a 0) empty_obj))),
    (''getProductType'', \<lambda>a. get (iep_path (InvProductType (a 0)))),
    (''createProductType'', \<lambda>a. post (iep_path InvProductTypes) (jor (a 0) empty_obj)),
    (''updateProductType'', \<lambda>a. send ''PUT'' (iep_path (InvProductType (a 0))) (jor (a 1) empty_obj)),
    (''retireProductType'', \<lambda>a. send ''DELETE'' (iep_path (InvProductType (a 0))) JUndef),
    (''lookupProductBarcode'', \<lambda>a. get (iep_path InvProductBarcodes @ ''?code='' @ enc (a 0))),
    (''addProductBarcode'', \<lambda>a. post (iep_path InvProductBarcodes)
       (JObj [(''product_type_id'', num_body (a 0)), (''code'', a 1), (''code_type'', jor (a 2) (JStr ''other''))])),
    (''removeProductBarcode'', \<lambda>a. send ''DELETE'' (iep_path (InvProductBarcode (a 0))) JUndef),
    (''createReceipt'', \<lambda>a. post (iep_path InvReceipts) (jor (a 0) empty_obj)),
    (''createProject'', \<lambda>a. post (iep_path InvProjects) (jor (a 0) empty_obj)),
    (''updateProject'', \<lambda>a. post (iep_path (InvProject (a 0))) (jor (a 1) empty_obj)),
    (''createAllocation'', \<lambda>a. post (iep_path InvAllocations) (jor (a 0) empty_obj)),
    (''updateAllocation'', \<lambda>a. post (iep_path (InvAllocation (a 0))) (jor (a 1) empty_obj)),
    (''shopping'', \<lambda>a. get (iep_path (InvShopping (a 0)))),
    (''codes'', \<lambda>a. get (iep_path AllCodes @ plain (a 0))),
    (''codeLookup'', \<lambda>a. post (iep_path CodeLookup) (JObj [(''code'', a 0)])),
    (''codeCreate'', \<lambda>a. post (iep_path AllCodes) (jor (a 0) empty_obj)),
    (''codeDelete'', \<lambda>a. send ''DELETE'' (iep_path (OneCode (a 0))) JUndef),
    (''codeReceive'', \<lambda>a. post (iep_path CodeReceive) (jor (a 0) empty_obj)),
    (''codeMove'', \<lambda>a. post (iep_path CodeMove) (jor (a 0) empty_obj)),
    (''codeAssociate'', \<lambda>a. post (iep_path CodeAssoc) (jor (a 0) empty_obj)),
    (''codeMarkPrinted'', \<lambda>a. post (iep_path (CodePrinted (a 0))) empty_obj),
    (''codeHistory'', \<lambda>a. get (iep_path CodeHistory @ plain (a 0))),
    (''locationContents'', \<lambda>a. get (iep_path (LocContents (a 0)))),
    (''projectRollup'', \<lambda>a. get (iep_path (ProjRollup (a 0))))]"

definition codeLabelUrl :: "jval \<Rightarrow> jval \<Rightarrow> string" where
  "codeLabelUrl i qs = iep_path (CodeLabel i) @ plain qs"

text \<open>\<open>(servers || []).join(",")\<close>.\<close>

definition joined_servers :: "jval \<Rightarrow> string" where
  "joined_servers v = join_str '','' (map (\<lambda>x. if nullish x then [] else js_String x) (jarr (jor v (JArr []))))"

definition API_misc :: table where
  "API_misc = [
    (''forgejoInfo'', \<lambda>a. get (cep_path EpForgejo)),
    (''caInfo'', \<lambda>a. get (cep_path EpCa)),
    (''dnsQuery'', \<lambda>a. get (cep_path EpDnsQuery @ ''?name='' @ enc (a 0) @ ''&type='' @ enc (a 1) @ ''&servers='' @ joined_servers (a 2))),
    (''dnsHealth'', \<lambda>a. get (cep_path EpDnsHealth)),
    (''dnsZones'', \<lambda>a. get (cep_path EpDnsZones)),
    (''dnsZoneRecords'', \<lambda>a. get (cep_path EpDnsZones @ ''/'' @ enc (a 0) @ ''/records'' @ plain (a 1))),
    (''dnsHosts'', \<lambda>a. get (cep_path EpDnsHosts)),
    (''dnsRpz'', \<lambda>a. get (cep_path EpDnsRpz)),
    (''ackAlert'', \<lambda>a. post (ep_path EpAlertAck) (JObj [(''eventId'', a 0)])),
    (''ackAllAlerts'', \<lambda>a. post (ep_path EpAlertAckAll) empty_obj),
    (''opieList'', \<lambda>a. get (ep_path EpOpie @ ''?status='' @ enc (jor (a 0) (JStr ''all'')))),
    (''opieReport'', \<lambda>a. get (ep_path (EpOpieReport (a 0)))),
    (''maintenanceList'', \<lambda>a. get (cep_path EpMaintenance @ ''?status='' @ enc (jor (a 0) (JStr ''all'')))),
    (''scheduleMaintenance'', \<lambda>a. post (cep_path EpMaintenance) (jor (a 0) empty_obj)),
    (''cancelMaintenance'', \<lambda>a. post (cep_path (EpMaintCancel (a 0))) empty_obj),
    (''whoami'', \<lambda>a. get (cep_path EpWhoami)),
    (''authConfig'', \<lambda>a. get (cep_path EpAuthConfig)),
    (''login'', \<lambda>a. post (cep_path EpLogin) (JObj [(''username'', a 0), (''password'', a 1)])),
    (''logout'', \<lambda>a. post (cep_path EpLogout) empty_obj)]"

definition API_calls :: table where
  "API_calls = API_fleet @ API_prov @ API_inv @ API_misc"

subsection \<open>getJSON\<close>

text \<open>A rejection: an \<open>ApiError\<close> with its code and message, a \<open>TypeError\<close> of the adapter itself, or
  the network's failure.\<close>

datatype api_err = ApiErr jval jval | TypeErr | NetErr

definition ApiError :: "jval \<Rightarrow> jval \<Rightarrow> api_err" where
  "ApiError code msg = ApiErr (jor code (JStr ''ERR'')) (jor msg (JStr ''api error''))"

text \<open>What the network does: nothing, or a status with a body that is JSON or not.\<close>

datatype answer = NoAnswer | Answered nat "jval option"

definition http_ok :: "nat \<Rightarrow> bool" where
  "http_ok st \<longleftrightarrow> 200 \<le> st \<and> st < 300"

fun has_prop :: "jval \<Rightarrow> string \<Rightarrow> bool" where
  "has_prop (JObj kvs) k = (map_of kvs k \<noteq> None)"
| "has_prop _ k = False"

fun is_object :: "jval \<Rightarrow> bool" where
  "is_object (JObj _) = True"
| "is_object (JArr _) = True"
| "is_object _ = False"

text \<open>The adapter's state: the CSRF token, the label of \<open>window.SOLARI\<close>'s data (\<open>None\<close> before there is
  any), and how often the inventory snapshot was invalidated.\<close>

record api_st =
  st_csrf :: jval
  st_source :: "string option"
  st_inv_gen :: nat

definition unwrap :: "jval \<Rightarrow> jval \<Rightarrow> (api_err + jval) \<times> jval" where
  "unwrap json csrf =
     (if is_object json \<and> has_prop json ''ok'' then
        if jget json ''ok'' = JBool False
        then (Inl (ApiError (jget (jget json ''error'') ''code'') (jget (jget json ''error'') ''message'')), csrf)
        else let data = jget json ''data'' in
          (Inr data, if is_object data \<and> truthy (jget data ''csrfToken'') then jget data ''csrfToken'' else csrf)
      else (Inr json, csrf))"

definition url_of :: "string \<Rightarrow> string \<Rightarrow> string" where
  "url_of base path = (if starts_with ''/api'' path then path else base @ path)"

definition is_write :: "callspec \<Rightarrow> bool" where
  "is_write c \<longleftrightarrow> c_method c \<noteq> ''GET'' \<and> c_method c \<noteq> ''HEAD''"

definition paused :: "callspec \<Rightarrow> api_st \<Rightarrow> bool" where
  "paused c st \<longleftrightarrow> is_write c \<and> c_path c \<noteq> cep_path EpLogin \<and> c_path c \<noteq> cep_path EpLogout \<and>
     st_source st \<noteq> None \<and> st_source st \<noteq> Some ''live''"

definition headers_of :: "callspec \<Rightarrow> jval \<Rightarrow> (string \<times> jval) list" where
  "headers_of c csrf = fold (\<lambda>(k, v). put k v)
     ((if c_body c \<noteq> None then [(''Content-Type'', JStr ''application/json'')] else []) @ c_headers c @
      (if is_write c \<and> truthy csrf then [(''X-Solari-CSRF'', csrf)] else []))
     [(''Accept'', JStr ''application/json'')]"

record sent =
  s_method :: string
  s_url :: string
  s_headers :: "(string \<times> jval) list"
  s_body :: "jval option"

definition http_text :: "nat \<Rightarrow> string" where
  "http_text st = ''HTTP '' @ nat_str st"

definition receive :: "callspec \<Rightarrow> answer \<Rightarrow> api_st \<Rightarrow> (api_err + jval) \<times> api_st" where
  "receive c ans st =
     (case ans of
        NoAnswer \<Rightarrow> (Inl NetErr, st)
      | Answered code None \<Rightarrow> (Inl (ApiError (JStr ''BAD_JSON'') (JStr (http_text code @ '' - non-JSON response''))), st)
      | Answered code (Some j) \<Rightarrow>
          if \<not> http_ok code \<and> truthy j \<and> \<not> is_object j then (Inl TypeErr, st)
          else if \<not> http_ok code \<and> \<not> (truthy j \<and> has_prop j ''ok'')
          then (Inl (ApiError (JStr (''HTTP_'' @ nat_str code)) (JStr (http_text code))), st)
          else case unwrap j (st_csrf st) of
              (Inl e, csrf) \<Rightarrow> (Inl e, st\<lparr>st_csrf := csrf\<rparr>)
            | (Inr v, csrf) \<Rightarrow> (Inr v, st\<lparr>st_csrf := csrf, st_inv_gen :=
                (if is_write c \<and> starts_with ''/api/inventory/'' (c_path c) then st_inv_gen st + 1 else st_inv_gen st)\<rparr>))"

definition getJSON :: "string \<Rightarrow> callspec \<Rightarrow> answer \<Rightarrow> api_st \<Rightarrow> sent option \<times> (api_err + jval) \<times> api_st" where
  "getJSON base c ans st =
     (if paused c st
      then (None, Inl (ApiError (JStr ''DATA_STALE'') (JStr ''Live data is unavailable; actions are paused.'')), st)
      else (Some \<lparr>s_method = c_method c, s_url = url_of base (c_path c), s_headers = headers_of c (st_csrf st), s_body = c_body c\<rparr>,
            receive c ans st))"

text \<open>\<open>uploadReceipt\<close> posts a form by itself.\<close>

definition uploadReceipt :: "jval \<Rightarrow> answer \<Rightarrow> api_st \<Rightarrow> sent option \<times> (api_err + jval) \<times> api_st" where
  "uploadReceipt form ans st =
     (Some \<lparr>s_method = ''POST'', s_url = iep_path InvReceipts,
            s_headers = (if truthy (st_csrf st) then [(''X-Solari-CSRF'', st_csrf st)] else []), s_body = Some form\<rparr>,
      case ans of
        NoAnswer \<Rightarrow> (Inl NetErr, st)
      | Answered code None \<Rightarrow> (Inl TypeErr, st)
      | Answered code (Some j) \<Rightarrow> (case unwrap j (st_csrf st) of (r, csrf) \<Rightarrow> (r, st\<lparr>st_csrf := csrf\<rparr>)))"

subsection \<open>The object\<close>

text \<open>The methods of the object that send a request of their own: through \<open>getJSON\<close>, or directly.  The rest of the
  object sends none (\<open>base\<close>, \<open>endpoints\<close>, \<open>provIdemKey\<close>, \<open>codeLabelUrl\<close>) or several reads
  (\<open>inventory\<close> and \<open>refresh\<close>, in \<open>ApiInventory\<close> and \<open>ApiLive\<close>).\<close>

datatype api_method = Via "(nat \<Rightarrow> jval) \<Rightarrow> callspec" | Direct

definition API :: "(string \<times> api_method) list" where
  "API = map (\<lambda>(n, f). (n, Via f)) (API_raw @ API_calls) @ [(''uploadReceipt'', Direct)]"

definition call_api :: "string \<Rightarrow> api_method \<Rightarrow> (nat \<Rightarrow> jval) \<Rightarrow> answer \<Rightarrow> api_st \<Rightarrow> sent option \<times> (api_err + jval) \<times> api_st" where
  "call_api base m a ans st = (case m of Via f \<Rightarrow> getJSON base (f a) ans st | Direct \<Rightarrow> uploadReceipt (a 0) ans st)"

text \<open>A call that writes and neither signs in nor out.\<close>

definition writes :: "api_method \<Rightarrow> (nat \<Rightarrow> jval) \<Rightarrow> bool" where
  "writes m a \<longleftrightarrow> (case m of
       Via f \<Rightarrow> is_write (f a) \<and> c_path (f a) \<noteq> cep_path EpLogin \<and> c_path (f a) \<noteq> cep_path EpLogout
     | Direct \<Rightarrow> True)"

lemma API_Via: "(n, Via f) \<in> set API \<longleftrightarrow> (n, f) \<in> set API_raw \<or> (n, f) \<in> set API_calls"
  by (auto simp: API_def)

lemma API_Direct: "(n, Direct) \<in> set API \<longleftrightarrow> n = ''uploadReceipt''"
  by (auto simp: API_def)

lemma API_upload: "(''uploadReceipt'', Via f) \<notin> set API"
  by (simp add: API_Via API_raw_def API_calls_def API_fleet_def API_prov_def API_inv_def API_misc_def)

lemma call_sent:
  assumes "(n, m) \<in> set API" "writes m a" "st_source st = Some src"
  shows "fst (call_api base m a ans st) \<noteq> None \<longleftrightarrow> n = ''uploadReceipt'' \<or> src = ''live''"
proof (cases m)
  case (Via f)
  then show ?thesis using assms API_upload [of f]
    by (auto simp: call_api_def writes_def getJSON_def paused_def)
next
  case Direct
  then show ?thesis using assms(1) by (simp add: call_api_def uploadReceipt_def API_Direct)
qed

subsection \<open>What the requests promise\<close>

definition slashes :: "string \<Rightarrow> nat" where
  "slashes s = length (filter (\<lambda>c. c = CHR ''/'') s)"

lemma slashes_simps [simp]: "slashes [] = 0" "slashes (c # s) = (if c = CHR ''/'' then 1 else 0) + slashes s"
  "slashes (s @ t) = slashes s + slashes t"
  by (simp_all add: slashes_def)

lemma slashes_enc [simp]: "slashes (encodeURIComponent v) = 0"
proof -
  have "CHR ''/'' \<notin> set (encodeURIComponent v)" using encode_safe [of "CHR ''/''" v] by (auto simp: unreserved_def)
  then show ?thesis by (auto simp: slashes_def filter_empty_conv)
qed

text \<open>The methods that append a query string their caller has built.\<close>

definition raw_query :: "string list" where
  "raw_query = [''provRuns'', ''codes'', ''codeHistory'', ''dnsZoneRecords'', ''dnsQuery'']"

definition in_segment :: "((nat \<Rightarrow> jval) \<Rightarrow> callspec) \<Rightarrow> bool" where
  "in_segment f \<longleftrightarrow> (\<forall>a b. slashes (c_path (f a)) = slashes (c_path (f b)) \<and> starts_with ''/api/'' (c_path (f a)))"

lemma in_segment_simps:
  "c_path (get p) = p" "c_path (post p b) = p" "c_path (post_with p b h) = p" "c_path (send m p b) = p" "c_path (opt_call p opts) = p"
  by (simp_all add: get_def post_def post_with_def send_def opt_call_def)

lemma slashes_join: "slashes (join_str ''/'' (map encodeURIComponent vs)) = length vs - 1"
proof (induction vs rule: induct_list012)
  case (3 x y zs)
  then show ?case by simp
qed simp_all

lemma slashes_query [simp]: "slashes (product_query opts) = 0"
  by (simp add: product_query_def enc_def Let_def)

lemmas path_simps = in_segment_def in_segment_simps enc_def prov_def slashes_join starts_with_def raw_query_def

lemma fleet_in_segment: "list_all (\<lambda>(_, f). in_segment f) API_fleet"
  by (simp add: API_fleet_def path_simps)

lemma prov_in_segment: "list_all (\<lambda>(n, f). n \<notin> set raw_query \<longrightarrow> in_segment f) API_prov"
  by (simp add: API_prov_def path_simps)

lemma inv_in_segment: "list_all (\<lambda>(n, f). n \<notin> set raw_query \<longrightarrow> in_segment f) API_inv"
  by (simp add: API_inv_def path_simps)

lemma misc_in_segment: "list_all (\<lambda>(n, f). n \<notin> set raw_query \<longrightarrow> in_segment f) API_misc"
  by (simp add: API_misc_def path_simps)

text \<open>Whatever its arguments are, a method of the API addresses the API, at a path of as many
  segments as for any other arguments: an id with a slash, a question mark or a hash in it cannot
  address another resource.  The five methods that append a query string built by their caller are
  not covered.\<close>

theorem api_arguments_stay_in_segment:
  "list_all (\<lambda>(n, f). n \<notin> set raw_query \<longrightarrow> in_segment f) API_calls"
proof -
  have "list_all (\<lambda>(n, f). n \<notin> set raw_query \<longrightarrow> in_segment f) API_fleet"
    using fleet_in_segment by (auto simp: list_all_iff)
  then show ?thesis using prov_in_segment inv_in_segment misc_in_segment by (simp add: API_calls_def)
qed

lemma api_member: "(n, f) \<in> set API_fleet \<Longrightarrow> (n, f) \<in> set API_calls"
  by (simp add: API_calls_def)

theorem api_arguments_stay_in_segment_witness:
  "in_segment (\<lambda>a. post (ep_path (EpNode (a 0)) @ ''/retire'') (confirmed []))"
proof -
  have "(''retireNode'', \<lambda>a. post (ep_path (EpNode (a 0)) @ ''/retire'') (confirmed [])) \<in> set API_calls"
    by (rule api_member) (simp add: API_fleet_def)
  moreover have "''retireNode'' \<notin> set raw_query" by (simp add: raw_query_def)
  ultimately show ?thesis using api_arguments_stay_in_segment unfolding list_all_iff by fast
qed

definition gated :: "string \<times> ((nat \<Rightarrow> jval) \<Rightarrow> callspec) \<Rightarrow> bool" where
  "gated e \<longleftrightarrow> fst e \<noteq> ''login'' \<longrightarrow> fst e \<noteq> ''logout'' \<longrightarrow>
     (\<forall>a. is_write (snd e a) \<longrightarrow> c_path (snd e a) \<noteq> cep_path EpLogin \<and> c_path (snd e a) \<noteq> cep_path EpLogout)"

lemma api_gated: "list_all gated API_fleet" "list_all gated API_prov" "list_all gated API_inv" "list_all gated API_misc"
  by (simp_all add: API_fleet_def API_prov_def API_inv_def API_misc_def gated_def in_segment_simps prov_def)

lemma stale_error: "paused c st \<Longrightarrow> getJSON base c ans st =
    (None, Inl (ApiErr (JStr ''DATA_STALE'') (JStr ''Live data is unavailable; actions are paused.'')), st)"
  by (simp add: getJSON_def ApiError_def jor_def)

definition stale_st :: api_st where
  "stale_st = \<lparr>st_csrf = JStr ''t'', st_source = Some ''stale'', st_inv_gen = 0\<rparr>"

lemma gated_call: "(n, f) \<in> set API_calls \<Longrightarrow> n \<noteq> ''login'' \<Longrightarrow> n \<noteq> ''logout'' \<Longrightarrow> is_write (f a) \<Longrightarrow> writes (Via f) a"
  using api_gated by (auto simp: API_calls_def list_all_iff gated_def writes_def)

lemma write_carries_token: "is_write c \<Longrightarrow> truthy csrf \<Longrightarrow> map_of (headers_of c csrf) ''X-Solari-CSRF'' = Some csrf"
  by (simp add: headers_of_def map_of_put)

text \<open>Property C39. While the shown data is stale or the offline fixture, the receipt upload is the only method of the
  API that sends a write: every other one, apart from login, logout and the two that take any path, rejects its
  write before the network is asked and changes nothing, and those two do so for every path but the ones for signing
  in and out.  A write that is sent carries the CSRF token the server has handed out.\<close>

theorem only_the_upload_writes_while_stale:
  assumes "(n, m) \<in> set API" "st_source st = Some src" "src \<noteq> ''live''"
  shows "(fst (call_api base m a ans st) = Some rq \<and> s_method rq \<notin> {''GET'', ''HEAD''} \<longrightarrow>
      n \<in> {''uploadReceipt'', ''login'', ''logout''} \<or>
      n \<in> {''get'', ''post''} \<and> js_String (a 0) \<in> {cep_path EpLogin, cep_path EpLogout}) \<and>
    (n = ''uploadReceipt'' \<longrightarrow> fst (call_api base m a ans st) \<noteq> None) \<and>
    (fst (call_api base m a ans st) = None \<longrightarrow> snd (snd (call_api base m a ans st)) = st) \<and>
    (fst (call_api base m a ans st) = Some rq \<and> s_method rq \<notin> {''GET'', ''HEAD''} \<and> truthy (st_csrf st) \<longrightarrow>
      map_of (s_headers rq) ''X-Solari-CSRF'' = Some (st_csrf st))"
proof (cases m)
  case (Via f)
  have up: "n \<noteq> ''uploadReceipt''" using assms(1) API_upload Via by metis
  have w: "is_write (f a) \<longleftrightarrow> s_method rq \<notin> {''GET'', ''HEAD''}" if "fst (call_api base m a ans st) = Some rq"
    using that by (auto simp: Via call_api_def getJSON_def is_write_def split: if_splits)
  have raw: "n \<in> {''get'', ''post''} \<and> c_path (f a) = js_String (a 0)" if "(n, f) \<in> set API_raw"
    using that by (auto simp: API_raw_def in_segment_simps)
  have "n \<in> {''login'', ''logout''} \<or> n \<in> {''get'', ''post''} \<and> js_String (a 0) \<in> {cep_path EpLogin, cep_path EpLogout}"
    if "fst (call_api base m a ans st) = Some rq" "s_method rq \<notin> {''GET'', ''HEAD''}"
  proof -
    have "\<not> writes m a" using call_sent [OF assms(1) _ assms(2)] that(1) up assms(3) by auto
    then show ?thesis using gated_call [of n f a] raw w that assms(1) unfolding Via API_Via writes_def by auto
  qed
  then show ?thesis using up w write_carries_token [of "f a"]
    by (auto simp: Via call_api_def getJSON_def split: if_splits)
next
  case Direct
  then show ?thesis using assms(1) by (auto simp: API_Direct call_api_def uploadReceipt_def)
qed

theorem only_the_upload_writes_while_stale_witness:
  "fst (call_api ''/api'' (Via (\<lambda>a. post (ep_path (EpNode (a 0)) @ ''/retire'') (confirmed []))) (\<lambda>_. JNum 7) NoAnswer stale_st) = None"
proof -
  let ?m = "Via (\<lambda>a. post (ep_path (EpNode (a 0)) @ ''/retire'') (confirmed []))" and ?a = "\<lambda>_ :: nat. JNum 7"
  have "(''retireNode'', ?m) \<in> set API"
    by (simp only: API_Via) (simp add: api_member API_fleet_def)
  note stale = only_the_upload_writes_while_stale [OF this, of stale_st "''stale''" "''/api''" ?a NoAnswer]
  have "s_method rq = ''POST''" if "fst (call_api ''/api'' ?m ?a NoAnswer stale_st) = Some rq" for rq
    using that by (auto simp: call_api_def getJSON_def post_def post_with_def split: if_splits)
  then have "fst (call_api ''/api'' ?m ?a NoAnswer stale_st) \<noteq> Some rq" for rq
    using stale [of rq] by (auto simp: stale_st_def)
  then show ?thesis by (cases "fst (call_api ''/api'' ?m ?a NoAnswer stale_st)") simp_all
qed



end
