(* ===== verification/ApiInventory.thy ===== *)
theory ApiInventory
  imports ApiCalls
begin

section \<open>The API adapter: inventory paging and snapshot\<close>

text \<open>
  \<open>api.jsx\<close>: an inventory collection is read in pages of 1000 rows whose metadata is validated
  (\<open>getInventoryList\<close>), and the six collections form a snapshot that is shared while it loads, kept
  for five seconds and dropped by every inventory write (\<open>fetchInventorySnapshot\<close>,
  \<open>invalidateInventorySnapshot\<close>).  The server is an argument, a function from request paths to what
  \<open>getJSON\<close> yields.  Lemmas: paging terminates, what it returns is a gapless and duplicate-free
  reading of the pages, an honest server is read completely, and no caller is handed a snapshot whose
  loading began before the last write.
\<close>

subsection \<open>Paging\<close>

type_synonym server = "string \<Rightarrow> api_err + jval"

definition INVENTORY_PAGE_SIZE :: nat where
  "INVENTORY_PAGE_SIZE = 1000"

definition INVENTORY_MAX_ROWS :: nat where
  "INVENTORY_MAX_ROWS = 100000"

definition too_large :: api_err where
  "too_large = ApiError (JStr ''INVENTORY_TOO_LARGE'') (JStr ''Inventory exceeds the dashboard's 100,000-row collection limit.'')"

definition bad_page :: "string \<Rightarrow> api_err" where
  "bad_page what = ApiError (JStr ''BAD_INVENTORY_PAGE'') (JStr (''Inventory returned '' @ what @ '' pagination metadata.''))"

definition changed :: api_err where
  "changed = ApiError (JStr ''INVENTORY_CHANGED'') (JStr ''Inventory changed during paging. Reload to retry.'')"

definition request_path :: "string \<Rightarrow> nat \<Rightarrow> string" where
  "request_path path offset =
     path @ (if CHR ''?'' \<in> set path then ''&'' else ''?'') @ ''limit='' @ nat_str INVENTORY_PAGE_SIZE @ ''&offset='' @ nat_str offset"

text \<open>\<open>Number.isInteger(v) && v >= 0\<close>, with the number.\<close>

fun whole_num :: "jval \<Rightarrow> nat option" where
  "whole_num (JNum r) = (if 0 \<le> r \<and> of_int \<lfloor>r\<rfloor> = r then Some (nat \<lfloor>r\<rfloor>) else None)"
| "whole_num _ = None"

fun jbool :: "jval \<Rightarrow> bool option" where
  "jbool (JBool b) = Some b"
| "jbool _ = None"

text \<open>The checks of one answer: its items, its total and whether there is more.\<close>

definition read_meta :: "nat \<Rightarrow> nat option \<Rightarrow> jval \<Rightarrow> api_err + jval list \<times> nat \<times> bool" where
  "read_meta offset expected result =
     (let page = jget result ''page''; items = jget result ''items'' in
      case (whole_num (jget page ''total''), jbool (jget page ''hasMore'')) of
        (Some tot, Some hasMore) \<Rightarrow>
          if \<not> is_arr items \<or> jget page ''limit'' \<noteq> JNum (real INVENTORY_PAGE_SIZE) \<or> jget page ''offset'' \<noteq> JNum (real offset)
          then Inl (bad_page ''invalid'')
          else if tot > INVENTORY_MAX_ROWS then Inl too_large
          else if expected \<noteq> None \<and> expected \<noteq> Some tot then Inl changed
          else let n = length (jarr items) in
            if n > INVENTORY_PAGE_SIZE \<or> hasMore \<noteq> (offset + n < tot) \<or>
               jget page ''nextOffset'' \<noteq> (if hasMore then JNum (real (offset + n)) else JNull) \<or> (hasMore \<and> n = 0)
            then Inl (bad_page ''inconsistent'')
            else Inr (jarr items, tot, hasMore)
      | _ \<Rightarrow> Inl (bad_page ''invalid''))"

definition row_id :: "jval \<Rightarrow> string option" where
  "row_id item = (if truthy item \<and> \<not> nullish (jget item ''id'') then Some (js_String (jget item ''id'')) else None)"

fun collect :: "jval list \<Rightarrow> jval list \<Rightarrow> string list \<Rightarrow> api_err + jval list \<times> string list" where
  "collect [] rows seen = Inr (rows, seen)"
| "collect (item # items) rows seen =
     (case row_id item of
        None \<Rightarrow> collect items (rows @ [item]) seen
      | Some k \<Rightarrow> if k \<in> set seen then Inl changed else collect items (rows @ [item]) (k # seen))"

function readPage :: "server \<Rightarrow> string \<Rightarrow> nat \<Rightarrow> nat \<Rightarrow> nat option \<Rightarrow> jval list \<Rightarrow> string list \<Rightarrow> api_err + jval list" where
  "readPage srv path pages offset expected rows seen =
     (if pages + 1 > INVENTORY_MAX_ROWS div INVENTORY_PAGE_SIZE then Inl too_large
      else case srv (request_path path offset) of
        Inl e \<Rightarrow> Inl e
      | Inr result \<Rightarrow> (case read_meta offset expected result of
          Inl e \<Rightarrow> Inl e
        | Inr (items, tot, hasMore) \<Rightarrow> (case collect items rows seen of
            Inl e \<Rightarrow> Inl e
          | Inr (rows', seen') \<Rightarrow>
              if hasMore then readPage srv path (pages + 1) (offset + length items) (Some tot) rows' seen'
              else if length rows' \<noteq> tot then Inl changed else Inr rows')))"
  by pat_completeness auto
termination
  by (relation "measure (\<lambda>(srv, path, pages, _). INVENTORY_MAX_ROWS div INVENTORY_PAGE_SIZE - pages)") auto

declare readPage.simps [simp del]

definition getInventoryList :: "server \<Rightarrow> string \<Rightarrow> api_err + jval list" where
  "getInventoryList srv path = readPage srv path 0 0 None [] []"

subsection \<open>The snapshot\<close>

text \<open>The six collections; when several fail the first of them in this order stands for the one that
  fails first.\<close>

definition inventory_parts :: "(string \<times> string) list" where
  "inventory_parts = [(''models'', iep_path InvModels), (''units'', iep_path InvComponents),
     (''locations'', iep_path InvFlatLocations), (''receipts'', iep_path InvReceipts),
     (''projects'', iep_path InvProjects), (''allocations'', iep_path InvAllocations)]"

fun load_parts :: "server \<Rightarrow> (string \<times> string) list \<Rightarrow> api_err + (string \<times> jval) list" where
  "load_parts srv [] = Inr []"
| "load_parts srv ((name, path) # ps) =
     (case getInventoryList srv path of
        Inl e \<Rightarrow> Inl e
      | Inr rows \<Rightarrow> (case load_parts srv ps of Inl e \<Rightarrow> Inl e | Inr kvs \<Rightarrow> Inr ((name, JArr rows) # kvs)))"

definition load_inventory :: "server \<Rightarrow> api_err + jval" where
  "load_inventory srv = (case load_parts srv inventory_parts of Inl e \<Rightarrow> Inl e | Inr kvs \<Rightarrow> Inr (JObj kvs))"

text \<open>The state between the promises: loads are numbered in the order they start, and \<open>iv_started\<close>
  records for each the generation it captured.  A cached snapshot carries the number of its load.\<close>

record inv_st =
  iv_snap :: "(nat \<times> jval) option"
  iv_at :: real
  iv_load :: "nat option"
  iv_gen :: nat
  iv_started :: "nat list"

definition inv_init :: inv_st where
  "inv_init = \<lparr>iv_snap = None, iv_at = 0, iv_load = None, iv_gen = 0, iv_started = []\<rparr>"

definition invalidateInventorySnapshot :: "inv_st \<Rightarrow> inv_st" where
  "invalidateInventorySnapshot s = s\<lparr>iv_gen := iv_gen s + 1, iv_snap := None, iv_at := 0, iv_load := None\<rparr>"

datatype handed = Promised nat | Cached nat jval

definition fetchInventorySnapshot :: "bool \<Rightarrow> real \<Rightarrow> inv_st \<Rightarrow> handed \<times> inv_st" where
  "fetchInventorySnapshot force now s =
     (case iv_load s of
        Some i \<Rightarrow> (Promised i, s)
      | None \<Rightarrow>
          let start = (Promised (length (iv_started s)),
                s\<lparr>iv_load := Some (length (iv_started s)), iv_started := iv_started s @ [iv_gen s]\<rparr>) in
          case iv_snap s of
            Some (i, v) \<Rightarrow> if \<not> force \<and> now - iv_at s < 5000 then (Cached i v, s) else start
          | None \<Rightarrow> start)"

definition load_done :: "nat \<Rightarrow> jval \<Rightarrow> real \<Rightarrow> inv_st \<Rightarrow> inv_st" where
  "load_done i value now s =
     (if iv_started s ! i = iv_gen s then s\<lparr>iv_snap := Some (i, value), iv_at := now, iv_load := None\<rparr> else s)"

definition load_failed :: "nat \<Rightarrow> inv_st \<Rightarrow> inv_st" where
  "load_failed i s = (if iv_started s ! i = iv_gen s then s\<lparr>iv_load := None\<rparr> else s)"

text \<open>A run of the page, with its history beside the state: the number of inventory writes that have been answered
  (each write through \<open>getJSON\<close> invalidates the snapshot when its answer arrives), that number at the moment each load
  began, and what the loads yielded and when.\<close>

inductive inv_run :: "inv_st \<Rightarrow> nat \<Rightarrow> nat list \<Rightarrow> (nat \<times> jval \<times> real) list \<Rightarrow> bool" where
  start: "inv_run inv_init 0 [] []"
| fetch: "inv_run s w began got \<Longrightarrow> fetchInventorySnapshot force now s = (h, s') \<Longrightarrow>
    inv_run s' w (if length (iv_started s) < length (iv_started s') then began @ [w] else began) got"
| load_ok: "inv_run s w began got \<Longrightarrow> i < length began \<Longrightarrow> inv_run (load_done i v now s) w began ((i, v, now) # got)"
| load_err: "inv_run s w began got \<Longrightarrow> i < length began \<Longrightarrow> inv_run (load_failed i s) w began got"
| written: "inv_run s w began got \<Longrightarrow> inv_run (invalidateInventorySnapshot s) (w + 1) began got"

subsection \<open>What paging returns\<close>

definition ids :: "jval list \<Rightarrow> string list" where
  "ids rows = List.map_filter row_id rows"

lemma ids_simps [simp]: "ids [] = []" "ids (r # rs) = (case row_id r of None \<Rightarrow> ids rs | Some k \<Rightarrow> k # ids rs)"
  "ids (rs @ rs') = ids rs @ ids rs'"
  by (simp_all add: ids_def List.map_filter_def split: option.split)

lemma collect_eq:
  "collect items rows seen =
     (if distinct (ids items) \<and> set (ids items) \<inter> set seen = {} then Inr (rows @ items, rev (ids items) @ seen) else Inl changed)"
  by (induction items arbitrary: rows seen) (auto split: option.split)

lemma read_metaD:
  assumes "read_meta offset expected result = Inr (items, tot, hasMore)"
  shows "jget result ''items'' = JArr items" "whole_num (jget (jget result ''page'') ''total'') = Some tot"
    "tot \<le> 100000" "expected = None \<or> expected = Some tot"
proof -
  have arr: "is_arr v \<Longrightarrow> v = JArr (jarr v)" for v by (cases v) simp_all
  show "jget result ''items'' = JArr items" "whole_num (jget (jget result ''page'') ''total'') = Some tot"
    "tot \<le> 100000" "expected = None \<or> expected = Some tot"
    using assms arr unfolding read_meta_def Let_def INVENTORY_MAX_ROWS_def
    by (auto split: option.splits if_splits simp del: is_arr.simps)
qed

text \<open>Row \<open>i\<close> was served: by the page requested at some offset, at its place there, in an answer that
  states the total \<open>t\<close>.\<close>

definition served :: "server \<Rightarrow> string \<Rightarrow> nat \<Rightarrow> jval list \<Rightarrow> nat \<Rightarrow> bool" where
  "served srv path t rows i \<longleftrightarrow>
     (\<exists>offset result items. offset \<le> i \<and> srv (request_path path offset) = Inr result \<and>
        whole_num (jget (jget result ''page'') ''total'') = Some t \<and>
        jget result ''items'' = JArr items \<and> i - offset < length items \<and> rows ! i = items ! (i - offset))"

lemma served_append:
  assumes "\<forall>i<length rows. served srv path t rows i"
    "srv (request_path path (length rows)) = Inr result" "whole_num (jget (jget result ''page'') ''total'') = Some t"
    "jget result ''items'' = JArr items"
  shows "\<forall>i<length (rows @ items). served srv path t (rows @ items) i"
proof (intro allI impI)
  fix i assume i: "i < length (rows @ items)"
  show "served srv path t (rows @ items) i"
  proof (cases "i < length rows")
    case True
    then show ?thesis using assms(1) by (auto simp: served_def nth_append)
  next
    case False
    then show ?thesis unfolding served_def using assms(2-4) i
      by (intro exI [of _ "length rows"] exI [of _ result] exI [of _ items]) (auto simp: nth_append)
  qed
qed

lemma readPage_sound:
  assumes "readPage srv path pages (length rows) expected rows (rev (ids rows)) = Inr rows'" "distinct (ids rows)"
    "rows = [] \<or> (\<exists>t. expected = Some t \<and> (\<forall>i<length rows. served srv path t rows i))"
  shows "distinct (ids rows') \<and> length rows' \<le> 100000 \<and> (\<forall>i<length rows'. served srv path (length rows') rows' i)"
  using assms
proof (induction "100 - pages" arbitrary: pages expected rows rule: less_induct)
  case less
  note eq = less.prems(1) [unfolded readPage.simps [of _ _ pages], unfolded INVENTORY_MAX_ROWS_def INVENTORY_PAGE_SIZE_def]
  from eq have p: "pages < 100" by (simp split: if_splits)
  from eq obtain result where r: "srv (request_path path (length rows)) = Inr result" by (auto split: sum.splits if_splits)
  from eq r obtain items tot hasMore where m: "read_meta (length rows) expected result = Inr (items, tot, hasMore)"
    by (auto split: sum.splits if_splits)
  note md = read_metaD [OF m]
  from eq r m have c: "distinct (ids items) \<and> set (ids items) \<inter> set (ids rows) = {}"
    by (auto simp: collect_eq split: sum.splits if_splits)
  have d: "distinct (ids (rows @ items))" using c less.prems(2) by auto
  have "\<forall>i<length rows. served srv path tot rows i" using less.prems(3) md(4) by auto
  from served_append [OF this r md(2,1)] have s: "\<forall>i<length (rows @ items). served srv path tot (rows @ items) i" .
  show ?case
  proof (cases hasMore)
    case True
    have "readPage srv path (Suc pages) (length (rows @ items)) (Some tot) (rows @ items) (rev (ids (rows @ items))) = Inr rows'"
      using eq r m c True p by (simp add: collect_eq Int_commute split: if_splits)
    from less.hyps [OF _ this d] p s show ?thesis by auto
  next
    case False
    then have "rows' = rows @ items" "length rows' = tot" using eq r m c p by (auto simp: collect_eq Int_commute split: if_splits)
    then show ?thesis using d s md(3) by simp
  qed
qed

subsection \<open>An honest server\<close>

definition honest_page :: "jval list \<Rightarrow> nat \<Rightarrow> jval" where
  "honest_page xs offset =
     (let items = take 1000 (drop offset xs); hasMore = (offset + length items < length xs) in
      JObj [(''items'', JArr items),
            (''page'', JObj [(''limit'', JNum 1000), (''offset'', JNum (real offset)), (''total'', JNum (real (length xs))),
               (''hasMore'', JBool hasMore), (''nextOffset'', if hasMore then JNum (real (offset + length items)) else JNull)])])"

lemma read_honest:
  assumes "offset \<le> length xs" "length xs \<le> 100000" "expected = None \<or> expected = Some (length xs)"
  shows "read_meta offset expected (honest_page xs offset) =
    Inr (take 1000 (drop offset xs), length xs, offset + 1000 < length xs)"
proof -
  have "(offset + length (take 1000 (drop offset xs)) < length xs) = (offset + 1000 < length xs)" using assms(1) by auto
  then show ?thesis using assms
    by (auto simp: read_meta_def honest_page_def Let_def INVENTORY_PAGE_SIZE_def INVENTORY_MAX_ROWS_def)
qed

lemma readPage_honest:
  assumes "\<forall>k. k * 1000 \<le> length xs \<longrightarrow> srv (request_path path (k * 1000)) = Inr (honest_page xs (k * 1000))"
    "length xs \<le> 100000" "distinct (ids xs)" "k * 1000 \<le> length xs" "k = 0 \<or> k * 1000 < length xs"
    "expected = None \<or> expected = Some (length xs)"
  shows "readPage srv path k (k * 1000) expected (take (k * 1000) xs) (rev (ids (take (k * 1000) xs))) = Inr xs"
  using assms(4-6)
proof (induction "100 - k" arbitrary: k expected rule: less_induct)
  case less
  let ?o = "k * 1000"
  let ?items = "take 1000 (drop ?o xs)"
  have split: "take ?o xs @ ?items = take (?o + 1000) xs" by (simp add: take_add)
  have p: "k < 100" using less.prems(2) assms(2) by auto
  have "ids xs = ids (take ?o xs) @ ids ?items @ ids (drop 1000 (drop ?o xs))"
    by (metis append_take_drop_id ids_simps(3))
  then have c: "distinct (ids ?items)" "set (ids ?items) \<inter> set (ids (take ?o xs)) = {}" using assms(3) by auto
  have r: "srv (request_path path ?o) = Inr (honest_page xs ?o)" using assms(1) less.prems(1) by blast
  note step = readPage.simps [of srv path k ?o expected "take ?o xs" "rev (ids (take ?o xs))"]
  show ?case
  proof (cases "?o + 1000 < length xs")
    case True
    have "readPage srv path (Suc k) (Suc k * 1000) (Some (length xs)) (take (Suc k * 1000) xs) (rev (ids (take (Suc k * 1000) xs))) = Inr xs"
      using less.hyps [of "Suc k" "Some (length xs)"] True p by simp
    moreover have "rev (ids ?items) @ rev (ids (take ?o xs)) = rev (ids (take (?o + 1000) xs))" by (metis split ids_simps(3) rev_append)
    ultimately show ?thesis using step p r c True read_honest [OF less.prems(1) assms(2) less.prems(3)]
      by (simp add: collect_eq split INVENTORY_MAX_ROWS_def INVENTORY_PAGE_SIZE_def add.commute)
  next
    case False
    then show ?thesis using step p r c read_honest [OF less.prems(1) assms(2) less.prems(3)]
      by (simp add: collect_eq split INVENTORY_MAX_ROWS_def INVENTORY_PAGE_SIZE_def)
  qed
qed

subsection \<open>The snapshot is never older than the last write\<close>

definition inv_ok :: "inv_st \<Rightarrow> nat \<Rightarrow> nat list \<Rightarrow> (nat \<times> jval \<times> real) list \<Rightarrow> bool" where
  "inv_ok s w began got \<longleftrightarrow> iv_gen s = w \<and> iv_started s = began \<and>
     (\<forall>i. iv_load s = Some i \<longrightarrow> i < length began \<and> began ! i = w) \<and>
     (\<forall>i v. iv_snap s = Some (i, v) \<longrightarrow> i < length began \<and> began ! i = w \<and> (i, v, iv_at s) \<in> set got)"

lemma inv_run_ok: "inv_run s w began got \<Longrightarrow> inv_ok s w began got"
proof (induction rule: inv_run.induct)
  case (fetch s w began got force now h s')
  then show ?case
    by (auto simp: inv_ok_def fetchInventorySnapshot_def Let_def nth_append split: option.splits if_splits)
qed (auto simp: inv_ok_def inv_init_def load_done_def load_failed_def invalidateInventorySnapshot_def)

subsection \<open>Properties\<close>

text \<open>Property C5. Whatever the server answers, reading a collection ends, and when it yields rows these are at
  most 100000, no identifier occurs twice, and they are a gapless reading: row \<open>i\<close> is what a page
  requested at an offset not past \<open>i\<close> holds for it, and every such answer states the number of rows
  returned as its total.\<close>

theorem inventory_list_sound:
  assumes "getInventoryList srv path = Inr rows"
  shows "distinct (ids rows) \<and> length rows \<le> 100000 \<and> (\<forall>i<length rows. served srv path (length rows) rows i)"
  by (rule readPage_sound [of srv path 0 "[]" None]) (use assms in \<open>simp_all add: getInventoryList_def\<close>)

definition two_rows :: "jval list" where
  "two_rows = [JObj [(''id'', JNum 7)], JObj [(''name'', JStr ''spare'')]]"

lemma two_rows_simps: "length two_rows = 2" "distinct (ids two_rows)"
  by (simp_all add: two_rows_def row_id_def split: option.split)

lemma two_rows_pages: "\<forall>k. k * 1000 \<le> length two_rows \<longrightarrow> honest_page two_rows 0 = honest_page two_rows (k * 1000)"
proof (intro allI impI)
  fix k :: nat assume "k * 1000 \<le> length two_rows"
  then have "k = 0" by (simp add: two_rows_simps)
  then show "honest_page two_rows 0 = honest_page two_rows (k * 1000)" by simp
qed

lemma two_rows_read: "getInventoryList (\<lambda>p. Inr (honest_page two_rows 0)) ''/api/x'' = Inr two_rows"
  using readPage_honest [of two_rows "\<lambda>p. Inr (honest_page two_rows 0)" "''/api/x''" 0 None] two_rows_simps two_rows_pages
  by (simp add: getInventoryList_def)

theorem inventory_list_sound_witness:
  "served (\<lambda>p. Inr (honest_page two_rows 0)) ''/api/x'' 2 two_rows 1"
  using inventory_list_sound [OF two_rows_read] by (simp add: two_rows_simps)

text \<open>Property C6. A server that pages a collection of at most 100000 rows with distinct identifiers correctly is
  read completely and in order, however many pages that takes.\<close>

theorem honest_inventory_read:
  assumes "\<forall>k. k * 1000 \<le> length xs \<longrightarrow> srv (request_path path (k * 1000)) = Inr (honest_page xs (k * 1000))"
    "length xs \<le> 100000" "distinct (ids xs)"
  shows "getInventoryList srv path = Inr xs"
  using readPage_honest [OF assms, of 0 None] by (simp add: getInventoryList_def)

theorem honest_inventory_read_witness:
  "getInventoryList (\<lambda>p. Inr (honest_page two_rows 0)) (iep_path InvModels) = Inr two_rows"
  by (rule honest_inventory_read) (use two_rows_simps two_rows_pages in simp_all)

text \<open>Property C4. In every interleaving of reads, loads that end or fail, and answers to inventory writes (those that go
  through \<open>getJSON\<close>; the receipt upload does not invalidate), a caller is handed a load that begins now, or one
  that began after the last such answer, or the value that such a load yielded less than five seconds ago.\<close>

theorem snapshot_after_last_write:
  assumes "inv_run s w began got" "fetchInventorySnapshot force now s = (h, s')"
  shows "case h of
      Promised i \<Rightarrow> iv_load s' = Some i \<and> (i = length began \<or> i < length began \<and> began ! i = w)
    | Cached i v \<Rightarrow> i < length began \<and> began ! i = w \<and> \<not> force \<and> (\<exists>t. (i, v, t) \<in> set got \<and> now - t < 5000)"
  using assms(2) inv_run_ok [OF assms(1)] unfolding fetchInventorySnapshot_def Let_def inv_ok_def
  by (auto split: option.splits if_splits intro!: exI [of _ "iv_at s"])

definition loaded_once :: inv_st where
  "loaded_once = load_done 0 (JObj []) 100 (snd (fetchInventorySnapshot False 0 (invalidateInventorySnapshot inv_init)))"

lemma loaded_once_run: "inv_run loaded_once 1 [1] [(0, JObj [], 100)]"
proof -
  let ?s = "invalidateInventorySnapshot inv_init"
  have f: "fetchInventorySnapshot False 0 ?s = (Promised 0, snd (fetchInventorySnapshot False 0 ?s))"
    "length (iv_started (snd (fetchInventorySnapshot False 0 ?s))) = 1" "length (iv_started ?s) = 0"
    by (simp_all add: fetchInventorySnapshot_def inv_init_def invalidateInventorySnapshot_def)
  have "inv_run ?s 1 [] []" using inv_run.written [OF inv_run.start] by simp
  from inv_run.fetch [OF this f(1)] have "inv_run (snd (fetchInventorySnapshot False 0 ?s)) 1 [1] []" by (simp add: f(2,3))
  from inv_run.load_ok [OF this, of 0 "JObj []" 100] show ?thesis by (simp add: loaded_once_def)
qed

theorem snapshot_after_last_write_witness:
  "fst (fetchInventorySnapshot False 200 loaded_once) = Cached 0 (JObj []) \<and> [1 :: nat] ! 0 = 1 \<and> (\<exists>t. (0, JObj [], t) \<in> set [(0 :: nat, JObj [], 100 :: real)] \<and> 200 - t < 5000)"
proof -
  have f: "fetchInventorySnapshot False 200 loaded_once = (Cached 0 (JObj []), loaded_once)"
    by (simp add: loaded_once_def load_done_def fetchInventorySnapshot_def inv_init_def invalidateInventorySnapshot_def)
  show ?thesis using snapshot_after_last_write [OF loaded_once_run f] f by simp
qed

end
