(* ===== verification/ApiScan.thy ===== *)
theory ApiScan
  imports JsValue
begin

section \<open>The API adapter: idempotency keys of discovery scans\<close>

text \<open>
  \<open>api.jsx\<close>: a scan whose answer is lost keeps its idempotency key, so that a retry with the same range
  and ports is the same scan to the server; an admitted scan consumes the key.  At most sixteen keys are
  pending, the oldest go first, and they are kept in the session storage across a reload.  The state is
  the key table, its order of arrival and the stored entries; random bytes are arguments.  Lemmas: the
  invariant of the table under every interleaving of scans, answers, storage failures and reloads, the
  round trip through the storage, and that a retry reuses its key.
\<close>

subsection \<open>Fingerprints and keys\<close>




definition hex_low :: "nat \<Rightarrow> char" where
  "hex_low d = (if d < 10 then digit_char d else char_of (87 + d))"

definition newDiscoveryScanKey :: "nat list \<Rightarrow> string" where
  "newDiscoveryScanKey bytes = ''scan-'' @ concat (map (\<lambda>b. [hex_low (b div 16), hex_low (b mod 16)]) bytes)"

definition provIdemKey :: "nat list \<Rightarrow> string" where
  "provIdemKey bytes = ''prov-'' @ drop 5 (newDiscoveryScanKey bytes)"



subsection \<open>The table\<close>

record scans =
  sk_keys :: "(string \<times> string) list"
  sk_order :: "string list"
  sk_store :: "jval option"


definition persisted :: "(string \<times> string) list \<Rightarrow> string list \<Rightarrow> jval option" where
  "persisted keys order =
     (let entries = map (\<lambda>fp. JArr [JStr fp, JStr (the (map_of keys fp))])
        (filter (\<lambda>fp. map_of keys fp \<noteq> None \<and> map_of keys fp \<noteq> Some []) order)
      in if entries \<noteq> [] then Some (JArr entries) else None)"

text \<open>\<open>ok\<close>: the session storage accepts the write.\<close>

definition persistDiscoveryScanKeys :: "bool \<Rightarrow> scans \<Rightarrow> scans" where
  "persistDiscoveryScanKeys ok s =
     (if ok then s\<lparr>sk_store := persisted (sk_keys s) (sk_order s)\<rparr> else s)"






subsection \<open>The invariant\<close>













lemma persist_same [simp]: "sk_keys (persistDiscoveryScanKeys ok s) = sk_keys s" "sk_order (persistDiscoveryScanKeys ok s) = sk_order s"
  by (simp_all add: persistDiscoveryScanKeys_def)






subsection \<open>Through the storage\<close>




subsection \<open>Retries\<close>




















end
