(* ===== verification/ProvOrder.thy ===== *)
theory ProvOrder
  imports JsValue "HOL-Library.Char_ord" "HOL-Library.List_Lexorder" "HOL-Library.Product_Lexorder"
begin

section \<open>Provisioning: the order of the stacks\<close>

text \<open>
  \<open>screens-prov.jsx\<close>, \<open>resolveOrder\<close>: the stacks an operator picks are closed under their dependencies
  together with every locked stack, and put in an order in which each comes after what it depends on and
  every unlocked one after all locked ones, ties going to locked stacks, then the sort order, then the
  slug.  A stack row has its slug, the locked flag, the sort order (0 where it is absent) and the slugs it
  depends on.  Lemmas: the worklist terminates and computes exactly the stacks that are needed; the order
  is the least of all valid orders; a cycle is reported exactly when there is no valid order.
\<close>

text \<open>The distribution families.\<close>

definition FAMS :: "string list" where
  "FAMS = [''suse'', ''debian'', ''fedora'']"

record stack =
  pk_slug :: string
  pk_locked :: bool
  pk_sort :: real
  pk_deps :: "string list"

text \<open>\<open>by[slug]\<close>: the last row with that slug.\<close>

definition by_slug :: "stack list \<Rightarrow> string \<Rightarrow> stack option" where
  "by_slug stacks slug = map_of (rev (map (\<lambda>s. (pk_slug s, s)) stacks)) slug"

definition slug_deps :: "stack list \<Rightarrow> string \<Rightarrow> string list" where
  "slug_deps stacks slug = (case by_slug stacks slug of Some s \<Rightarrow> pk_deps s | None \<Rightarrow> [])"

definition is_locked :: "stack list \<Rightarrow> string \<Rightarrow> bool" where
  "is_locked stacks slug = (case by_slug stacks slug of Some s \<Rightarrow> pk_locked s | None \<Rightarrow> False)"

definition locked_slugs :: "stack list \<Rightarrow> string list" where
  "locked_slugs stacks = sort (map pk_slug (filter pk_locked stacks))"

lemma by_slug_mem: "by_slug stacks slug \<noteq> None \<longleftrightarrow> slug \<in> pk_slug ` set stacks"
  by (force simp: by_slug_def map_of_eq_None_iff image_iff)

text \<open>The loop over \<open>todo\<close>, whose end is the head of the list here; the closure is a set in order of
  insertion.\<close>

function closure :: "stack list \<Rightarrow> string list \<Rightarrow> string list \<Rightarrow> string list" where
  "closure stacks [] seen = seen"
| "closure stacks (slug # todo) seen =
     (if slug \<in> set seen \<or> by_slug stacks slug = None then closure stacks todo seen
      else closure stacks (rev (slug_deps stacks slug) @ todo) (seen @ [slug]))"
  by pat_completeness auto
termination
proof (relation "inv_image (less_than <*lex*> less_than) (\<lambda>(stacks, todo, seen). (card (pk_slug ` set stacks - set seen), length todo))", goal_cases)
  case (3 stacks slug todo seen)
  have "slug \<in> pk_slug ` set stacks - set seen" using 3 by_slug_mem [of stacks slug] by auto
  then have "pk_slug ` set stacks - set (seen @ [slug]) \<subset> pk_slug ` set stacks - set seen" by auto
  then show ?case by (simp add: psubset_card_mono)
qed auto

definition stack_closure :: "stack list \<Rightarrow> string list \<Rightarrow> string list" where
  "stack_closure stacks selected = closure stacks (rev (selected @ locked_slugs stacks)) []"

text \<open>\<open>deps[s]\<close>: what has to come before \<open>s\<close>.\<close>

definition before :: "stack list \<Rightarrow> string list \<Rightarrow> string \<Rightarrow> string list" where
  "before stacks cl s = filter (\<lambda>x. x \<in> set cl) (slug_deps stacks s) @
     (if is_locked stacks s then [] else filter (\<lambda>l. l \<in> set cl) (locked_slugs stacks))"

definition install_key :: "stack list \<Rightarrow> string \<Rightarrow> nat \<times> real \<times> string" where
  "install_key stacks s = (if is_locked stacks s then 0 else 1,
     (case by_slug stacks s of Some r \<Rightarrow> pk_sort r | None \<Rightarrow> 0), s)"

definition ready :: "stack list \<Rightarrow> string list \<Rightarrow> string list \<Rightarrow> string list" where
  "ready stacks cl order = filter (\<lambda>s. s \<notin> set order \<and> set (before stacks cl s) \<subseteq> set order) cl"

function order_loop :: "stack list \<Rightarrow> string list \<Rightarrow> string list \<Rightarrow> string list \<times> string list option" where
  "order_loop stacks cl order =
     (if length order < length cl
      then if ready stacks cl order = [] then (order, Some (filter (\<lambda>s. s \<notin> set order) cl))
           else order_loop stacks cl (order @ [hd (sort_key (install_key stacks) (ready stacks cl order))])
      else (order, None))"
  by pat_completeness auto
termination
  by (relation "measure (\<lambda>(stacks, cl, order). length cl - length order)") auto

declare order_loop.simps [simp del]

definition resolveOrder :: "stack list \<Rightarrow> string list \<Rightarrow> string list \<times> string list option" where
  "resolveOrder stacks selected = order_loop stacks (stack_closure stacks selected) []"

subsection \<open>The stacks that are needed\<close>

inductive needed :: "stack list \<Rightarrow> string list \<Rightarrow> string \<Rightarrow> bool" for stacks selected where
  picked: "s \<in> set selected \<Longrightarrow> by_slug stacks s \<noteq> None \<Longrightarrow> needed stacks selected s"
| locked: "s \<in> set (locked_slugs stacks) \<Longrightarrow> needed stacks selected s"
| dependency: "needed stacks selected s \<Longrightarrow> d \<in> set (slug_deps stacks s) \<Longrightarrow> by_slug stacks d \<noteq> None \<Longrightarrow> needed stacks selected d"

lemma locked_known: "s \<in> set (locked_slugs stacks) \<Longrightarrow> by_slug stacks s \<noteq> None"
  using by_slug_mem [of stacks s] by (auto simp: locked_slugs_def)

lemma closure_keeps: "set seen \<subseteq> set (closure stacks todo seen)"
  by (induction stacks todo seen rule: closure.induct) auto

lemma closure_distinct: "distinct seen \<Longrightarrow> distinct (closure stacks todo seen)"
  by (induction stacks todo seen rule: closure.induct) auto

lemma closure_sound:
  "\<forall>s\<in>set todo. by_slug stacks s \<noteq> None \<longrightarrow> P s \<Longrightarrow> \<forall>s\<in>set seen. P s \<Longrightarrow>
   (\<And>s d. P s \<Longrightarrow> d \<in> set (slug_deps stacks s) \<Longrightarrow> by_slug stacks d \<noteq> None \<Longrightarrow> P d) \<Longrightarrow>
   s \<in> set (closure stacks todo seen) \<Longrightarrow> P s"
proof (induction stacks todo seen rule: closure.induct)
  case (2 stacks slug todo seen)
  show ?case
  proof (cases "slug \<in> set seen \<or> by_slug stacks slug = None")
    case True
    then show ?thesis using 2(1) 2(3-6) by simp
  next
    case False
    have "\<forall>s\<in>set (rev (slug_deps stacks slug) @ todo). by_slug stacks s \<noteq> None \<longrightarrow> P s"
      using 2(3,5) False by auto
    moreover have "\<forall>s\<in>set (seen @ [slug]). P s" using 2(3,4) False by auto
    ultimately show ?thesis using 2(2) [OF False _ _ 2(5)] 2(6) False by auto
  qed
qed simp

lemma closure_covers: "s \<in> set todo \<Longrightarrow> by_slug stacks s \<noteq> None \<Longrightarrow> s \<in> set (closure stacks todo seen)"
proof (induction stacks todo seen rule: closure.induct)
  case (2 stacks slug todo seen)
  then show ?case using closure_keeps [of seen stacks todo] closure_keeps [of "seen @ [slug]" stacks "rev (slug_deps stacks slug) @ todo"]
    by auto
qed simp

definition dep_closed :: "stack list \<Rightarrow> string list \<Rightarrow> string list \<Rightarrow> bool" where
  "dep_closed stacks todo seen \<longleftrightarrow> (\<forall>s\<in>set seen. \<forall>d\<in>set (slug_deps stacks s). by_slug stacks d \<noteq> None \<longrightarrow> d \<in> set seen \<union> set todo)"

lemma closure_dep_closed: "dep_closed stacks todo seen \<Longrightarrow> dep_closed stacks [] (closure stacks todo seen)"
proof (induction stacks todo seen rule: closure.induct)
  case (2 stacks slug todo seen)
  show ?case
  proof (cases "slug \<in> set seen \<or> by_slug stacks slug = None")
    case True
    have "dep_closed stacks todo seen" using 2(3) True unfolding dep_closed_def by (metis Un_iff set_ConsD)
    then show ?thesis using 2(1) True by simp
  next
    case False
    have "dep_closed stacks (rev (slug_deps stacks slug) @ todo) (seen @ [slug])" using 2(3) unfolding dep_closed_def by auto
    then show ?thesis using 2(2) [OF False] False by auto
  qed
qed simp

lemma stack_closure_needed: "s \<in> set (stack_closure stacks selected) \<longleftrightarrow> needed stacks selected s"
proof
  assume "s \<in> set (stack_closure stacks selected)"
  then show "needed stacks selected s"
    unfolding stack_closure_def
    by (elim closure_sound [rotated 3]) (auto intro: needed.intros)
next
  let ?cl = "stack_closure stacks selected"
  have c: "dep_closed stacks [] ?cl" unfolding stack_closure_def by (rule closure_dep_closed) (simp add: dep_closed_def)
  assume "needed stacks selected s"
  then show "s \<in> set ?cl"
  proof induction
    case (dependency s d)
    then show ?case using c by (auto simp: dep_closed_def)
  next
    case (locked s)
    then show ?case unfolding stack_closure_def using locked_known [of s stacks] by (intro closure_covers) auto
  qed (auto simp: stack_closure_def intro!: closure_covers)
qed

lemma distinct_stack_closure: "distinct (stack_closure stacks selected)"
  by (simp add: stack_closure_def closure_distinct)

subsection \<open>Valid orders\<close>

definition valid_order :: "stack list \<Rightarrow> string list \<Rightarrow> string list \<Rightarrow> bool" where
  "valid_order stacks cl ys \<longleftrightarrow> distinct ys \<and> set ys = set cl \<and>
     (\<forall>i<length ys. set (before stacks cl (ys ! i)) \<subseteq> set (take i ys))"

definition order_prefix :: "stack list \<Rightarrow> string list \<Rightarrow> string list \<Rightarrow> bool" where
  "order_prefix stacks cl xs \<longleftrightarrow> distinct xs \<and> set xs \<subseteq> set cl \<and>
     (\<forall>i<length xs. set (before stacks cl (xs ! i)) \<subseteq> set (take i xs))"

lemma pick_ready:
  assumes "ready stacks cl xs \<noteq> []"
  shows "hd (sort_key (install_key stacks) (ready stacks cl xs)) \<in> set (ready stacks cl xs)"
    and "y \<in> set (ready stacks cl xs) \<Longrightarrow> install_key stacks (hd (sort_key (install_key stacks) (ready stacks cl xs))) \<le> install_key stacks y"
proof -
  let ?r = "sort_key (install_key stacks) (ready stacks cl xs)"
  obtain z zs where z: "?r = z # zs" using assms by (cases ?r) (auto dest: arg_cong [of _ _ length])
  have set: "set ?r = set (ready stacks cl xs)" by simp
  show "hd ?r \<in> set (ready stacks cl xs)" using z set by (metis list.sel(1) list.set_intros(1))
  have "sorted (map (install_key stacks) ?r)" by simp
  then show "install_key stacks (hd ?r) \<le> install_key stacks y" if "y \<in> set (ready stacks cl xs)"
    using that set z by auto
qed

lemma prefix_extend:
  assumes "order_prefix stacks cl xs" "s \<in> set (ready stacks cl xs)"
  shows "order_prefix stacks cl (xs @ [s])"
  using assms by (auto simp: order_prefix_def ready_def nth_append less_Suc_eq)

text \<open>A valid order that begins with the prefix goes on with a stack that is ready.\<close>

lemma valid_next_ready:
  assumes "valid_order stacks cl ys" "take (length xs) ys = xs" "length xs < length ys"
  shows "ys ! length xs \<in> set (ready stacks cl xs)"
proof -
  have "ys ! length xs \<notin> set (take (length xs) ys)"
    using assms(1,3) by (auto simp: valid_order_def in_set_conv_nth nth_eq_iff_index_eq)
  moreover have "set (before stacks cl (ys ! length xs)) \<subseteq> set xs" using assms by (metis valid_order_def)
  ultimately show ?thesis using assms nth_mem [OF assms(3)] unfolding ready_def valid_order_def by simp
qed

text \<open>Whatever has been ordered so far, a valid order has a stack that is ready next.\<close>

lemma valid_some_ready:
  assumes "valid_order stacks cl ys" "set xs \<subset> set cl"
  shows "ready stacks cl xs \<noteq> []"
proof -
  have ex: "\<exists>i. i < length ys \<and> ys ! i \<notin> set xs"
    using assms by (auto simp: valid_order_def in_set_conv_nth psubset_eq) (metis in_set_conv_nth subsetI subset_antisym)
  define i where "i = (LEAST i. i < length ys \<and> ys ! i \<notin> set xs)"
  have i: "i < length ys" "ys ! i \<notin> set xs" using LeastI_ex [OF ex] by (simp_all add: i_def)
  have "ys ! j \<in> set xs" if "j < i" for j using not_less_Least [of j "\<lambda>i. i < length ys \<and> ys ! i \<notin> set xs"] that i(1) by (simp add: i_def)
  then have "set (take i ys) \<subseteq> set xs" by (auto simp: in_set_conv_nth)
  then have "ys ! i \<in> set (ready stacks cl xs)" using assms(1) i by (auto simp: valid_order_def ready_def)
  then show ?thesis by auto
qed

lemma order_loop_extends: "order_loop stacks cl xs = (order, cyc) \<Longrightarrow> \<exists>zs. order = xs @ zs"
proof (induction "length cl - length xs" arbitrary: xs rule: less_induct)
  case less
  note eq = less.prems(1) [unfolded order_loop.simps [of _ _ xs]]
  show ?case
  proof (cases "length xs < length cl \<and> ready stacks cl xs \<noteq> []")
    case True
    let ?p = "hd (sort_key (install_key stacks) (ready stacks cl xs))"
    have "length cl - length (xs @ [?p]) < length cl - length xs" using True by (simp add: diff_less_mono2)
    then obtain zs where "order = (xs @ [?p]) @ zs" using less.hyps eq True by (metis (lifting))
    then show ?thesis by simp
  qed (use eq in \<open>auto split: if_splits\<close>)
qed

lemma order_loop_correct:
  assumes "distinct cl" "order_prefix stacks cl xs" "order_loop stacks cl xs = (order, cyc)"
  shows "(cyc = None \<longrightarrow> valid_order stacks cl order) \<and> (cyc \<noteq> None \<longrightarrow> \<not> (\<exists>ys. valid_order stacks cl ys)) \<and>
    (\<forall>c. cyc = Some c \<longrightarrow> c \<noteq> [] \<and> (\<forall>s\<in>set c. \<exists>d\<in>set (before stacks cl s). d \<in> set c))"
  using assms(2,3)
proof (induction "length cl - length xs" arbitrary: xs rule: less_induct)
  case less
  note eq = less.prems(2) [unfolded order_loop.simps [of _ _ xs]]
  have pre: "distinct xs" "set xs \<subseteq> set cl" using less.prems(1) by (simp_all add: order_prefix_def)
  show ?case
  proof (cases "length xs < length cl")
    case True
    then have sub: "set xs \<subset> set cl" using pre assms(1) by (metis distinct_card less_irrefl psubsetI)
    show ?thesis
    proof (cases "ready stacks cl xs = []")
      case stuck: True
      then have e: "order = xs" "cyc = Some (filter (\<lambda>s. s \<notin> set xs) cl)" using eq True by auto
      have "\<exists>d\<in>set (before stacks cl s). d \<in> set (filter (\<lambda>s. s \<notin> set xs) cl)" if "s \<in> set cl" "s \<notin> set xs" for s
        using stuck that by (auto simp: ready_def filter_empty_conv before_def)
      moreover have "filter (\<lambda>s. s \<notin> set xs) cl \<noteq> []" using sub by (auto simp: filter_empty_conv)
      ultimately show ?thesis using e valid_some_ready [OF _ sub] stuck by auto
    next
      case False
      then show ?thesis using eq True less.hyps [OF _ prefix_extend [OF less.prems(1) pick_ready(1) [OF False]]] by simp
    qed
  next
    case False
    then have "set xs = set cl" using pre assms(1)
      by (metis card_mono card_subset_eq distinct_card finite_set le_antisym not_less)
    then show ?thesis using eq False less.prems(1) by (simp add: order_prefix_def valid_order_def)
  qed
qed

lemma install_key_eq: "install_key stacks s = install_key stacks t \<longleftrightarrow> s = t"
  by (auto simp: install_key_def)

text \<open>The loop appends to the order it has, and always the least stack that is ready: no valid order that
agrees with it so far has a smaller sequence of sort keys.\<close>

lemma order_loop_least:
  assumes "order_loop stacks cl xs = (order, None)" "valid_order stacks cl ys" "take (length xs) ys = xs" "distinct cl"
  shows "\<exists>zs. order = xs @ zs \<and> map (install_key stacks) zs \<le> map (install_key stacks) (drop (length xs) ys)"
  using assms(1,3)
proof (induction "length cl - length xs" arbitrary: xs rule: less_induct)
  case less
  note eq = less.prems(1) [unfolded order_loop.simps [of _ _ xs]]
  have len: "length ys = length cl" using assms(2,4) by (metis distinct_card valid_order_def)
  show ?case
  proof (cases "length xs < length cl")
    case True
    let ?p = "hd (sort_key (install_key stacks) (ready stacks cl xs))"
    let ?y = "ys ! length xs"
    have y: "?y \<in> set (ready stacks cl xs)" using valid_next_ready [OF assms(2) less.prems(2)] True len by simp
    then have ne: "ready stacks cl xs \<noteq> []" by auto
    have run: "order_loop stacks cl (xs @ [?p]) = (order, None)" using eq True ne by simp
    have d: "drop (length xs) ys = ?y # drop (Suc (length xs)) ys" using True len by (simp add: Cons_nth_drop_Suc)
    show ?thesis
    proof (cases "?y = ?p")
      case same: True
      have "take (length (xs @ [?p])) ys = xs @ [?p]" using less.prems(2) same True len by (simp add: take_Suc_conv_app_nth)
      moreover have "length cl - length (xs @ [?p]) < length cl - length xs" using True by simp
      ultimately obtain zs where
        "order = (xs @ [?p]) @ zs" "map (install_key stacks) zs \<le> map (install_key stacks) (drop (length (xs @ [?p])) ys)"
        using less.hyps [OF _ run] by blast
      then show ?thesis using d same by (intro exI [of _ "?p # zs"]) simp
    next
      case False
      then have "install_key stacks ?p < install_key stacks ?y" using pick_ready(2) [OF ne y] install_key_eq by (metis order_le_less)
      moreover obtain zs where "order = (xs @ [?p]) @ zs" using order_loop_extends [OF run] by blast
      ultimately show ?thesis using d by (intro exI [of _ "?p # zs"]) simp
    qed
  qed (use eq len in auto)
qed

subsection \<open>What an install order is\<close>

definition install_order :: "stack list \<Rightarrow> string list \<Rightarrow> string list \<Rightarrow> bool" where
  "install_order stacks selected ys \<longleftrightarrow> distinct ys \<and> (\<forall>s. s \<in> set ys \<longleftrightarrow> needed stacks selected s) \<and>
     (\<forall>i<length ys. (\<forall>d\<in>set (slug_deps stacks (ys ! i)). by_slug stacks d \<noteq> None \<longrightarrow> d \<in> set (take i ys)) \<and>
        (\<not> is_locked stacks (ys ! i) \<longrightarrow> set (locked_slugs stacks) \<subseteq> set (take i ys)))"

lemma needed_known: "needed stacks selected s \<Longrightarrow> by_slug stacks s \<noteq> None"
  by (induction rule: needed.induct) (use locked_known in auto)

lemma before_needed:
  assumes "needed stacks selected s"
  shows "set (before stacks (stack_closure stacks selected) s) \<subseteq> A \<longleftrightarrow>
    (\<forall>d\<in>set (slug_deps stacks s). by_slug stacks d \<noteq> None \<longrightarrow> d \<in> A) \<and> (\<not> is_locked stacks s \<longrightarrow> set (locked_slugs stacks) \<subseteq> A)"
proof -
  have "d \<in> set (stack_closure stacks selected) \<longleftrightarrow> by_slug stacks d \<noteq> None" if "d \<in> set (slug_deps stacks s)" for d
    using stack_closure_needed needed_known needed.dependency [OF assms that] by blast
  moreover have "l \<in> set (stack_closure stacks selected)" if "l \<in> set (locked_slugs stacks)" for l
    using stack_closure_needed needed.locked [OF that] by blast
  ultimately have "filter (\<lambda>x. x \<in> set (stack_closure stacks selected)) (slug_deps stacks s) = filter (\<lambda>x. by_slug stacks x \<noteq> None) (slug_deps stacks s)"
    "filter (\<lambda>x. x \<in> set (stack_closure stacks selected)) (locked_slugs stacks) = locked_slugs stacks"
    by (simp_all cong: filter_cong)
  then show ?thesis by (auto simp: before_def simp del: not_None_eq)
qed

lemma valid_install_order: "valid_order stacks (stack_closure stacks selected) ys \<longleftrightarrow> install_order stacks selected ys"
proof -
  have "set ys = set (stack_closure stacks selected) \<longleftrightarrow> (\<forall>s. s \<in> set ys \<longleftrightarrow> needed stacks selected s)"
    using stack_closure_needed by auto
  moreover have "(\<forall>i<length ys. set (before stacks (stack_closure stacks selected) (ys ! i)) \<subseteq> set (take i ys)) \<longleftrightarrow>
      (\<forall>i<length ys. (\<forall>d\<in>set (slug_deps stacks (ys ! i)). by_slug stacks d \<noteq> None \<longrightarrow> d \<in> set (take i ys)) \<and>
        (\<not> is_locked stacks (ys ! i) \<longrightarrow> set (locked_slugs stacks) \<subseteq> set (take i ys)))"
    if "\<forall>s. s \<in> set ys \<longleftrightarrow> needed stacks selected s"
    using that before_needed nth_mem by (metis (no_types, lifting))
  ultimately show ?thesis unfolding valid_order_def install_order_def by blast
qed

lemma order_prefix_Nil: "order_prefix stacks cl []"
  by (simp add: order_prefix_def)

lemma resolveOrder_ok:
  assumes "resolveOrder stacks selected = (order, cyc)"
  shows "(cyc = None \<longrightarrow> install_order stacks selected order) \<and> (cyc \<noteq> None \<longrightarrow> \<not> (\<exists>ys. install_order stacks selected ys))"
  using order_loop_correct [OF distinct_stack_closure order_prefix_Nil assms [unfolded resolveOrder_def]]
  unfolding valid_install_order by blast

lemma resolveOrder_least:
  assumes "resolveOrder stacks selected = (order, None)" "install_order stacks selected ys"
  shows "map (install_key stacks) order \<le> map (install_key stacks) ys"
  using order_loop_least [OF assms(1) [unfolded resolveOrder_def] _ _ distinct_stack_closure, of ys] assms(2)
  by (simp add: valid_install_order)

lemma resolveOrder_cycle:
  assumes "resolveOrder stacks selected = (order, Some c)"
  shows "c \<noteq> [] \<and> (\<forall>s\<in>set c. \<exists>d\<in>set c. d \<in> set (slug_deps stacks s) \<or> \<not> is_locked stacks s \<and> d \<in> set (locked_slugs stacks))"
proof -
  have "c \<noteq> [] \<and> (\<forall>s\<in>set c. \<exists>d\<in>set (before stacks (stack_closure stacks selected) s). d \<in> set c)"
    using order_loop_correct [OF distinct_stack_closure order_prefix_Nil, where cyc = "Some c"] assms
    by (simp add: resolveOrder_def)
  then show ?thesis unfolding before_def by (auto split: if_splits)
qed

text \<open>Property C8. For every catalogue of stacks and every selection, the preview shows an install order exactly
when one exists: the order lists each selected stack, each locked stack and every dependency of those once, every
dependency before its dependents and every locked stack before every unlocked one, and of all such orders it is the
one whose sequence of sort keys (locked first, then sort order, then slug) is least; when it reports a cycle
instead, there is no order of the needed stacks at all, and each stack it names waits for another it names.\<close>

theorem resolveOrder_correct:
  "resolveOrder stacks selected = (order, cyc) \<Longrightarrow>
   (cyc = None \<longrightarrow> install_order stacks selected order \<and>
     (\<forall>ys. install_order stacks selected ys \<longrightarrow> map (install_key stacks) order \<le> map (install_key stacks) ys)) \<and>
   (\<forall>c. cyc = Some c \<longrightarrow> \<not> (\<exists>ys. install_order stacks selected ys) \<and> c \<noteq> [] \<and>
     (\<forall>s\<in>set c. \<exists>d\<in>set c. d \<in> set (slug_deps stacks s) \<or> \<not> is_locked stacks s \<and> d \<in> set (locked_slugs stacks)))"
  using resolveOrder_ok [of stacks selected order cyc] resolveOrder_least [of stacks selected order] resolveOrder_cycle [of stacks selected order]
  by (cases cyc) simp_all

text \<open>A base stack that is locked, a tool that needs a library, and two stacks that need each other.\<close>

definition sample_stacks :: "stack list" where
  "sample_stacks =
     [\<lparr>pk_slug = ''tool'', pk_locked = False, pk_sort = 1, pk_deps = [''lib'']\<rparr>,
      \<lparr>pk_slug = ''lib'', pk_locked = False, pk_sort = 9, pk_deps = []\<rparr>,
      \<lparr>pk_slug = ''base'', pk_locked = True, pk_sort = 5, pk_deps = []\<rparr>,
      \<lparr>pk_slug = ''x'', pk_locked = False, pk_sort = 0, pk_deps = [''y'']\<rparr>,
      \<lparr>pk_slug = ''y'', pk_locked = False, pk_sort = 0, pk_deps = [''x'']\<rparr>]"

lemma sample_order: "resolveOrder sample_stacks [''tool''] = ([''base'', ''lib'', ''tool''], None)"
  by code_simp

lemma sample_cycle: "resolveOrder sample_stacks [''x''] = ([''base''], Some [''x'', ''y''])"
  by code_simp

theorem resolveOrder_correct_witness:
  "install_order sample_stacks [''tool''] [''base'', ''lib'', ''tool''] \<and> (\<forall>ys. \<not> install_order sample_stacks [''x''] ys)"
  using resolveOrder_correct [OF sample_order] resolveOrder_correct [OF sample_cycle] by simp

end
