(* ===== verification/ProvForms.thy ===== *)
theory ProvForms
  imports ProvOrder
begin

section \<open>Provisioning: forms over stored rows\<close>

text \<open>
  \<open>screens-prov.jsx\<close>, the editors of the software pool: a stored entry is opened as a form (\<open>swForm\<close>,
  \<open>specState\<close>), the form is read back as a request body (\<open>swBody\<close>, \<open>specJson\<close>), and a save sends
  only the fields whose canonical text changed (\<open>canon\<close>, \<open>diffOf\<close>).  Text fields of a form hold what
  the row had, so they are JSON values; \<open>None\<close> is the exception of a string method called on
  something else.  Lemmas: merging a difference into the row gives the body; the canonical text does not depend on the
  order of keys; a row in the form the editor writes survives opening and saving without a change.
\<close>

subsection \<open>Canonical text and differences\<close>

fun nn :: "jval \<Rightarrow> jval" where
  "nn (JStr s) = (if js_trim s = [] then JNull else JStr (js_trim s))"
| "nn v = (if nullish v then JNull else v)"

text \<open>\<open>JSON.stringify\<close> of a string.\<close>

definition json_char :: "char \<Rightarrow> string" where
  "json_char c = (let n = (of_char c :: nat) in
     if n = 34 then [CHR 92, c] else if n = 92 then [CHR 92, c]
     else if n = 8 then [CHR 92, CHR ''b''] else if n = 9 then [CHR 92, CHR ''t''] else if n = 10 then [CHR 92, CHR ''n'']
     else if n = 12 then [CHR 92, CHR ''f''] else if n = 13 then [CHR 92, CHR ''r'']
     else if n < 32 then [CHR 92, CHR ''u'', CHR ''0'', CHR ''0'', digit_char (n div 16),
       if n mod 16 < 10 then digit_char (n mod 16) else char_of (87 + n mod 16)]
     else [c])"

definition json_str :: "string \<Rightarrow> string" where
  "json_str s = CHR 34 # concat (map json_char s) @ [CHR 34]"

fun canon :: "jval \<Rightarrow> string" where
  "canon (JArr xs) = ''['' @ join_str '','' (map canon xs) @ '']''"
| "canon (JObj kvs) = ''{'' @ join_str '','' (map (\<lambda>(k, t). json_str k @ '':'' @ t)
     (sort_key fst (map (\<lambda>(k, v). (k, canon v)) kvs))) @ ''}''"
| "canon (JStr s) = json_str s"
| "canon (JNum r) = num_str r"
| "canon (JBool b) = (if b then ''true'' else ''false'')"
| "canon JNull = ''null''"
| "canon JUndef = ''null''"

definition diffOf :: "(string \<times> jval) list \<Rightarrow> jval \<Rightarrow> (string \<times> jval) list" where
  "diffOf nxt cur = filter (\<lambda>(k, a). canon a \<noteq> canon (jnn (jget cur k) JNull)) nxt"

subsection \<open>Text fields\<close>

fun split_by :: "(char \<Rightarrow> bool) \<Rightarrow> string \<Rightarrow> string list" where
  "split_by p [] = [[]]"
| "split_by p (c # cs) = (if p c then [] # split_by p cs else (case split_by p cs of w # ws \<Rightarrow> (c # w) # ws | [] \<Rightarrow> [[c]]))"

definition linesOf :: "string \<Rightarrow> string list" where
  "linesOf t = filter (\<lambda>x. x \<noteq> []) (map js_trim (split_by (\<lambda>c. c = CHR 10) t))"

definition words_of :: "string \<Rightarrow> string list" where
  "words_of t = filter (\<lambda>x. x \<noteq> []) (split_by is_space t)"

fun join_v :: "string \<Rightarrow> jval \<Rightarrow> string option" where
  "join_v sep (JArr xs) = Some (join_str sep (map (\<lambda>x. if nullish x then [] else js_String x) xs))"
| "join_v sep v = None"

fun trim_v :: "jval \<Rightarrow> string option" where
  "trim_v (JStr s) = Some (js_trim s)"
| "trim_v v = None"

fun entries :: "jval \<Rightarrow> (string \<times> jval) list" where
  "entries (JObj kvs) = kvs"
| "entries (JArr xs) = zip (map nat_str [0..<length xs]) xs"
| "entries (JStr s) = zip (map nat_str [0..<length s]) (map (\<lambda>c. JStr [c]) s)"
| "entries v = []"

definition text_or :: "jval \<Rightarrow> string \<Rightarrow> jval" where
  "text_or s k = jor (jget s k) (JStr [])"

subsection \<open>The spec form\<close>

record repo_form =
  rf_on :: bool
  rf_url :: jval
  rf_key_url :: jval
  rf_fingerprint :: jval
  rf_suite :: jval
  rf_components :: string

record spec_form =
  sf_extract :: bool
  sf_creates :: jval
  sf_src :: string
  sf_body :: jval
  sf_url :: jval
  sf_sha256 :: jval
  sf_interpreter :: jval
  sf_run_as :: jval
  sf_env :: "(string \<times> string) list"
  sf_check :: string
  sf_version_check :: jval
  sf_bsrc :: string
  sf_git :: jval
  sf_tag :: jval
  sf_tarball :: jval
  sf_tsha :: jval
  sf_system :: jval
  sf_configure :: string
  sf_prefix :: jval
  sf_build :: jval
  sf_install :: jval
  sf_repo :: "string \<Rightarrow> repo_form"

definition emptyRepo :: repo_form where
  "emptyRepo = \<lparr>rf_on = False, rf_url = JStr [], rf_key_url = JStr [], rf_fingerprint = JStr [], rf_suite = JStr [], rf_components = []\<rparr>"

definition repoState :: "jval \<Rightarrow> repo_form option" where
  "repoState r = (if truthy r
     then map_option (\<lambda>c. \<lparr>rf_on = True, rf_url = text_or r ''url'', rf_key_url = text_or r ''key_url'',
       rf_fingerprint = text_or r ''fingerprint'', rf_suite = text_or r ''suite'', rf_components = c\<rparr>)
       (join_v '' '' (jor (jget r ''components'') (JArr [])))
     else Some emptyRepo)"

definition specState :: "jval \<Rightarrow> spec_form option" where
  "specState spec = (let s = jor spec (JObj []); src = jor (jget s ''source'') (JObj []) in
     case (repoState (jget s ''suse''), repoState (jget s ''debian''), repoState (jget s ''fedora''),
           join_v [CHR 10] (jor (jget s ''check'') (JArr [])), join_v [CHR 10] (jor (jget s ''configure_args'') (JArr []))) of
       (Some rs, Some rd, Some rf, Some chk, Some conf) \<Rightarrow> Some
         \<lparr>sf_extract = truthy (jget s ''extract''), sf_creates = text_or s ''creates'',
          sf_src = (if truthy (jget s ''url'') then ''url'' else ''inline''), sf_body = text_or s ''body'',
          sf_url = text_or s ''url'', sf_sha256 = text_or s ''sha256'', sf_interpreter = text_or s ''interpreter'',
          sf_run_as = jor (jget s ''run_as'') (JStr ''root''),
          sf_env = map (\<lambda>(k, v). (k, js_String v)) (entries (jor (jget s ''env'') (JObj []))),
          sf_check = chk, sf_version_check = text_or s ''version_check'',
          sf_bsrc = (if truthy (jget src ''tarball'') then ''tarball'' else ''git''), sf_git = text_or src ''git'',
          sf_tag = text_or src ''tag'', sf_tarball = text_or src ''tarball'', sf_tsha = text_or src ''sha256'',
          sf_system = jor (jget s ''system'') (JStr ''cmake''), sf_configure = conf, sf_prefix = text_or s ''prefix'',
          sf_build = text_or s ''build'', sf_install = text_or s ''install'',
          sf_repo = (\<lambda>f. if f = ''suse'' then rs else if f = ''debian'' then rd else if f = ''fedora'' then rf else emptyRepo)\<rparr>
     | _ \<Rightarrow> None)"

definition put_nn :: "string \<Rightarrow> jval \<Rightarrow> (string \<times> jval) list \<Rightarrow> (string \<times> jval) list" where
  "put_nn k v obj = (if nn v = JNull then obj else put k (nn v) obj)"

definition spec_env :: "spec_form \<Rightarrow> jval" where
  "spec_env st = (let e = fold (\<lambda>(k, v) e. if js_trim k = [] then e else put (js_trim k) (JStr v) e) (sf_env st) []
     in if e = [] then JNull else JObj e)"

definition lines_field :: "string \<Rightarrow> string \<Rightarrow> (string \<times> jval) list \<Rightarrow> (string \<times> jval) list" where
  "lines_field k t obj = (if linesOf t = [] then obj else put k (JArr (map JStr (linesOf t))) obj)"

text \<open>The guard fields that scripts and builds share.\<close>

definition spec_guard :: "spec_form \<Rightarrow> (string \<times> jval) list \<Rightarrow> (string \<times> jval) list" where
  "spec_guard st obj = put_nn ''version_check'' (sf_version_check st) (lines_field ''check'' (sf_check st)
     (put_nn ''creates'' (sf_creates st) (if spec_env st = JNull then obj else put ''env'' (spec_env st) obj)))"

definition script_json :: "spec_form \<Rightarrow> (string \<times> jval) list option" where
  "script_json st = map_option (\<lambda>obj. put ''run_as'' (sf_run_as st) (put_nn ''interpreter'' (sf_interpreter st) obj))
     (if sf_src st = ''url'' then Some (put_nn ''sha256'' (sf_sha256 st) (put_nn ''url'' (sf_url st) []))
      else map_option (\<lambda>b. if b = [] then [] else [(''body'', sf_body st)]) (trim_v (sf_body st)))"

definition source_json :: "spec_form \<Rightarrow> jval option" where
  "source_json st = (if sf_bsrc st = ''git''
     then (case trim_v (sf_git st) of None \<Rightarrow> None
       | Some g \<Rightarrow> if nn (sf_tag st) = JNull then Some (JObj [(''git'', JStr g)])
           else map_option (\<lambda>t. JObj [(''git'', JStr g), (''tag'', JStr t)]) (trim_v (sf_tag st)))
     else (case (trim_v (sf_tarball st), trim_v (sf_tsha st)) of
         (Some t, Some h) \<Rightarrow> Some (JObj [(''tarball'', JStr t), (''sha256'', JStr h)]) | _ \<Rightarrow> None))"

definition build_json :: "spec_form \<Rightarrow> (string \<times> jval) list option" where
  "build_json st = map_option (\<lambda>src.
     let obj = put_nn ''prefix'' (sf_prefix st) (lines_field ''configure_args'' (sf_configure st) [(''source'', src), (''system'', sf_system st)])
     in if sf_system st = JStr ''custom'' then put_nn ''install'' (sf_install st) (put_nn ''build'' (sf_build st) obj) else obj)
     (source_json st)"

definition repo_json :: "string \<Rightarrow> repo_form \<Rightarrow> jval option" where
  "repo_json f r = (let x = put_nn ''fingerprint'' (rf_fingerprint r) (put_nn ''key_url'' (rf_key_url r) (put_nn ''url'' (rf_url r) []));
       fin = (\<lambda>x. JObj (if words_of (rf_components r) = [] then x else put ''components'' (JArr (map JStr (words_of (rf_components r)))) x))
     in if f = ''debian'' then Some (fin (put_nn ''suite'' (rf_suite r) x))
        else map_option (\<lambda>t. fin (if t = [] then x else put_nn ''suite'' (rf_suite r) x)) (trim_v (rf_suite r)))"

fun repos_json :: "string list \<Rightarrow> spec_form \<Rightarrow> (string \<times> jval) list option" where
  "repos_json [] st = Some []"
| "repos_json (f # fs) st = (if rf_on (sf_repo st f)
     then (case repo_json f (sf_repo st f) of None \<Rightarrow> None | Some b \<Rightarrow> map_option ((#) (f, b)) (repos_json fs st))
     else repos_json fs st)"

definition specJson :: "string \<Rightarrow> spec_form \<Rightarrow> jval option" where
  "specJson type st =
     (if type = ''pkg'' \<or> type = ''role'' then Some JNull
      else if type = ''artifact'' then Some (JObj (put_nn ''creates'' (sf_creates st) (if sf_extract st then [(''extract'', JBool True)] else [])))
      else if type = ''script'' then map_option (JObj \<circ> spec_guard st) (script_json st)
      else if type = ''build'' then map_option (JObj \<circ> spec_guard st) (build_json st)
      else if type = ''repo'' then map_option JObj (repos_json FAMS st)
      else Some (JObj []))"

subsection \<open>The entry form\<close>

record sw_form =
  wf_logical :: jval
  wf_type :: jval
  wf_names :: "string \<Rightarrow> jval"
  wf_support :: "string \<Rightarrow> bool"
  wf_families :: jval
  wf_arches :: jval
  wf_role :: jval
  wf_source :: jval
  wf_pin :: jval
  wf_notes :: jval

definition swForm :: "jval \<Rightarrow> sw_form" where
  "swForm sw = (let r = jor sw (JObj []); type = jor (jget r ''item_type'') (JStr ''pkg'') in
     \<lparr>wf_logical = text_or r ''logical_name'', wf_type = type,
      wf_names = (\<lambda>f. if type = JStr ''pkg'' then jor (jget r (''name_'' @ f)) (JStr []) else JStr []),
      wf_support = (\<lambda>f. if truthy sw then \<not> nullish (jget r (''name_'' @ f)) else True),
      wf_families = jor (jget r ''applies_families'') JNull, wf_arches = jor (jget r ''applies_arches'') JNull,
      wf_role = text_or r ''ansible_role'', wf_source = text_or r ''source_url'', wf_pin = text_or r ''version_pin'',
      wf_notes = text_or r ''notes''\<rparr>)"

definition swBody :: "sw_form \<Rightarrow> jval \<Rightarrow> (string \<times> jval) list option" where
  "swBody f spec = map_option (\<lambda>name.
     [(''logical_name'', JStr name), (''item_type'', wf_type f)] @
     map (\<lambda>x. (''name_'' @ x, if wf_type f = JStr ''pkg'' then nn (wf_names f x) else if wf_support f x then JStr ''='' else JNull)) FAMS @
     [(''applies_families'', wf_families f), (''applies_arches'', wf_arches f),
      (''ansible_role'', if wf_type f = JStr ''role'' then nn (wf_role f) else JNull),
      (''source_url'', nn (wf_source f)), (''version_pin'', nn (wf_pin f)), (''spec'', spec), (''notes'', nn (wf_notes f))])
     (trim_v (wf_logical f))"

text \<open>What a save of the opened entry would send.\<close>

definition saveDiff :: "jval \<Rightarrow> (string \<times> jval) list option" where
  "saveDiff det = (case specState (jget det ''spec'') of None \<Rightarrow> None
     | Some st \<Rightarrow> (case specJson (case wf_type (swForm det) of JStr type \<Rightarrow> type | _ \<Rightarrow> []) st of None \<Rightarrow> None
         | Some spec \<Rightarrow> map_option (\<lambda>body. diffOf body det) (swBody (swForm det) spec)))"

subsection \<open>Canonical text does not depend on key order\<close>

lemma sort_key_fst_unique:
  assumes "distinct (map fst xs)" "distinct (map fst ys)" "map_of xs = map_of ys"
  shows "sort_key fst xs = sort_key fst (ys :: ('a::linorder \<times> 'b) list)"
proof -
  have "set xs = set ys" using assms by (metis map_of_inject_set)
  moreover have "inj_on fst (set xs \<union> set xs)" using assms(1) by (simp add: distinct_map)
  moreover have "distinct xs" "distinct ys" using assms(1,2) by (simp_all add: distinct_map)
  ultimately show ?thesis
    by (intro map_sorted_distinct_set_unique [of fst]) (simp_all add: distinct_map)
qed

lemma canon_obj_cong:
  assumes "distinct (map fst xs)" "distinct (map fst ys)" "\<And>k. map_option canon (map_of xs k) = map_option canon (map_of ys k)"
  shows "canon (JObj xs) = canon (JObj ys)"
proof -
  have "map_of (map (\<lambda>(k, v). (k, canon v)) xs) = map_of (map (\<lambda>(k, v). (k, canon v)) ys)"
    by (rule ext) (simp add: map_of_map_snd assms(3))
  moreover have "distinct (map fst (map (\<lambda>(k, v). (k, canon v)) zs)) = distinct (map fst zs)" for zs :: "(string \<times> jval) list"
    by (simp add: comp_def case_prod_beta)
  ultimately have "sort_key fst (map (\<lambda>(k, v). (k, canon v)) xs) = sort_key fst (map (\<lambda>(k, v). (k, canon v)) ys)"
    using assms(1,2) by (intro sort_key_fst_unique) simp_all
  then show ?thesis by simp
qed

lemma canon_obj_same:
  assumes "distinct (map fst xs)" "distinct (map fst ys)" "\<And>k. map_of xs k = map_of ys k"
  shows "canon (JObj xs) = canon (JObj ys)"
  using assms by (intro canon_obj_cong) simp_all

text \<open>A difference says all there is to say: the row with the difference written over it agrees with the body on every
  field of the body.\<close>

lemma diffOf_merge:
  assumes "distinct (map fst nxt)" "(k, a) \<in> set nxt"
  shows "canon (case map_of (diffOf nxt cur) k of Some v \<Rightarrow> v | None \<Rightarrow> jnn (jget cur k) JNull) = canon a"
proof -
  have d: "distinct (map fst (diffOf nxt cur))" unfolding diffOf_def using assms(1) by (rule distinct_map_filter)
  show ?thesis
  proof (cases "canon a = canon (jnn (jget cur k) JNull)")
    case True
    then have "k \<notin> fst ` set (diffOf nxt cur)" using eq_key_imp_eq_value [OF assms(1) assms(2)] by (auto simp: diffOf_def)
    then have "map_of (diffOf nxt cur) k = None" by (simp add: map_of_eq_None_iff)
    then show ?thesis using True by simp
  next
    case False
    then have "(k, a) \<in> set (diffOf nxt cur)" using assms(2) by (simp add: diffOf_def)
    then show ?thesis using d by simp
  qed
qed

subsection \<open>Joining and splitting\<close>

lemma split_by_plain: "\<forall>c\<in>set x. \<not> p c \<Longrightarrow> split_by p x = [x]"
  by (induction x) auto

lemma split_by_append: "\<forall>c\<in>set x. \<not> p c \<Longrightarrow> p c \<Longrightarrow> split_by p (x @ c # ys) = x # split_by p ys"
  by (induction x) auto

lemma split_by_join:
  "xs \<noteq> [] \<Longrightarrow> \<forall>x\<in>set xs. \<forall>c\<in>set x. \<not> p c \<Longrightarrow> p c \<Longrightarrow> split_by p (join_str [c] xs) = xs"
  by (induction "[c]" xs rule: join_str.induct) (auto simp: split_by_plain split_by_append)

lemma linesOf_join:
  assumes "\<forall>x\<in>set xs. x \<noteq> [] \<and> js_trim x = x \<and> CHR 10 \<notin> set x"
  shows "linesOf (join_str [CHR 10] xs) = xs"
proof (cases "xs = []")
  case False
  have "split_by (\<lambda>c. c = CHR 10) (join_str [CHR 10] xs) = xs" using assms False by (intro split_by_join) auto
  moreover have "map js_trim xs = xs" using assms by (simp add: map_idI)
  ultimately show ?thesis using assms by (simp add: linesOf_def)
qed (simp add: linesOf_def js_trim_def)

lemma words_of_join:
  assumes "\<forall>x\<in>set xs. x \<noteq> [] \<and> (\<forall>c\<in>set x. \<not> is_space c)"
  shows "words_of (join_str '' '' xs) = xs"
proof (cases "xs = []")
  case False
  have "split_by is_space (join_str '' '' xs) = xs" using assms False by (intro split_by_join) (auto simp: is_space_def)
  then show ?thesis using assms by (simp add: words_of_def)
qed (simp add: words_of_def)

subsection \<open>Rows in the form the editor writes\<close>

definition tidy :: "jval \<Rightarrow> bool" where
  "tidy v = (case v of JStr t \<Rightarrow> t \<noteq> [] \<and> js_trim t = t | _ \<Rightarrow> False)"

definition tidy_lines :: "jval \<Rightarrow> bool" where
  "tidy_lines v = (case v of JArr xs \<Rightarrow> xs \<noteq> [] \<and> list_all (\<lambda>x. case x of
     JStr t \<Rightarrow> t \<noteq> [] \<and> js_trim t = t \<and> CHR 10 \<notin> set t | _ \<Rightarrow> False) xs | _ \<Rightarrow> False)"

definition tidy_words :: "jval \<Rightarrow> bool" where
  "tidy_words v = (case v of JArr xs \<Rightarrow> xs \<noteq> [] \<and> list_all (\<lambda>x. case x of
     JStr t \<Rightarrow> t \<noteq> [] \<and> list_all (\<lambda>c. \<not> is_space c) t | _ \<Rightarrow> False) xs | _ \<Rightarrow> False)"

definition tidy_env :: "jval \<Rightarrow> bool" where
  "tidy_env v = (case v of JObj kvs \<Rightarrow> kvs \<noteq> [] \<and> distinct (map fst kvs) \<and> list_all (\<lambda>(k, x). k \<noteq> [] \<and> js_trim k = k \<and>
     (case x of JStr _ \<Rightarrow> True | _ \<Rightarrow> False)) kvs | _ \<Rightarrow> False)"

definition opt_ok :: "(jval \<Rightarrow> bool) \<Rightarrow> (string \<times> jval) list \<Rightarrow> string \<Rightarrow> bool" where
  "opt_ok P kvs k = (case map_of kvs k of None \<Rightarrow> True | Some v \<Rightarrow> P v)"

definition keys_in :: "string list \<Rightarrow> (string \<times> jval) list \<Rightarrow> bool" where
  "keys_in ks kvs \<longleftrightarrow> list_all (\<lambda>kv. fst kv \<in> set ks) kvs \<and> distinct (map fst kvs)"

definition has :: "(jval \<Rightarrow> bool) \<Rightarrow> (string \<times> jval) list \<Rightarrow> string \<Rightarrow> bool" where
  "has P kvs k = (case map_of kvs k of None \<Rightarrow> False | Some v \<Rightarrow> P v)"

definition guard_ok :: "(string \<times> jval) list \<Rightarrow> bool" where
  "guard_ok kvs \<longleftrightarrow> opt_ok tidy_env kvs ''env'' \<and> opt_ok tidy kvs ''creates'' \<and> opt_ok tidy_lines kvs ''check'' \<and> opt_ok tidy kvs ''version_check''"

definition artifact_ok :: "(string \<times> jval) list \<Rightarrow> bool" where
  "artifact_ok kvs \<longleftrightarrow> keys_in [''extract'', ''creates''] kvs \<and> opt_ok (\<lambda>v. v = JBool True) kvs ''extract'' \<and> opt_ok tidy kvs ''creates''"

definition script_ok :: "(string \<times> jval) list \<Rightarrow> bool" where
  "script_ok kvs \<longleftrightarrow> keys_in [''url'', ''sha256'', ''body'', ''interpreter'', ''run_as'', ''env'', ''creates'', ''check'', ''version_check''] kvs \<and>
     (has tidy kvs ''url'' \<and> opt_ok tidy kvs ''sha256'' \<and> map_of kvs ''body'' = None \<or>
      map_of kvs ''url'' = None \<and> map_of kvs ''sha256'' = None \<and> opt_ok (\<lambda>v. case v of JStr t \<Rightarrow> js_trim t \<noteq> [] | _ \<Rightarrow> False) kvs ''body'') \<and>
     opt_ok tidy kvs ''interpreter'' \<and> has truthy kvs ''run_as'' \<and> guard_ok kvs"

definition source_ok :: "jval \<Rightarrow> bool" where
  "source_ok v = (case v of JObj kvs \<Rightarrow>
       keys_in [''git'', ''tag''] kvs \<and> has tidy kvs ''git'' \<and> opt_ok tidy kvs ''tag'' \<or>
       keys_in [''tarball'', ''sha256''] kvs \<and> has tidy kvs ''tarball'' \<and> has tidy kvs ''sha256''
     | _ \<Rightarrow> False)"

definition build_ok :: "(string \<times> jval) list \<Rightarrow> bool" where
  "build_ok kvs \<longleftrightarrow> keys_in [''source'', ''system'', ''configure_args'', ''prefix'', ''build'', ''install'', ''env'', ''creates'', ''check'', ''version_check''] kvs \<and>
     has source_ok kvs ''source'' \<and> has truthy kvs ''system'' \<and> opt_ok tidy_lines kvs ''configure_args'' \<and> opt_ok tidy kvs ''prefix'' \<and>
     (if map_of kvs ''system'' = Some (JStr ''custom'') then opt_ok tidy kvs ''build'' \<and> opt_ok tidy kvs ''install''
      else map_of kvs ''build'' = None \<and> map_of kvs ''install'' = None) \<and> guard_ok kvs"

definition block_ok :: "jval \<Rightarrow> bool" where
  "block_ok v = (case v of JObj kvs \<Rightarrow> keys_in [''url'', ''key_url'', ''fingerprint'', ''suite'', ''components''] kvs \<and>
       opt_ok tidy kvs ''url'' \<and> opt_ok tidy kvs ''key_url'' \<and> opt_ok tidy kvs ''fingerprint'' \<and> opt_ok tidy kvs ''suite'' \<and>
       opt_ok tidy_words kvs ''components''
     | _ \<Rightarrow> False)"

definition repo_ok :: "(string \<times> jval) list \<Rightarrow> bool" where
  "repo_ok kvs \<longleftrightarrow> keys_in FAMS kvs \<and> list_all (\<lambda>kv. block_ok (snd kv)) kvs"

definition spec_ok :: "string \<Rightarrow> jval \<Rightarrow> bool" where
  "spec_ok type spec \<longleftrightarrow> (if type = ''pkg'' \<or> type = ''role'' then spec = JNull else (case spec of
       JObj kvs \<Rightarrow> (if type = ''artifact'' then artifact_ok kvs else if type = ''script'' then script_ok kvs
         else if type = ''build'' then build_ok kvs else type = ''repo'' \<and> repo_ok kvs)
     | _ \<Rightarrow> False))"

subsection \<open>Reading a field back\<close>

lemma tidyE: "tidy v \<Longrightarrow> \<exists>t. v = JStr t \<and> t \<noteq> [] \<and> js_trim t = t"
  by (cases v) (auto simp: tidy_def)

lemma field_text:
  "opt_ok tidy kvs k \<Longrightarrow> map_of (put_nn k (text_or (JObj kvs) k) obj) k' = (if k' = k \<and> map_of kvs k \<noteq> None then map_of kvs k else map_of obj k')"
  by (cases "map_of kvs k") (auto simp: opt_ok_def put_nn_def text_or_def jor_def js_trim_def map_of_put dest!: tidyE)

lemma strs_of: "list_all (\<lambda>x. case x of JStr t \<Rightarrow> P t | _ \<Rightarrow> False) xs \<Longrightarrow> \<exists>ts. xs = map JStr ts \<and> (\<forall>t\<in>set ts. P t)"
proof (induction xs)
  case (Cons x xs)
  then obtain t ts where "x = JStr t" "P t" "xs = map JStr ts" "\<forall>t\<in>set ts. P t" by (cases x) auto
  then show ?case by (intro exI [of _ "t # ts"]) simp
qed simp

lemma join_strs: "join_v sep (JArr (map JStr ts)) = Some (join_str sep ts)"
  by (simp add: comp_def)

lemma field_lines:
  assumes "opt_ok tidy_lines kvs k"
  shows "\<exists>c. join_v [CHR 10] (jor (jget (JObj kvs) k) (JArr [])) = Some c \<and>
    (\<forall>obj k'. map_of (lines_field k c obj) k' = (if k' = k \<and> map_of kvs k \<noteq> None then map_of kvs k else map_of obj k'))"
proof (cases "map_of kvs k")
  case None
  then show ?thesis using linesOf_join [of "[]"] by (simp add: jor_def lines_field_def)
next
  case (Some v)
  then have "tidy_lines v" using assms by (simp add: opt_ok_def)
  then obtain xs where xs: "v = JArr xs" "xs \<noteq> []"
    "list_all (\<lambda>x. case x of JStr t \<Rightarrow> t \<noteq> [] \<and> js_trim t = t \<and> CHR 10 \<notin> set t | _ \<Rightarrow> False) xs"
    by (cases v) (auto simp: tidy_lines_def)
  obtain ts where ts: "v = JArr (map JStr ts)" "ts \<noteq> []" "\<forall>t\<in>set ts. t \<noteq> [] \<and> js_trim t = t \<and> CHR 10 \<notin> set t"
    using strs_of [OF xs(3)] xs(1,2) by auto
  then show ?thesis using Some linesOf_join [OF ts(3)] by (simp add: jor_def lines_field_def map_of_put comp_def)
qed

lemma field_words:
  assumes "opt_ok tidy_words kvs k"
  shows "\<exists>c. join_v '' '' (jor (jget (JObj kvs) k) (JArr [])) = Some c \<and>
    (\<forall>obj k'. map_of (if words_of c = [] then obj else put k (JArr (map JStr (words_of c))) obj) k' =
      (if k' = k \<and> map_of kvs k \<noteq> None then map_of kvs k else map_of obj k'))"
proof (cases "map_of kvs k")
  case None
  then show ?thesis using words_of_join [of "[]"] by (simp add: jor_def)
next
  case (Some v)
  then have "tidy_words v" using assms by (simp add: opt_ok_def)
  then obtain xs where xs: "v = JArr xs" "xs \<noteq> []"
    "list_all (\<lambda>x. case x of JStr t \<Rightarrow> t \<noteq> [] \<and> list_all (\<lambda>c. \<not> is_space c) t | _ \<Rightarrow> False) xs"
    by (cases v) (auto simp: tidy_words_def)
  obtain ts where ts: "v = JArr (map JStr ts)" "ts \<noteq> []" "\<forall>t\<in>set ts. t \<noteq> [] \<and> list_all (\<lambda>c. \<not> is_space c) t"
    using strs_of [OF xs(3)] xs(1,2) by auto
  then have "words_of (join_str '' '' ts) = ts" by (intro words_of_join) (simp add: list_all_iff)
  then show ?thesis using Some ts by (simp add: jor_def map_of_put comp_def)
qed

lemma put_new: "k \<notin> fst ` set e \<Longrightarrow> put k v e = e @ [(k, v)]"
  by (induction e) auto

lemma env_fold:
  "list_all (\<lambda>(k, x). k \<noteq> [] \<and> js_trim k = k \<and> (case x of JStr _ \<Rightarrow> True | _ \<Rightarrow> False)) kvs \<Longrightarrow> distinct (map fst (e @ kvs)) \<Longrightarrow>
   fold (\<lambda>(k, v) e. if js_trim k = [] then e else put (js_trim k) (JStr v) e) (map (\<lambda>(k, v). (k, js_String v)) kvs) e = e @ kvs"
proof (induction kvs arbitrary: e)
  case (Cons kv kvs)
  obtain k t where kv: "kv = (k, JStr t)" using Cons.prems(1) by (cases kv; cases "snd kv") auto
  have "put k (JStr t) e = e @ [kv]" using Cons.prems(2) kv by (intro put_new [of k e "JStr t", folded kv]) auto
  then show ?case using Cons.IH [of "e @ [kv]"] Cons.prems kv by simp
qed simp

lemma field_env:
  assumes "opt_ok tidy_env kvs ''env''" "sf_env st = map (\<lambda>(k, v). (k, js_String v)) (entries (jor (jget (JObj kvs) ''env'') (JObj [])))"
  shows "map_of (if spec_env st = JNull then obj else put ''env'' (spec_env st) obj) k' =
    (if k' = ''env'' \<and> map_of kvs ''env'' \<noteq> None then map_of kvs ''env'' else map_of obj k')"
proof (cases "map_of kvs ''env''")
  case None
  then show ?thesis using assms(2) by (simp add: spec_env_def jor_def)
next
  case (Some v)
  then have "tidy_env v" using assms(1) by (simp add: opt_ok_def)
  then obtain e where e: "v = JObj e" "e \<noteq> []" "distinct (map fst e)"
    "list_all (\<lambda>(k, x). k \<noteq> [] \<and> js_trim k = k \<and> (case x of JStr _ \<Rightarrow> True | _ \<Rightarrow> False)) e" by (cases v) (auto simp: tidy_env_def)
  then have "spec_env st = v" using env_fold [of e "[]"] assms(2) Some by (simp add: spec_env_def jor_def Let_def)
  then show ?thesis using Some e by (simp add: map_of_put)
qed

subsection \<open>A spec survives its form\<close>

lemma keys_in_None: "keys_in ks kvs \<Longrightarrow> k \<notin> set ks \<Longrightarrow> map_of kvs k = None"
  by (auto simp: keys_in_def list_all_iff map_of_eq_None_iff)

lemma keys_in_distinct: "keys_in ks kvs \<Longrightarrow> distinct (map fst kvs)"
  by (simp add: keys_in_def)

lemma distinct_put_nn: "distinct (map fst obj) \<Longrightarrow> distinct (map fst (put_nn k v obj))"
  by (simp add: put_nn_def distinct_put)

lemma distinct_lines_field: "distinct (map fst obj) \<Longrightarrow> distinct (map fst (lines_field k c obj))"
  by (simp add: lines_field_def distinct_put)

lemma distinct_guard: "distinct (map fst obj) \<Longrightarrow> distinct (map fst (spec_guard st obj))"
  by (simp add: spec_guard_def distinct_put distinct_put_nn distinct_lines_field)

lemmas form_distinct = distinct_put distinct_put_nn distinct_lines_field distinct_guard

text \<open>What opening a spec puts into the fields of the form.\<close>

definition opened :: "(string \<times> jval) list \<Rightarrow> spec_form \<Rightarrow> bool" where
  "opened kvs st \<longleftrightarrow> sf_extract st = truthy (jget (JObj kvs) ''extract'') \<and>
     sf_src st = (if truthy (jget (JObj kvs) ''url'') then ''url'' else ''inline'') \<and>
     sf_creates st = text_or (JObj kvs) ''creates'' \<and> sf_body st = text_or (JObj kvs) ''body'' \<and> sf_url st = text_or (JObj kvs) ''url'' \<and>
     sf_sha256 st = text_or (JObj kvs) ''sha256'' \<and> sf_interpreter st = text_or (JObj kvs) ''interpreter'' \<and>
     sf_version_check st = text_or (JObj kvs) ''version_check'' \<and> sf_prefix st = text_or (JObj kvs) ''prefix'' \<and>
     sf_build st = text_or (JObj kvs) ''build'' \<and> sf_install st = text_or (JObj kvs) ''install'' \<and>
     sf_run_as st = jor (jget (JObj kvs) ''run_as'') (JStr ''root'') \<and> sf_system st = jor (jget (JObj kvs) ''system'') (JStr ''cmake'') \<and>
     sf_env st = map (\<lambda>(k, v). (k, js_String v)) (entries (jor (jget (JObj kvs) ''env'') (JObj []))) \<and>
     join_v [CHR 10] (jor (jget (JObj kvs) ''check'') (JArr [])) = Some (sf_check st) \<and>
     join_v [CHR 10] (jor (jget (JObj kvs) ''configure_args'') (JArr [])) = Some (sf_configure st) \<and>
     (\<forall>f\<in>set FAMS. repoState (jget (JObj kvs) f) = Some (sf_repo st f)) \<and>
     (let src = jor (jget (JObj kvs) ''source'') (JObj []) in
        sf_bsrc st = (if truthy (jget src ''tarball'') then ''tarball'' else ''git'') \<and> sf_git st = text_or src ''git'' \<and>
        sf_tag st = text_or src ''tag'' \<and> sf_tarball st = text_or src ''tarball'' \<and> sf_tsha st = text_or src ''sha256'')"

lemma specState_opened:
  assumes "\<forall>f\<in>set FAMS. repoState (jget (JObj kvs) f) \<noteq> None" "opt_ok tidy_lines kvs ''check''" "opt_ok tidy_lines kvs ''configure_args''"
  shows "\<exists>st. specState (JObj kvs) = Some st \<and> opened kvs st"
proof -
  obtain rs rd rf where r: "repoState (jget (JObj kvs) ''suse'') = Some rs" "repoState (jget (JObj kvs) ''debian'') = Some rd"
    "repoState (jget (JObj kvs) ''fedora'') = Some rf" using assms(1) by (auto simp: FAMS_def simp del: jget.simps)
  obtain c where c: "join_v [CHR 10] (jor (jget (JObj kvs) ''check'') (JArr [])) = Some c" using field_lines [OF assms(2)] by blast
  obtain g where g: "join_v [CHR 10] (jor (jget (JObj kvs) ''configure_args'') (JArr [])) = Some g" using field_lines [OF assms(3)] by blast
  have "jor (JObj kvs) (JObj []) = JObj kvs" by (simp add: jor_def)
  then show ?thesis unfolding specState_def opened_def by (simp add: r c g Let_def FAMS_def del: jget.simps)
qed

lemma no_repos: "\<forall>f\<in>set FAMS. map_of kvs f = None \<Longrightarrow> \<forall>f\<in>set FAMS. repoState (jget (JObj kvs) f) \<noteq> None"
  by (simp add: repoState_def)

lemma opt_ok_None: "map_of kvs k = None \<Longrightarrow> opt_ok P kvs k"
  by (simp add: opt_ok_def)

lemma guard_fields:
  assumes "guard_ok kvs" "opened kvs st"
  shows "map_of (spec_guard st obj) k = (if k \<in> {''env'', ''creates'', ''check'', ''version_check''} \<and> map_of kvs k \<noteq> None then map_of kvs k else map_of obj k)"
proof -
  have ok: "opt_ok tidy_env kvs ''env''" "opt_ok tidy kvs ''creates''" "opt_ok tidy_lines kvs ''check''" "opt_ok tidy kvs ''version_check''"
    using assms(1) by (simp_all add: guard_ok_def)
  have st: "sf_creates st = text_or (JObj kvs) ''creates''" "sf_version_check st = text_or (JObj kvs) ''version_check''"
    "sf_env st = map (\<lambda>(k, v). (k, js_String v)) (entries (jor (jget (JObj kvs) ''env'') (JObj [])))"
    "join_v [CHR 10] (jor (jget (JObj kvs) ''check'') (JArr [])) = Some (sf_check st)"
    using assms(2) by (simp_all add: opened_def del: jget.simps)
  have c: "map_of (lines_field ''check'' (sf_check st) obj) k' = (if k' = ''check'' \<and> map_of kvs ''check'' \<noteq> None then map_of kvs ''check'' else map_of obj k')" for obj k'
    using field_lines [OF ok(3)] st(4) by auto
  show ?thesis unfolding spec_guard_def st(1,2) field_text [OF ok(4)] c field_text [OF ok(2)] field_env [OF ok(1) st(3)]
    by (cases "map_of kvs k"; cases "k = ''version_check''"; cases "k = ''check''"; cases "k = ''creates''"; cases "k = ''env''") simp_all
qed

lemma artifact_trip:
  assumes "artifact_ok kvs"
  shows "\<exists>st spec. specState (JObj kvs) = Some st \<and> specJson ''artifact'' st = Some spec \<and> canon spec = canon (JObj kvs)"
proof -
  have ok: "keys_in [''extract'', ''creates''] kvs" "opt_ok (\<lambda>v. v = JBool True) kvs ''extract''" "opt_ok tidy kvs ''creates''"
    using assms by (simp_all add: artifact_ok_def)
  note none = keys_in_None [OF ok(1)]
  obtain st where st: "specState (JObj kvs) = Some st" "opened kvs st"
    using specState_opened [OF no_repos opt_ok_None opt_ok_None, of kvs] none by (auto simp: FAMS_def)
  let ?e = "if sf_extract st then [(''extract'', JBool True)] else []"
  have f: "sf_creates st = text_or (JObj kvs) ''creates''" "sf_extract st = (map_of kvs ''extract'' = Some (JBool True))"
    using st(2) ok(2) by (auto simp: opened_def opt_ok_def split: option.splits)
  have "map_of (put_nn ''creates'' (sf_creates st) ?e) k = map_of kvs k" for k
    using none [of k] ok(2) unfolding f(1) field_text [OF ok(3)] f(2) opt_ok_def
    by (cases "map_of kvs k"; cases "k = ''creates''"; cases "k = ''extract''") simp_all
  then have "canon (JObj (put_nn ''creates'' (sf_creates st) ?e)) = canon (JObj kvs)"
    using ok(1) by (intro canon_obj_same) (simp_all add: form_distinct keys_in_distinct)
  then show ?thesis using st(1) by (simp add: specJson_def)
qed

lemma script_source:
  assumes "script_ok kvs" "opened kvs st"
  shows "\<exists>src. script_json st = Some (put ''run_as'' (sf_run_as st) (put_nn ''interpreter'' (sf_interpreter st) src)) \<and>
    distinct (map fst src) \<and> (\<forall>k. map_of src k = (if k \<in> {''url'', ''sha256'', ''body''} then map_of kvs k else None))"
proof -
  have f: "sf_url st = text_or (JObj kvs) ''url''" "sf_sha256 st = text_or (JObj kvs) ''sha256''" "sf_body st = text_or (JObj kvs) ''body''"
    "sf_src st = (if truthy (jget (JObj kvs) ''url'') then ''url'' else ''inline'')"
    using assms(2) by (simp_all add: opened_def)
  show ?thesis
  proof (cases "map_of kvs ''url''")
    case (Some u)
    then have ok: "opt_ok tidy kvs ''url''" "opt_ok tidy kvs ''sha256''" "map_of kvs ''body'' = None" "tidy u"
      using assms(1) by (auto simp: script_ok_def has_def opt_ok_def)
    have "sf_src st = ''url''" using f(4) Some tidyE [OF ok(4)] by auto
    then show ?thesis using ok(3) unfolding script_json_def f(1,2)
      by (intro exI [of _ "put_nn ''sha256'' (text_or (JObj kvs) ''sha256'') (put_nn ''url'' (text_or (JObj kvs) ''url'') [])"])
        (simp add: form_distinct field_text [OF ok(1)] field_text [OF ok(2)] Some)
  next
    case None
    then have ok: "map_of kvs ''sha256'' = None" "opt_ok (\<lambda>v. case v of JStr t \<Rightarrow> js_trim t \<noteq> [] | _ \<Rightarrow> False) kvs ''body''"
      using assms(1) by (auto simp: script_ok_def has_def)
    show ?thesis
    proof (cases "map_of kvs ''body''")
      case nobody: None
      then show ?thesis using None ok(1) unfolding script_json_def f
        by (intro exI [of _ "[]"]) (simp add: text_or_def jor_def js_trim_def)
    next
      case (Some b)
      then obtain t where "b = JStr t" "js_trim t \<noteq> []" using ok(2) by (cases b) (auto simp: opt_ok_def)
      moreover have "t \<noteq> []" using calculation(2) by (auto simp: js_trim_def)
      ultimately show ?thesis using None ok(1) Some unfolding script_json_def f
        by (intro exI [of _ "[(''body'', b)]"]) (simp add: text_or_def jor_def)
    qed
  qed
qed

lemma script_trip:
  assumes "script_ok kvs"
  shows "\<exists>st spec. specState (JObj kvs) = Some st \<and> specJson ''script'' st = Some spec \<and> canon spec = canon (JObj kvs)"
proof -
  let ?ks = "[''url'', ''sha256'', ''body'', ''interpreter'', ''run_as'', ''env'', ''creates'', ''check'', ''version_check'']"
  have ok: "keys_in ?ks kvs" "opt_ok tidy kvs ''interpreter''" "has truthy kvs ''run_as''" "guard_ok kvs" "opt_ok tidy_lines kvs ''check''"
    using assms by (simp_all add: script_ok_def guard_ok_def)
  note none = keys_in_None [OF ok(1)]
  obtain st where st: "specState (JObj kvs) = Some st" "opened kvs st"
    using specState_opened [OF no_repos ok(5) opt_ok_None] none by (auto simp: FAMS_def)
  have f: "sf_interpreter st = text_or (JObj kvs) ''interpreter''" "Some (sf_run_as st) = map_of kvs ''run_as''"
    using st(2) ok(3) by (auto simp: opened_def has_def jor_def split: option.splits)
  obtain src where src: "script_json st = Some (put ''run_as'' (sf_run_as st) (put_nn ''interpreter'' (sf_interpreter st) src))"
    "distinct (map fst src)" "\<And>k. map_of src k = (if k \<in> {''url'', ''sha256'', ''body''} then map_of kvs k else None)"
    using script_source [OF assms st(2)] by blast
  have "map_of (spec_guard st (put ''run_as'' (sf_run_as st) (put_nn ''interpreter'' (sf_interpreter st) src))) k = map_of kvs k" for k
    using none [of k] unfolding guard_fields [OF ok(4) st(2)] map_of_put f field_text [OF ok(2)] src(3)
    by (cases "map_of kvs k"; cases "k \<in> {''env'', ''creates'', ''check'', ''version_check''}"; cases "k = ''run_as''"; cases "k = ''interpreter''") auto
  then have "canon (JObj (spec_guard st (put ''run_as'' (sf_run_as st) (put_nn ''interpreter'' (sf_interpreter st) src)))) = canon (JObj kvs)"
    using ok(1) src(2) by (intro canon_obj_same) (simp_all add: form_distinct keys_in_distinct)
  then show ?thesis using st(1) src(1) by (simp add: specJson_def)
qed

lemma source_trip:
  assumes "source_ok v" "sf_bsrc st = (if truthy (jget v ''tarball'') then ''tarball'' else ''git'')" "sf_git st = text_or v ''git''"
    "sf_tag st = text_or v ''tag''" "sf_tarball st = text_or v ''tarball''" "sf_tsha st = text_or v ''sha256''"
  shows "\<exists>v'. source_json st = Some v' \<and> canon v' = canon v"
proof -
  obtain kvs where v: "v = JObj kvs" using assms(1) by (cases v) (auto simp: source_ok_def)
  consider (git) g where "keys_in [''git'', ''tag''] kvs" "map_of kvs ''git'' = Some (JStr g)" "g \<noteq> []" "js_trim g = g" "opt_ok tidy kvs ''tag''"
    | (tar) t h where "keys_in [''tarball'', ''sha256''] kvs" "map_of kvs ''tarball'' = Some (JStr t)" "t \<noteq> []" "js_trim t = t"
      "map_of kvs ''sha256'' = Some (JStr h)" "h \<noteq> []" "js_trim h = h"
    using assms(1) v by (auto simp: source_ok_def has_def split: option.splits dest!: tidyE)
  then show ?thesis
  proof cases
    case git
    have src: "sf_bsrc st = ''git''" using assms(2) v keys_in_None [OF git(1), of "''tarball''"] by simp
    show ?thesis
    proof (cases "map_of kvs ''tag''")
      case None
      have "map_of [(''git'', JStr g)] k = map_of kvs k" for k using git(2) None keys_in_None [OF git(1), of k] by (cases "k = ''tag''") auto
      then have "canon (JObj [(''git'', JStr g)]) = canon v" unfolding v using git(1) by (intro canon_obj_same) (simp_all add: keys_in_distinct)
      then show ?thesis using src assms(3,4) v git None by (simp add: source_json_def text_or_def jor_def js_trim_def)
    next
      case (Some w)
      then obtain t where t: "w = JStr t" "t \<noteq> []" "js_trim t = t" using git(5) by (auto simp: opt_ok_def dest!: tidyE)
      have "map_of [(''git'', JStr g), (''tag'', JStr t)] k = map_of kvs k" for k using git(2) Some t(1) keys_in_None [OF git(1), of k] by auto
      then have "canon (JObj [(''git'', JStr g), (''tag'', JStr t)]) = canon v"
        unfolding v using git(1) by (intro canon_obj_same) (simp_all add: keys_in_distinct)
      then show ?thesis using src assms(3,4) v git Some t by (simp add: source_json_def text_or_def jor_def)
    qed
  next
    case tar
    have "map_of [(''tarball'', JStr t), (''sha256'', JStr h)] k = map_of kvs k" for k using tar(2,5) keys_in_None [OF tar(1), of k] by auto
    then have "canon (JObj [(''tarball'', JStr t), (''sha256'', JStr h)]) = canon v"
      unfolding v using tar(1) by (intro canon_obj_same) (simp_all add: keys_in_distinct)
    then show ?thesis using assms(2,5,6) v tar by (simp add: source_json_def text_or_def jor_def)
  qed
qed

lemma build_fields:
  assumes "build_ok kvs" "opened kvs st" "source_json st = Some v'"
  shows "\<exists>obj. build_json st = Some obj \<and> distinct (map fst obj) \<and> (\<forall>k. map_of obj k =
    (if k = ''source'' then Some v' else if k \<in> {''system'', ''configure_args'', ''prefix'', ''build'', ''install''} then map_of kvs k else None))"
proof -
  have ok: "has truthy kvs ''system''" "opt_ok tidy_lines kvs ''configure_args''" "opt_ok tidy kvs ''prefix''"
    using assms(1) by (simp_all add: build_ok_def)
  have f: "sf_prefix st = text_or (JObj kvs) ''prefix''" "sf_build st = text_or (JObj kvs) ''build''" "sf_install st = text_or (JObj kvs) ''install''"
    "map_of kvs ''system'' = Some (sf_system st)" "join_v [CHR 10] (jor (jget (JObj kvs) ''configure_args'') (JArr [])) = Some (sf_configure st)"
    using assms(2) ok(1) by (auto simp: opened_def has_def jor_def split: option.splits)
  have c: "map_of (lines_field ''configure_args'' (sf_configure st) obj) k =
      (if k = ''configure_args'' \<and> map_of kvs ''configure_args'' \<noteq> None then map_of kvs ''configure_args'' else map_of obj k)" for obj k
    using field_lines [OF ok(2)] f(5) by auto
  have opt: "opt_ok tidy kvs ''build''" "opt_ok tidy kvs ''install''" "sf_system st \<noteq> JStr ''custom'' \<Longrightarrow> map_of kvs ''build'' = None \<and> map_of kvs ''install'' = None"
    using assms(1) f(4) by (auto simp: build_ok_def opt_ok_def split: if_splits)
  let ?obj = "put_nn ''prefix'' (sf_prefix st) (lines_field ''configure_args'' (sf_configure st) [(''source'', v'), (''system'', sf_system st)])"
  let ?full = "if sf_system st = JStr ''custom'' then put_nn ''install'' (sf_install st) (put_nn ''build'' (sf_build st) ?obj) else ?obj"
  have m: "map_of ?obj k = (if k = ''source'' then Some v' else if k \<in> {''system'', ''configure_args'', ''prefix''} then map_of kvs k else None)" for k
    unfolding f(1) field_text [OF ok(3)] c using f(4) by auto
  have "map_of ?full k = (if k = ''source'' then Some v' else if k \<in> {''system'', ''configure_args'', ''prefix'', ''build'', ''install''} then map_of kvs k else None)" for k
  proof (cases "sf_system st = JStr ''custom''")
    case True
    have "map_of ?full k = map_of (put_nn ''install'' (text_or (JObj kvs) ''install'') (put_nn ''build'' (text_or (JObj kvs) ''build'') ?obj)) k"
      by (simp only: True f(2,3) if_True refl)
    then show ?thesis unfolding field_text [OF opt(2)] field_text [OF opt(1)] m by auto
  next
    case False
    then have "map_of ?full k = map_of ?obj k" by (simp only: if_False)
    then show ?thesis unfolding m using opt(3) [OF False] by auto
  qed
  moreover have "distinct (map fst ?full)" by (simp add: form_distinct)
  moreover have "build_json st = Some ?full" using assms(3) by (simp add: build_json_def Let_def)
  ultimately show ?thesis by blast
qed

lemma build_trip:
  assumes "build_ok kvs"
  shows "\<exists>st spec. specState (JObj kvs) = Some st \<and> specJson ''build'' st = Some spec \<and> canon spec = canon (JObj kvs)"
proof -
  let ?ks = "[''source'', ''system'', ''configure_args'', ''prefix'', ''build'', ''install'', ''env'', ''creates'', ''check'', ''version_check'']"
  have ok: "keys_in ?ks kvs" "has source_ok kvs ''source''" "has truthy kvs ''system''" "guard_ok kvs" "opt_ok tidy_lines kvs ''check''"
    "opt_ok tidy_lines kvs ''configure_args''" "opt_ok tidy kvs ''prefix''"
    using assms by (simp_all add: build_ok_def guard_ok_def)
  note none = keys_in_None [OF ok(1)]
  obtain st where st: "specState (JObj kvs) = Some st" "opened kvs st"
    using specState_opened [OF no_repos ok(5,6)] none by (auto simp: FAMS_def)
  obtain v where v: "map_of kvs ''source'' = Some v" "source_ok v" using ok(2) by (auto simp: has_def split: option.splits)
  then have "jor (jget (JObj kvs) ''source'') (JObj []) = v" by (cases v) (simp_all add: jor_def source_ok_def)
  then obtain v' where v': "source_json st = Some v'" "canon v' = canon v"
    using st(2) source_trip [OF v(2), of st] by (auto simp: opened_def Let_def simp del: jget.simps)
  obtain obj where obj: "build_json st = Some obj" "distinct (map fst obj)"
    "\<And>k. map_of obj k = (if k = ''source'' then Some v' else if k \<in> {''system'', ''configure_args'', ''prefix'', ''build'', ''install''} then map_of kvs k else None)"
    using build_fields [OF assms st(2) v'(1)] by blast
  have "map_option canon (map_of (spec_guard st obj) k) = map_option canon (map_of kvs k)" for k
    using none [of k] v v'(2) unfolding guard_fields [OF ok(4) st(2)] obj(3)
    by (cases "map_of kvs k"; cases "k \<in> {''env'', ''creates'', ''check'', ''version_check''}"; cases "k = ''source''") auto
  then have "canon (JObj (spec_guard st obj)) = canon (JObj kvs)"
    using ok(1) obj(2) by (intro canon_obj_cong) (simp_all add: form_distinct keys_in_distinct)
  then show ?thesis using st(1) obj(1) by (simp add: specJson_def)
qed

lemma block_trip:
  assumes "block_ok v"
  shows "\<exists>r b. repoState v = Some r \<and> rf_on r \<and> repo_json f r = Some b \<and> canon b = canon v"
proof -
  let ?ks = "[''url'', ''key_url'', ''fingerprint'', ''suite'', ''components'']"
  obtain kvs where v: "v = JObj kvs" "keys_in ?ks kvs" and ok: "opt_ok tidy kvs ''url''" "opt_ok tidy kvs ''key_url''" "opt_ok tidy kvs ''fingerprint''"
    "opt_ok tidy kvs ''suite''" "opt_ok tidy_words kvs ''components''"
    using assms by (cases v) (auto simp: block_ok_def)
  obtain c where c: "join_v '' '' (jor (jget (JObj kvs) ''components'') (JArr [])) = Some c"
    "\<And>obj k'. map_of (if words_of c = [] then obj else put ''components'' (JArr (map JStr (words_of c))) obj) k' =
      (if k' = ''components'' \<and> map_of kvs ''components'' \<noteq> None then map_of kvs ''components'' else map_of obj k')"
    using field_words [OF ok(5)] by blast
  let ?t = "text_or (JObj kvs)"
  let ?r = "\<lparr>rf_on = True, rf_url = ?t ''url'', rf_key_url = ?t ''key_url'', rf_fingerprint = ?t ''fingerprint'', rf_suite = ?t ''suite'', rf_components = c\<rparr>"
  let ?x = "put_nn ''fingerprint'' (?t ''fingerprint'') (put_nn ''key_url'' (?t ''key_url'') (put_nn ''url'' (?t ''url'') []))"
  let ?fin = "\<lambda>x. if words_of c = [] then x else put ''components'' (JArr (map JStr (words_of c))) x"
  have x: "map_of ?x k = (if k \<in> {''url'', ''key_url'', ''fingerprint''} then map_of kvs k else None)" for k
    unfolding field_text [OF ok(3)] field_text [OF ok(2)] field_text [OF ok(1)] by auto
  have full: "map_of (?fin (put_nn ''suite'' (?t ''suite'') ?x)) k = map_of kvs k" for k
    using keys_in_None [OF v(2), of k] unfolding c(2) field_text [OF ok(4)] x
    by (cases "k = ''suite''"; cases "k = ''components''") auto
  have "canon (JObj (?fin (put_nn ''suite'' (?t ''suite'') ?x))) = canon v"
    unfolding v(1) using v(2) full by (intro canon_obj_same) (simp_all add: form_distinct keys_in_distinct)
  moreover have "repo_json f ?r = Some (JObj (?fin (put_nn ''suite'' (?t ''suite'') ?x)))"
  proof (cases "map_of kvs ''suite''")
    case None
    then show ?thesis by (simp add: repo_json_def Let_def text_or_def jor_def js_trim_def put_nn_def)
  next
    case (Some w)
    then obtain t where "w = JStr t" "t \<noteq> []" "js_trim t = t" using ok(4) by (auto simp: opt_ok_def dest!: tidyE)
    then show ?thesis using Some by (simp add: repo_json_def Let_def text_or_def jor_def)
  qed
  moreover have "repoState v = Some ?r" using c(1) v(1) by (simp add: repoState_def)
  ultimately show ?thesis by (intro exI [of _ ?r] exI) auto
qed

lemma repos_trip:
  assumes "distinct fs" "\<forall>f\<in>set fs. (case map_of kvs f of None \<Rightarrow> \<not> rf_on (sf_repo st f)
      | Some v \<Rightarrow> rf_on (sf_repo st f) \<and> (\<exists>b. repo_json f (sf_repo st f) = Some b \<and> canon b = canon v))"
  shows "\<exists>out. repos_json fs st = Some out \<and> distinct (map fst out) \<and>
    (\<forall>k. map_option canon (map_of out k) = (if k \<in> set fs then map_option canon (map_of kvs k) else None))"
  using assms
proof (induction fs)
  case (Cons f fs)
  then obtain out where out: "repos_json fs st = Some out" "distinct (map fst out)"
    "\<And>k. map_option canon (map_of out k) = (if k \<in> set fs then map_option canon (map_of kvs k) else None)" by auto
  show ?case
  proof (cases "map_of kvs f")
    case None
    then show ?thesis using out Cons.prems by auto
  next
    case (Some v)
    then obtain b where b: "rf_on (sf_repo st f)" "repo_json f (sf_repo st f) = Some b" "canon b = canon v" using Cons.prems(2) by auto
    have "map_of out f = None" using out(3) [of f] Cons.prems(1) by simp
    then have "f \<notin> fst ` set out" by (simp add: map_of_eq_None_iff)
    then show ?thesis using b out Some by (intro exI [of _ "(f, b) # out"]) auto
  qed
qed simp

lemma repo_trip:
  assumes "repo_ok kvs"
  shows "\<exists>st spec. specState (JObj kvs) = Some st \<and> specJson ''repo'' st = Some spec \<and> canon spec = canon (JObj kvs)"
proof -
  have ok: "keys_in FAMS kvs" "\<And>f v. map_of kvs f = Some v \<Longrightarrow> block_ok v"
    using assms by (auto simp: repo_ok_def list_all_iff dest!: map_of_SomeD)
  note none = keys_in_None [OF ok(1)]
  have "\<forall>f\<in>set FAMS. repoState (jget (JObj kvs) f) \<noteq> None"
  proof
    fix f
    show "repoState (jget (JObj kvs) f) \<noteq> None"
    proof (cases "map_of kvs f")
      case (Some v)
      then show ?thesis using block_trip [OF ok(2) [OF Some], of f] by auto
    qed (simp add: repoState_def)
  qed
  then have "\<exists>st. specState (JObj kvs) = Some st \<and> opened kvs st"
    by (rule specState_opened) (simp_all add: opt_ok_None none FAMS_def)
  then obtain st where st: "specState (JObj kvs) = Some st" "opened kvs st" by blast
  have "case map_of kvs f of None \<Rightarrow> \<not> rf_on (sf_repo st f)
      | Some v \<Rightarrow> rf_on (sf_repo st f) \<and> (\<exists>b. repo_json f (sf_repo st f) = Some b \<and> canon b = canon v)" if "f \<in> set FAMS" for f
  proof (cases "map_of kvs f")
    case None
    have "repoState (jget (JObj kvs) f) = Some (sf_repo st f)" using st(2) that unfolding opened_def by blast
    then have "sf_repo st f = emptyRepo" using None by (simp add: repoState_def)
    then show ?thesis using None by (simp add: emptyRepo_def)
  next
    case (Some v)
    have "repoState (jget (JObj kvs) f) = Some (sf_repo st f)" using st(2) that unfolding opened_def by blast
    then have "repoState v = Some (sf_repo st f)" using Some by simp
    then show ?thesis using Some block_trip [OF ok(2) [OF Some], of f] by auto
  qed
  then obtain out where out: "repos_json FAMS st = Some out" "distinct (map fst out)"
    "\<And>k. map_option canon (map_of out k) = (if k \<in> set FAMS then map_option canon (map_of kvs k) else None)"
    using repos_trip [where fs = FAMS and kvs = kvs and st = st] by (auto simp: FAMS_def)
  have "canon (JObj out) = canon (JObj kvs)" using out ok(1) none by (intro canon_obj_cong) (auto simp: keys_in_distinct)
  then show ?thesis using st(1) out(1) by (simp add: specJson_def)
qed

lemma spec_trip:
  assumes "spec_ok type spec"
  shows "\<exists>st spec'. specState spec = Some st \<and> specJson type st = Some spec' \<and> canon spec' = canon spec"
proof (cases "type = ''pkg'' \<or> type = ''role''")
  case True
  then have "spec = JNull" using assms by (simp add: spec_ok_def)
  moreover have "specState JNull = specState (JObj [])" by (simp add: specState_def jor_def)
  moreover obtain st where "specState (JObj []) = Some st" using specState_opened [of "[]"] by (auto simp: repoState_def opt_ok_def)
  ultimately show ?thesis using True by (simp add: specJson_def)
next
  case False
  then obtain kvs where "spec = JObj kvs" using assms by (cases spec) (auto simp: spec_ok_def)
  then show ?thesis using assms False artifact_trip [of kvs] script_trip [of kvs] build_trip [of kvs] repo_trip [of kvs]
    by (auto simp: spec_ok_def split: if_splits)
qed

subsection \<open>Opening an entry changes nothing\<close>

definition ITEM_TYPES :: "string list" where
  "ITEM_TYPES = [''pkg'', ''repo'', ''artifact'', ''script'', ''build'', ''role'']"

definition text_field :: "jval \<Rightarrow> string \<Rightarrow> bool" where
  "text_field row k \<longleftrightarrow> nullish (jget row k) \<or> tidy (jget row k)"

definition row_ok :: "string \<Rightarrow> jval \<Rightarrow> bool" where
  "row_ok type row \<longleftrightarrow> type \<in> set ITEM_TYPES \<and> truthy row \<and> jget row ''item_type'' = JStr type \<and> tidy (jget row ''logical_name'') \<and>
     list_all (\<lambda>f. if type = ''pkg'' then text_field row (''name_'' @ f)
        else nullish (jget row (''name_'' @ f)) \<or> jget row (''name_'' @ f) = JStr ''='') FAMS \<and>
     list_all (\<lambda>k. nullish (jget row k) \<or> truthy (jget row k)) [''applies_families'', ''applies_arches''] \<and>
     (if type = ''role'' then text_field row ''ansible_role'' else nullish (jget row ''ansible_role'')) \<and>
     list_all (text_field row) [''source_url'', ''version_pin'', ''notes''] \<and> spec_ok type (jget row ''spec'')"

lemma nn_text: "text_field row k \<Longrightarrow> nn (text_or row k) = jnn (jget row k) JNull"
  by (auto simp: text_field_def text_or_def jor_def jnn_def nullish_not_truthy js_trim_def dest!: tidyE)

lemma jor_jnn: "nullish v \<or> truthy v \<Longrightarrow> jor v JNull = jnn v JNull"
  by (auto simp: jor_def jnn_def nullish_not_truthy dest: nullish_not_truthy)

lemma spec_nullish: "spec_ok type spec \<Longrightarrow> jnn spec JNull = spec"
  by (cases spec) (auto simp: spec_ok_def jnn_def split: if_splits)

lemma form_reads:
  assumes "row_ok type row"
  shows "jor row (JObj []) = row" "jget row ''item_type'' = JStr type" "wf_type (swForm row) = JStr type"
    "wf_names (swForm row) f = (if type = ''pkg'' then text_or row (''name_'' @ f) else JStr [])"
    "wf_support (swForm row) f \<longleftrightarrow> \<not> nullish (jget row (''name_'' @ f))"
proof -
  show r: "jor row (JObj []) = row" "jget row ''item_type'' = JStr type" using assms by (auto simp: row_ok_def jor_def)
  have "type \<noteq> []" using assms by (auto simp: row_ok_def ITEM_TYPES_def)
  then show "wf_type (swForm row) = JStr type" "wf_names (swForm row) f = (if type = ''pkg'' then text_or row (''name_'' @ f) else JStr [])"
    "wf_support (swForm row) f \<longleftrightarrow> \<not> nullish (jget row (''name_'' @ f))"
    using r assms by (simp_all add: row_ok_def swForm_def Let_def jor_def text_or_def)
qed

lemma family_name_trip:
  assumes "row_ok type row" "f \<in> set FAMS"
  shows "canon (if wf_type (swForm row) = JStr ''pkg'' then nn (wf_names (swForm row) f)
    else if wf_support (swForm row) f then JStr ''='' else JNull) = canon (jnn (jget row (''name_'' @ f)) JNull)"
proof (cases "type = ''pkg''")
  case True
  then have "text_field row (''name_'' @ f)" using assms by (simp add: row_ok_def list_all_iff)
  then show ?thesis unfolding form_reads [OF assms(1)] using True by (simp add: nn_text)
next
  case False
  then have "nullish (jget row (''name_'' @ f)) \<or> jget row (''name_'' @ f) = JStr ''=''" using assms by (simp add: row_ok_def list_all_iff)
  then show ?thesis unfolding form_reads [OF assms(1)] using False by (auto simp: jnn_def)
qed

lemma canon_body:
  assumes "row_ok type row" "canon spec = canon (jget row ''spec'')"
  shows "\<exists>body. swBody (swForm row) spec = Some body \<and> diffOf body row = []"
proof -
  note ok = assms(1) [unfolded row_ok_def] and r = form_reads [OF assms(1)]
  obtain n where n: "jget row ''logical_name'' = JStr n" "n \<noteq> []" "js_trim n = n" using ok tidyE by blast
  have wf: "wf_logical (swForm row) = JStr n" using r(1) n(1,2) by (simp add: swForm_def Let_def jor_def text_or_def)
  note wf = r(3) wf
  have "wf_role (swForm row) = text_or row ''ansible_role''" using r(1) by (simp add: swForm_def Let_def)
  then have role: "(if wf_type (swForm row) = JStr ''role'' then nn (wf_role (swForm row)) else JNull) = jnn (jget row ''ansible_role'') JNull"
    using ok nn_text [of row "''ansible_role''"] unfolding wf by (cases "type = ''role''") (simp_all add: jnn_def)
  have rest: "wf_families (swForm row) = jnn (jget row ''applies_families'') JNull" "wf_arches (swForm row) = jnn (jget row ''applies_arches'') JNull"
    "nn (wf_source (swForm row)) = jnn (jget row ''source_url'') JNull" "nn (wf_pin (swForm row)) = jnn (jget row ''version_pin'') JNull"
    "nn (wf_notes (swForm row)) = jnn (jget row ''notes'') JNull"
    using ok r(1,2) by (simp_all add: swForm_def Let_def jor_jnn nn_text)
  have sp: "canon spec = canon (jnn (jget row ''spec'') JNull)" using assms(2) spec_nullish ok by metis
  let ?nm = "\<lambda>f. if wf_type (swForm row) = JStr ''pkg'' then nn (wf_names (swForm row) f) else if wf_support (swForm row) f then JStr ''='' else JNull"
  let ?hd = "[(''logical_name'', JStr n), (''item_type'', JStr type)]"
  let ?tl = "[(''applies_families'', wf_families (swForm row)), (''applies_arches'', wf_arches (swForm row)),
      (''ansible_role'', if wf_type (swForm row) = JStr ''role'' then nn (wf_role (swForm row)) else JNull),
      (''source_url'', nn (wf_source (swForm row))), (''version_pin'', nn (wf_pin (swForm row))), (''spec'', spec), (''notes'', nn (wf_notes (swForm row)))]"
  have body: "swBody (swForm row) spec = Some (?hd @ map (\<lambda>x. (''name_'' @ x, ?nm x)) FAMS @ ?tl)"
    unfolding swBody_def by (simp add: wf n(3))
  have "diffOf ?hd row = []" using r(2) n(1) by (simp add: diffOf_def jnn_def)
  moreover have "diffOf (map (\<lambda>x. (''name_'' @ x, ?nm x)) FAMS) row = []"
    unfolding diffOf_def filter_empty_conv using family_name_trip [OF assms(1)] by auto
  moreover have "diffOf ?tl row = []" unfolding diffOf_def role rest using sp by simp
  ultimately have "diffOf (?hd @ map (\<lambda>x. (''name_'' @ x, ?nm x)) FAMS @ ?tl) row = []"
    unfolding diffOf_def filter_append by simp
  then show ?thesis using body by blast
qed

text \<open>A row of any of the six item types whose texts are trimmed and whose spec has the shape the editor writes is read
  into the form and back into a request body without an exception, and no field differs from the row, whatever the order
  of its keys.\<close>

lemma untouched_entry_saves_nothing:
  "row_ok type row \<Longrightarrow> saveDiff row = Some []"
proof -
  assume ok: "row_ok type row"
  then have spec: "spec_ok type (jget row ''spec'')" by (simp add: row_ok_def)
  obtain st spec where s: "specState (jget row ''spec'') = Some st" "specJson type st = Some spec" "canon spec = canon (jget row ''spec'')"
    using spec_trip [OF spec] by blast
  obtain body where b: "swBody (swForm row) spec = Some body" "diffOf body row = []" using canon_body [OF ok s(3)] by blast
  show "saveDiff row = Some []" using s(1,2) b form_reads(3) [OF ok] by (simp add: saveDiff_def)
qed

text \<open>The shape matters: an argument of the check command with a line break is a legal list of strings, but the form splits it.\<close>

lemma multi_line_argument_split:
  "saveDiff (JObj [(''item_type'', JStr ''script''), (''logical_name'', JStr ''x''),
     (''spec'', JObj [(''run_as'', JStr ''root''), (''check'', JArr [JStr ''sh'', JStr (''a'' @ [CHR 10] @ ''b'')])])]) =
   Some [(''spec'', JObj [(''run_as'', JStr ''root''), (''check'', JArr [JStr ''sh'', JStr ''a'', JStr ''b''])])]"
  by code_simp

end
