(* ===== verification/ProvPlan.thy ===== *)
theory ProvPlan
  imports ProvOrder
begin

section \<open>Provisioning: the deployment an operator confirms\<close>

text \<open>
  \<open>screens-prov.jsx\<close>, the deploy view: which images can be picked for a target (\<open>offReason\<close>,
  \<open>pickReason\<close>), how far a stack is mapped on each distribution family (\<open>stackCompat\<close>,
  \<open>famBlockers\<close>), which selected pool entries conflict (\<open>conflicts\<close>), what blocks the Deploy button
  (\<open>blocked\<close>), the operator's selections, and the request that \<open>submitDeploy\<close> sends.  The reasons the
  screen words as sentences are values of a datatype.  A string that may be null or empty is an option.
  Lemmas: what an unblocked deployment guarantees of its request, and that the selections an operator
  can reach only ever send such requests.
\<close>

subsection \<open>Rows\<close>

record pstack = stack +
  ps_name :: string
  ps_members :: "nat list option"
  ps_count :: nat

record software =
  sw_id :: nat
  sw_name :: string
  sw_families :: "string list option"
  sw_arches :: "string list option"
  sw_mapped :: "(string \<times> string) list"
  sw_conflicts :: "nat list"

record image =
  im_id :: nat
  im_arch :: string
  im_family :: string
  im_fetched :: bool
  im_boot :: string

record iface =
  if_name :: string
  if_mac :: string
  if_mgmt :: bool

record target =
  tg_id :: nat
  tg_name :: string
  tg_arch :: "string option"
  tg_ifaces :: "iface list"
  tg_model :: "nat option"

text \<open>\<open>swById[id]\<close>: the last row with that id.\<close>

definition swById :: "software list \<Rightarrow> nat \<Rightarrow> software option" where
  "swById software i = map_of (rev (map (\<lambda>s. (sw_id s, s)) software)) i"

definition pstack_of :: "pstack list \<Rightarrow> string \<Rightarrow> pstack option" where
  "pstack_of stacks slug = map_of (rev (map (\<lambda>s. (pk_slug s, s)) stacks)) slug"

subsection \<open>Readiness of a stack\<close>

definition excludes :: "string list option \<Rightarrow> string \<Rightarrow> bool" where
  "excludes only x \<longleftrightarrow> (case only of Some l \<Rightarrow> x \<notin> set l | None \<Rightarrow> False)"

definition arch_excluded :: "string option \<Rightarrow> software \<Rightarrow> bool" where
  "arch_excluded arch sw \<longleftrightarrow> (case arch of Some a \<Rightarrow> excludes (sw_arches sw) a | None \<Rightarrow> False)"

definition applicable :: "(nat \<Rightarrow> software option) \<Rightarrow> string option \<Rightarrow> string \<Rightarrow> nat list \<Rightarrow> software list" where
  "applicable sws arch fam members =
     filter (\<lambda>sw. \<not> excludes (sw_families sw) fam \<and> \<not> arch_excluded arch sw) (List.map_filter sws members)"

definition unmapped :: "string \<Rightarrow> software list \<Rightarrow> string list" where
  "unmapped fam sws = map sw_name (filter (\<lambda>sw. map_of (sw_mapped sw) fam = None) sws)"

definition stackCompat :: "(nat \<Rightarrow> software option) \<Rightarrow> string option \<Rightarrow> nat list \<Rightarrow> (string \<times> nat \<times> string list) list \<times> string list" where
  "stackCompat sws arch members =
     (map (\<lambda>fam. let app = applicable sws arch fam members in (fam, length app, unmapped fam app)) FAMS,
      map sw_name (filter (arch_excluded arch) (List.map_filter sws members)))"

subsection \<open>The view\<close>

datatype deploy_mode = Reimage | Apply

record prov_state =
  pv_live :: bool
  pv_op :: bool
  pv_images :: "image list"
  pv_stacks :: "pstack list"
  pv_software :: "software list"
  pv_targets :: "target list"
  pv_target :: "nat option"
  pv_mode :: deploy_mode
  pv_image :: "nat option"
  pv_mac :: string
  pv_picked :: "string list"
  pv_dialog :: "bool option"

definition the_target :: "prov_state \<Rightarrow> target option" where
  "the_target s = (case pv_target s of Some i \<Rightarrow> find (\<lambda>t. tg_id t = i) (pv_targets s) | None \<Rightarrow> None)"

definition tArch :: "prov_state \<Rightarrow> string option" where
  "tArch s = Option.bind (the_target s) tg_arch"

definition primaryIface :: "target \<Rightarrow> iface option" where
  "primaryIface t = (case find if_mgmt (tg_ifaces t) of Some i \<Rightarrow> Some i
     | None \<Rightarrow> (case tg_ifaces t of i # _ \<Rightarrow> Some i | [] \<Rightarrow> None))"

definition the_iface :: "prov_state \<Rightarrow> iface option" where
  "the_iface s = (case the_target s of
       None \<Rightarrow> None
     | Some t \<Rightarrow> (case find (\<lambda>i. if_mac i = pv_mac s) (tg_ifaces t) of Some i \<Rightarrow> Some i | None \<Rightarrow> primaryIface t))"

definition pickedLive :: "prov_state \<Rightarrow> string list" where
  "pickedLive s = filter (\<lambda>x. x \<in> pk_slug ` set (pv_stacks s)) (pv_picked s)"

definition plan :: "prov_state \<Rightarrow> string list \<times> string list option" where
  "plan s = resolveOrder (map stack.truncate (pv_stacks s)) (pickedLive s)"

definition itemCount :: "prov_state \<Rightarrow> nat" where
  "itemCount s = sum_list (map (\<lambda>slug. case pstack_of (pv_stacks s) slug of Some r \<Rightarrow> ps_count r | None \<Rightarrow> 0) (fst (plan s)))"

subsection \<open>Images\<close>

datatype img_reason = Wrong_Arch string string | Not_Used | Not_Fetched | Not_Ipxe string

definition offReason :: "prov_state \<Rightarrow> image \<Rightarrow> img_reason option" where
  "offReason s img = (case tArch s of
       Some a \<Rightarrow> if im_arch img \<noteq> a then Some (Wrong_Arch (im_arch img) a) else if pv_mode s = Apply then Some Not_Used else None
     | None \<Rightarrow> if pv_mode s = Apply then Some Not_Used else None)"

definition pickReason :: "prov_state \<Rightarrow> image \<Rightarrow> img_reason option" where
  "pickReason s img = (case offReason s img of Some r \<Rightarrow> Some r
     | None \<Rightarrow> if \<not> im_fetched img then Some Not_Fetched
       else if im_boot img \<noteq> ''ipxe'' then Some (Not_Ipxe (im_boot img)) else None)"

definition selImage :: "prov_state \<Rightarrow> image option" where
  "selImage s = (case pv_image s of Some i \<Rightarrow> find (\<lambda>im. im_id im = i) (pv_images s) | None \<Rightarrow> None)"

definition selOk :: "prov_state \<Rightarrow> bool" where
  "selOk s = (case selImage s of Some im \<Rightarrow> pickReason s im = None | None \<Rightarrow> False)"

subsection \<open>Readiness and conflicts of the run\<close>

definition famBlockers :: "prov_state \<Rightarrow> (string \<times> string list) list" where
  "famBlockers s = (case (pv_mode s, selImage s) of
       (Reimage, Some im) \<Rightarrow> List.map_filter (\<lambda>slug. case pstack_of (pv_stacks s) slug of
           None \<Rightarrow> None
         | Some r \<Rightarrow> (case ps_members r of None \<Rightarrow> None
             | Some ms \<Rightarrow> (case map_of (fst (stackCompat (swById (pv_software s)) (tArch s) ms)) (im_family im) of
                 None \<Rightarrow> None
               | Some (n, un) \<Rightarrow> if un \<noteq> [] then Some (ps_name r, un) else None))) (fst (plan s))
     | _ \<Rightarrow> [])"

text \<open>\<open>from\<close>: the entries the run installs, each with the stacks that pull it in; the keys of the object
  are array indices, so they are visited in ascending order.\<close>

definition pulls :: "prov_state \<Rightarrow> (nat \<times> string) list" where
  "pulls s = concat (map (\<lambda>slug. case pstack_of (pv_stacks s) slug of
       None \<Rightarrow> []
     | Some r \<Rightarrow> (case ps_members r of None \<Rightarrow> [] | Some ms \<Rightarrow> map (\<lambda>m. (m, ps_name r)) ms)) (fst (plan s)))"

definition pulled_by :: "prov_state \<Rightarrow> nat \<Rightarrow> string list" where
  "pulled_by s i = map snd (filter (\<lambda>p. fst p = i) (pulls s))"

definition conflicts :: "prov_state \<Rightarrow> ((string \<times> string list) \<times> (string \<times> string list)) list" where
  "conflicts s = concat (map (\<lambda>i. case swById (pv_software s) i of
       None \<Rightarrow> []
     | Some sw \<Rightarrow> List.map_filter (\<lambda>other. case swById (pv_software s) other of
           None \<Rightarrow> None
         | Some sw' \<Rightarrow> if sw_id sw < other \<and> pulled_by s other \<noteq> []
             then Some ((sw_name sw, pulled_by s i), (sw_name sw', pulled_by s other)) else None) (sw_conflicts sw))
     (sort (remdups (map fst (pulls s)))))"

datatype blocked_reason =
    Not_Live | Not_Operator | No_Target | Stack_Cycle "string list" | No_Stacks
  | Conflicting "((string \<times> string list) \<times> (string \<times> string list)) list"
  | Arch_Unknown "nat option" | No_Interface | Image_Refused img_reason | No_Image

definition blocked :: "prov_state \<Rightarrow> blocked_reason option" where
  "blocked s =
     (if \<not> pv_live s then Some Not_Live
      else if \<not> pv_op s then Some Not_Operator
      else case the_target s of None \<Rightarrow> Some No_Target | Some t \<Rightarrow>
        (case snd (plan s) of Some c \<Rightarrow> Some (Stack_Cycle c) | None \<Rightarrow>
          if fst (plan s) = [] then Some No_Stacks
          else if conflicts s \<noteq> [] then Some (Conflicting (conflicts s))
          else if pv_mode s = Reimage \<and> tArch s = None then Some (Arch_Unknown (tg_model t))
          else if pv_mode s = Reimage \<and> the_iface s = None then Some No_Interface
          else if pv_mode s = Reimage \<and> \<not> selOk s
            then (case selImage s of Some im \<Rightarrow> map_option Image_Refused (pickReason s im) | None \<Rightarrow> Some No_Image)
          else None))"

subsection \<open>The request\<close>

datatype deploy_request =
    Stage_Request nat nat "string list" string
  | Apply_Request nat "string list" bool

text \<open>\<open>submitDeploy\<close>: \<open>None\<close> stands for the exception of a missing target, image or interface.\<close>

definition submitDeploy :: "prov_state \<Rightarrow> bool \<Rightarrow> deploy_request option" where
  "submitDeploy s dry = (case pv_mode s of
       Reimage \<Rightarrow> (case (the_target s, selImage s, the_iface s) of
           (Some t, Some im, Some i) \<Rightarrow> Some (Stage_Request (tg_id t) (im_id im) (fst (plan s)) (if_mac i))
         | _ \<Rightarrow> None)
     | Apply \<Rightarrow> map_option (\<lambda>t. Apply_Request (tg_id t) (fst (plan s)) dry) (the_target s))"

subsection \<open>The operator's actions\<close>

text \<open>A different machine drops the picked image and interface (the effect on \<open>targetId\<close>).\<close>

definition setTargetId :: "nat option \<Rightarrow> prov_state \<Rightarrow> prov_state" where
  "setTargetId i s = (if i = pv_target s then s else s\<lparr>pv_target := i, pv_image := None, pv_mac := []\<rparr>)"

definition pickImage :: "image \<Rightarrow> prov_state \<Rightarrow> prov_state" where
  "pickImage img s = (if pickReason s img = None then s\<lparr>pv_image := Some (im_id img)\<rparr> else s)"

definition toggleStack :: "string \<Rightarrow> bool \<Rightarrow> prov_state \<Rightarrow> prov_state" where
  "toggleStack slug on s = s\<lparr>pv_picked := (if on then if slug \<in> set (pv_picked s) then pv_picked s else pv_picked s @ [slug]
     else filter (\<lambda>x. x \<noteq> slug) (pv_picked s))\<rparr>"

text \<open>The check box of a stack row: locked and required stacks are always on and cannot be toggled.\<close>

definition stack_auto :: "prov_state \<Rightarrow> pstack \<Rightarrow> bool" where
  "stack_auto s r \<longleftrightarrow> \<not> pk_locked r \<and> pk_slug r \<notin> set (pv_picked s) \<and> pk_slug r \<in> set (fst (plan s))"

definition stack_on :: "prov_state \<Rightarrow> pstack \<Rightarrow> bool" where
  "stack_on s r \<longleftrightarrow> pk_locked r \<or> stack_auto s r \<or> pk_slug r \<in> set (pv_picked s)"

definition tapStack :: "pstack \<Rightarrow> prov_state \<Rightarrow> prov_state" where
  "tapStack r s = (if pk_locked r \<or> stack_auto s r then s else toggleStack (pk_slug r) (\<not> stack_on s r) s)"

definition selectAll :: "prov_state \<Rightarrow> prov_state" where
  "selectAll s = s\<lparr>pv_picked := remdups (map pk_slug (filter (\<lambda>r. \<not> pk_locked r) (pv_stacks s)))\<rparr>"

definition clearAll :: "prov_state \<Rightarrow> prov_state" where
  "clearAll s = s\<lparr>pv_picked := []\<rparr>"

text \<open>The Deploy button is disabled while anything blocks; the dialog opens on a dry run.\<close>

definition openDeploy :: "prov_state \<Rightarrow> prov_state" where
  "openDeploy s = (if blocked s = None then s\<lparr>pv_dialog := Some True\<rparr> else s)"

definition setDry :: "bool \<Rightarrow> prov_state \<Rightarrow> prov_state" where
  "setDry d s = (case (pv_dialog s, pv_mode s) of (Some _, Apply) \<Rightarrow> s\<lparr>pv_dialog := Some d\<rparr> | _ \<Rightarrow> s)"

text \<open>The word to type, and \<open>go\<close> of the dialog: it submits only when armed.\<close>

definition confirmWord :: "prov_state \<Rightarrow> bool \<Rightarrow> target \<Rightarrow> string option" where
  "confirmWord s dry t = (if pv_mode s = Reimage \<or> \<not> dry then Some (tg_name t) else None)"

definition armed :: "string option \<Rightarrow> bool \<Rightarrow> bool \<Rightarrow> string \<Rightarrow> bool" where
  "armed word disabled busy typed \<longleftrightarrow> \<not> disabled \<and> \<not> busy \<and> (case word of Some w \<Rightarrow> typed = w | None \<Rightarrow> True)"

definition confirmDeploy :: "prov_state \<Rightarrow> bool \<Rightarrow> string \<Rightarrow> deploy_request option" where
  "confirmDeploy s busy typed = (case (pv_dialog s, the_target s) of
       (Some dry, Some t) \<Rightarrow> if armed (confirmWord s dry t) False busy typed
         then submitDeploy s (if pv_mode s = Reimage then False else dry) else None
     | _ \<Rightarrow> None)"

subsection \<open>The contract of a deployment\<close>

definition installs :: "prov_state \<Rightarrow> string list \<Rightarrow> nat \<Rightarrow> bool" where
  "installs s order x \<longleftrightarrow> (\<exists>slug\<in>set order. \<exists>r ms. pstack_of (pv_stacks s) slug = Some r \<and> ps_members r = Some ms \<and> x \<in> set ms)"

definition conflict :: "prov_state \<Rightarrow> nat \<Rightarrow> nat \<Rightarrow> bool" where
  "conflict s x y \<longleftrightarrow> (\<exists>a b. swById (pv_software s) x = Some a \<and> swById (pv_software s) y = Some b \<and> y \<in> set (sw_conflicts a))"

definition conflict_table :: "prov_state \<Rightarrow> bool" where
  "conflict_table s \<longleftrightarrow> (\<forall>x y. conflict s x y \<longrightarrow> conflict s y x \<and> x \<noteq> y)"

definition run_ok :: "prov_state \<Rightarrow> string list \<Rightarrow> bool" where
  "run_ok s order \<longleftrightarrow> order \<noteq> [] \<and> install_order (map stack.truncate (pv_stacks s)) (pickedLive s) order \<and>
     (\<forall>x y. installs s order x \<and> installs s order y \<longrightarrow> \<not> conflict s x y)"

definition request_ok :: "prov_state \<Rightarrow> deploy_request \<Rightarrow> bool" where
  "request_ok s req \<longleftrightarrow> pv_live s \<and> pv_op s \<and> (case req of
       Stage_Request e img order mac \<Rightarrow> run_ok s order \<and>
         (\<exists>t\<in>set (pv_targets s). tg_id t = e \<and> mac \<in> if_mac ` set (tg_ifaces t) \<and>
            (\<exists>im\<in>set (pv_images s). im_id im = img \<and> tg_arch t = Some (im_arch im) \<and> im_fetched im \<and> im_boot im = ''ipxe''))
     | Apply_Request e order dry \<Rightarrow> run_ok s order \<and> (\<exists>t\<in>set (pv_targets s). tg_id t = e))"

lemma swById_id: "swById sws i = Some sw \<Longrightarrow> sw_id sw = i"
  by (auto simp: swById_def dest!: map_of_SomeD)

lemma pulls_iff: "i \<in> fst ` set (pulls s) \<longleftrightarrow> installs s (fst (plan s)) i"
  by (force simp: pulls_def installs_def image_iff split: option.splits)

lemma pulled_by_iff: "pulled_by s i \<noteq> [] \<longleftrightarrow> installs s (fst (plan s)) i"
  unfolding pulls_iff [symmetric] by (force simp: pulled_by_def filter_empty_conv image_iff)

lemma no_conflict_ordered:
  assumes "conflicts s = []" "installs s (fst (plan s)) x" "installs s (fst (plan s)) y" "conflict s x y"
  shows "\<not> x < y"
proof
  assume "x < y"
  obtain a b where ab: "swById (pv_software s) x = Some a" "swById (pv_software s) y = Some b" "y \<in> set (sw_conflicts a)"
    using assms(4) by (auto simp: conflict_def)
  have "x \<in> set (sort (remdups (map fst (pulls s))))" using assms(2) by (simp add: pulls_iff)
  then have "List.map_filter (\<lambda>other. case swById (pv_software s) other of
           None \<Rightarrow> None
         | Some sw' \<Rightarrow> if sw_id a < other \<and> pulled_by s other \<noteq> []
             then Some ((sw_name a, pulled_by s x), (sw_name sw', pulled_by s other)) else None) (sw_conflicts a) = []"
    using assms(1) ab(1) unfolding conflicts_def concat_eq_Nil_conv by force
  then show False using ab \<open>x < y\<close> swById_id [OF ab(1)] assms(3) pulled_by_iff [of s y]
    by (auto simp: map_filter_def filter_empty_conv split: option.splits)
qed

lemma no_conflicts:
  assumes "conflicts s = []" "conflict_table s" "installs s (fst (plan s)) x" "installs s (fst (plan s)) y"
  shows "\<not> conflict s x y"
  using assms no_conflict_ordered [of s x y] no_conflict_ordered [of s y x] unfolding conflict_table_def
  by (metis linorder_neqE_nat)

lemma plan_install_order:
  "snd (plan s) = None \<Longrightarrow> install_order (map stack.truncate (pv_stacks s)) (pickedLive s) (fst (plan s))"
  using resolveOrder_ok [of "map stack.truncate (pv_stacks s)" "pickedLive s" "fst (plan s)" "snd (plan s)"]
  unfolding plan_def by (metis prod.collapse)

lemma unblocked_iff:
  "blocked s = None \<longleftrightarrow> pv_live s \<and> pv_op s \<and> the_target s \<noteq> None \<and> snd (plan s) = None \<and> fst (plan s) \<noteq> [] \<and> conflicts s = [] \<and>
    (pv_mode s = Reimage \<longrightarrow> tArch s \<noteq> None \<and> the_iface s \<noteq> None \<and> selOk s)"
  by (auto simp: blocked_def selOk_def split: option.splits if_splits)

lemma the_target_mem: "the_target s = Some t \<Longrightarrow> t \<in> set (pv_targets s)"
  by (auto simp: the_target_def find_Some_iff split: option.splits)

lemma selImage_mem: "selImage s = Some im \<Longrightarrow> im \<in> set (pv_images s)"
  by (auto simp: selImage_def find_Some_iff split: option.splits)

lemma primaryIface_mem: "primaryIface t = Some i \<Longrightarrow> i \<in> set (tg_ifaces t)"
  by (auto simp: primaryIface_def find_Some_iff split: option.splits list.splits)

lemma the_iface_mem: "the_target s = Some t \<Longrightarrow> the_iface s = Some i \<Longrightarrow> i \<in> set (tg_ifaces t)"
  by (auto simp: the_iface_def find_Some_iff dest: primaryIface_mem split: option.splits)

lemma pickReason_ok:
  "pickReason s im = None \<Longrightarrow> tArch s = Some a \<Longrightarrow> im_arch im = a \<and> im_fetched im \<and> im_boot im = ''ipxe'' \<and> pv_mode s = Reimage"
  by (cases "pv_mode s") (auto simp: pickReason_def offReason_def split: if_splits)

lemma unblocked_run_ok: "blocked s = None \<Longrightarrow> conflict_table s \<Longrightarrow> run_ok s (fst (plan s))"
  by (simp add: unblocked_iff run_ok_def plan_install_order no_conflicts)

lemma submit_ok:
  assumes "blocked s = None" "conflict_table s"
  shows "\<exists>req. submitDeploy s dry = Some req \<and> request_ok s req"
proof -
  note ub = assms(1) [unfolded unblocked_iff]
  note run = unblocked_run_ok [OF assms]
  obtain t where t: "the_target s = Some t" using ub by auto
  show ?thesis
  proof (cases "pv_mode s")
    case Reimage
    obtain i a im where x: "the_iface s = Some i" "tArch s = Some a" "selImage s = Some im" "pickReason s im = None"
      using ub Reimage by (auto simp: selOk_def split: option.splits)
    have "if_mac i \<in> if_mac ` set (tg_ifaces t)" "tg_arch t = Some (im_arch im)"
      using the_iface_mem [OF t x(1)] pickReason_ok [OF x(4,2)] x(2) t by (auto simp: tArch_def)
    then show ?thesis using Reimage t x run ub the_target_mem [OF t] selImage_mem [OF x(3)] pickReason_ok [OF x(4,2)]
      unfolding submitDeploy_def request_ok_def by auto
  next
    case Apply
    then show ?thesis using t run ub the_target_mem [OF t] unfolding submitDeploy_def request_ok_def by auto
  qed
qed

text \<open>Nothing the dialog itself does changes what it submits.\<close>

lemma dialog_same_target: "the_target (s\<lparr>pv_dialog := d\<rparr>) = the_target s"
  by (simp add: the_target_def cong: option.case_cong)

lemma dialog_same_parts:
  "selImage (s\<lparr>pv_dialog := d\<rparr>) = selImage s" "the_iface (s\<lparr>pv_dialog := d\<rparr>) = the_iface s" "plan (s\<lparr>pv_dialog := d\<rparr>) = plan s"
  by (simp_all add: selImage_def the_iface_def dialog_same_target plan_def pickedLive_def cong: option.case_cong)

lemma dialog_same: "submitDeploy (s\<lparr>pv_dialog := d\<rparr>) = submitDeploy s"
  by (rule ext, cases "pv_mode s") (simp_all add: submitDeploy_def dialog_same_target dialog_same_parts split: option.splits)

lemma dialog_open:
  assumes "blocked s = None"
  shows "\<exists>d. fold setDry ds (openDeploy s) = s\<lparr>pv_dialog := Some d\<rparr>"
proof (induction ds rule: rev_induct)
  case Nil
  then show ?case using assms by (auto simp: openDeploy_def)
next
  case (snoc x ds)
  then obtain d where "fold setDry ds (openDeploy s) = s\<lparr>pv_dialog := Some d\<rparr>" by auto
  then have "fold setDry (ds @ [x]) (openDeploy s) = s\<lparr>pv_dialog := Some (if pv_mode s = Apply then x else d)\<rparr>"
    by (cases "pv_mode s") (simp_all add: setDry_def)
  then show ?case by blast
qed

definition destructive :: "deploy_request \<Rightarrow> bool" where
  "destructive req = (case req of Stage_Request _ _ _ _ \<Rightarrow> True | Apply_Request _ _ dry \<Rightarrow> \<not> dry)"

lemma confirm_dialog:
  assumes "the_target s = Some t" "confirmDeploy (s\<lparr>pv_dialog := Some d\<rparr>) busy typed = Some req"
  shows "submitDeploy s (if pv_mode s = Reimage then False else d) = Some req \<and> (destructive req \<longrightarrow> typed = tg_name t)"
  using assms by (cases "pv_mode s")
    (auto simp: confirmDeploy_def dialog_same dialog_same_target confirmWord_def armed_def submitDeploy_def destructive_def split: if_splits option.splits)

text \<open>Property C7. When nothing blocks the Deploy button, and the pool's conflict table is symmetric, whatever the
operator does in the confirmation dialog sends only requests that keep the contract: live data and an operator, a
listed target, a non-empty install order of the picked stacks in which no two entries of the loaded stacks
conflict and, for a reinstall, a fetched iPXE image of the target's own architecture and a MAC of one of its
interfaces; a reinstall or a live apply needs the target's name typed in full, and typing it does send a
request.\<close>

theorem deploy_safe:
  assumes "blocked s = None" "conflict_table s" "the_target s = Some t"
  shows "(\<forall>busy typed req. confirmDeploy (fold setDry ds (openDeploy s)) busy typed = Some req \<longrightarrow>
      request_ok s req \<and> (destructive req \<longrightarrow> typed = tg_name t)) \<and>
    confirmDeploy (fold setDry ds (openDeploy s)) False (tg_name t) \<noteq> None"
proof -
  obtain d where d: "fold setDry ds (openDeploy s) = s\<lparr>pv_dialog := Some d\<rparr>" using dialog_open [OF assms(1)] by blast
  have "confirmDeploy (s\<lparr>pv_dialog := Some d\<rparr>) False (tg_name t) \<noteq> None"
    using submit_ok [OF assms(1,2), of "if pv_mode s = Reimage then False else d"] assms(3)
    by (auto simp: confirmDeploy_def dialog_same dialog_same_target armed_def confirmWord_def)
  moreover have "request_ok s req \<and> (destructive req \<longrightarrow> typed = tg_name t)"
    if "confirmDeploy (s\<lparr>pv_dialog := Some d\<rparr>) busy typed = Some req" for busy typed req
    using confirm_dialog [OF assms(3) that] submit_ok [OF assms(1,2)] by (metis option.inject)
  ultimately show ?thesis unfolding d by blast
qed

definition sample_prov :: prov_state where
  "sample_prov = \<lparr>pv_live = True, pv_op = True,
     pv_images = [\<lparr>im_id = 3, im_arch = ''arm64'', im_family = ''debian'', im_fetched = True, im_boot = ''ipxe''\<rparr>],
     pv_stacks = [\<lparr>pk_slug = ''base'', pk_locked = True, pk_sort = 0, pk_deps = [], ps_name = ''Base'', ps_members = Some [1, 2], ps_count = 2\<rparr>],
     pv_software =
       [\<lparr>sw_id = 1, sw_name = ''ntp'', sw_families = None, sw_arches = None, sw_mapped = [(''debian'', ''ntp'')], sw_conflicts = [4]\<rparr>,
        \<lparr>sw_id = 4, sw_name = ''chrony'', sw_families = None, sw_arches = None, sw_mapped = [], sw_conflicts = [1]\<rparr>],
     pv_targets = [\<lparr>tg_id = 7, tg_name = ''zinc'', tg_arch = Some ''arm64'',
        tg_ifaces = [\<lparr>if_name = ''eth0'', if_mac = ''aa:bb'', if_mgmt = False\<rparr>], tg_model = None\<rparr>],
     pv_target = Some 7, pv_mode = Reimage, pv_image = Some 3, pv_mac = [], pv_picked = [], pv_dialog = None\<rparr>"

lemma sample_prov_facts: "blocked sample_prov = None" "map_option tg_name (the_target sample_prov) = Some ''zinc''"
  by code_simp+

lemma sample_prov_table: "conflict_table sample_prov"
  by (auto simp: conflict_table_def conflict_def swById_def sample_prov_def split: if_splits)

theorem deploy_safe_witness:
  "\<exists>t. the_target sample_prov = Some t \<and> tg_name t = ''zinc'' \<and> confirmDeploy (fold setDry [] (openDeploy sample_prov)) False ''zinc'' \<noteq> None"
proof -
  obtain t where "the_target sample_prov = Some t" "tg_name t = ''zinc''" using sample_prov_facts(2) by auto
  then show ?thesis using deploy_safe [OF sample_prov_facts(1) sample_prov_table, of t "[]"] by auto
qed

end
