(* ===== verification/ProvEdit.thy ===== *)
theory ProvEdit
  imports ProvForms ProvPlan "HOL-Library.Multiset"
begin

section \<open>Provisioning: resources, status lines and editors\<close>

text \<open>
  \<open>screens-prov.jsx\<close>: the resource hook that loads every list of the screen (\<open>useResource\<close>), the waits for
  image refreshes, the status of an image and of the image store (\<open>imageFreshness\<close>, \<open>storeView\<close>,
  \<open>fmtBytes\<close>), the chips of a set column (\<open>SetChips\<close>), the image editor (\<open>setDistro\<close>, \<open>clears\<close>) and the
  member order of a stack (\<open>move\<close>, \<open>resetOrder\<close>).  Lemmas: a resource shows the answer to its latest
  request and keeps the last good data over a failure; moving a member leaves exactly the order asked for.
\<close>

subsection \<open>A fetch with loading, error and last good data\<close>

record ('d, 'e) resource =
  rs_data :: "'d option"
  rs_error :: "'e option"
  rs_loading :: bool
  rs_seq :: nat

definition useResource :: "('d, 'e) resource" where
  "useResource = \<lparr>rs_data = None, rs_error = None, rs_loading = True, rs_seq = 0\<rparr>"

definition reload :: "('d, 'e) resource \<Rightarrow> ('d, 'e) resource" where
  "reload r = r\<lparr>rs_seq := Suc (rs_seq r), rs_error := None, rs_loading := True\<rparr>"

definition settled :: "nat \<Rightarrow> 'e + 'd \<Rightarrow> ('d, 'e) resource \<Rightarrow> ('d, 'e) resource" where
  "settled n res r = (if n = rs_seq r then (case res of
       Inr d \<Rightarrow> r\<lparr>rs_data := Some d, rs_error := None, rs_loading := False\<rparr>
     | Inl e \<Rightarrow> r\<lparr>rs_error := Some e, rs_loading := False\<rparr>) else r)"

text \<open>A run of the hook: requests are numbered from 1 and each is answered at most once, in any order.  The second
  component is what has been answered so far, the latest answer first.\<close>

inductive resource_run :: "('d, 'e) resource \<Rightarrow> (nat \<times> ('e + 'd)) list \<Rightarrow> bool" where
  start: "resource_run (reload useResource) []"
| again: "resource_run r answers \<Longrightarrow> resource_run (reload r) answers"
| answer: "resource_run r answers \<Longrightarrow> 0 < n \<Longrightarrow> n \<le> rs_seq r \<Longrightarrow> n \<notin> fst ` set answers \<Longrightarrow> resource_run (settled n res r) ((n, res) # answers)"

lemma resource_inv:
  assumes "resource_run r answers"
  shows "0 < rs_seq r \<and> (\<forall>n\<in>fst ` set answers. n \<le> rs_seq r) \<and> (rs_loading r \<longleftrightarrow> rs_seq r \<notin> fst ` set answers) \<and>
    (rs_loading r \<longrightarrow> rs_error r = None) \<and>
    (\<forall>res. (rs_seq r, res) \<in> set answers \<longrightarrow> (case res of Inl e \<Rightarrow> rs_error r = Some e | Inr d \<Rightarrow> rs_error r = None \<and> rs_data r = Some d)) \<and>
    (\<forall>d. rs_data r = Some d \<longrightarrow> (\<exists>n. (n, Inr d) \<in> set answers))"
  using assms
proof induction
  case (again r answers)
  then have "Suc (rs_seq r) \<notin> fst ` set answers" by (meson Suc_n_not_le_n)
  then show ?case using again.IH by (auto simp: reload_def)
next
  case (answer r answers n res)
  show ?case
  proof (cases "n = rs_seq r")
    case True
    have "(rs_seq r, x) \<notin> set answers" for x using answer.hyps True by force
    then show ?thesis using answer True by (cases res) (auto simp: settled_def)
  next
    case False
    then have same: "settled n res r = r" by (simp add: settled_def)
    show ?thesis unfolding same using answer.IH answer.hyps False by auto
  qed
qed (simp add: reload_def useResource_def)

subsection \<open>Status lines\<close>

datatype fresh = Fresh_None | Fresh_Stale int real | Fresh_Ok

text \<open>The age limit of a refresh policy, in days.\<close>

definition STALE_DAYS :: "string \<Rightarrow> real option" where
  "STALE_DAYS p = (if p = ''weekly'' then Some 8 else if p = ''point_release'' then Some 45 else None)"

definition imageFreshness :: "real \<Rightarrow> bool \<Rightarrow> string \<Rightarrow> real option \<Rightarrow> fresh" where
  "imageFreshness now fetched policy fetched_at = (if \<not> fetched then Fresh_None else (case (STALE_DAYS policy, fetched_at) of
       (Some days, Some t) \<Rightarrow> let age = (now - t) / 86400000 in if days < age then Fresh_Stale \<lfloor>age\<rfloor> days else Fresh_Ok
     | _ \<Rightarrow> Fresh_Ok))"

record store_status =
  ss_known :: bool
  ss_stale :: bool
  ss_reachable :: bool
  ss_mounted :: bool
  ss_linked :: bool

definition storeView :: "store_status option \<Rightarrow> string \<times> string" where
  "storeView st = (case st of None \<Rightarrow> (''warn'', ''store: not checked yet'') | Some s \<Rightarrow>
     if \<not> ss_known s then (''warn'', ''store: not checked yet'')
     else if ss_stale s then (''warn'', ''store: status stale'')
     else if \<not> ss_reachable s then (''warn'', ''store: unchecked'')
     else if \<not> ss_mounted s then (''crit'', ''store not mounted'')
     else if \<not> ss_linked s then (''crit'', ''store not linked'')
     else (''ok'', ''store mounted''))"

fun scale_bytes :: "real \<Rightarrow> string list \<Rightarrow> bool \<Rightarrow> string" where
  "scale_bytes n [] _ = []"
| "scale_bytes n [u] first = (if first \<or> 100 \<le> n then int_str (js_round n) else toFixed 1 n) @ '' '' @ u"
| "scale_bytes n (u # v # us) first = (if 1024 \<le> n then scale_bytes (n / 1024) (v # us) False
     else (if first \<or> 100 \<le> n then int_str (js_round n) else toFixed 1 n) @ '' '' @ u)"

definition fmtBytes :: "jval \<Rightarrow> string option" where
  "fmtBytes v = (case v of
       JNum n \<Rightarrow> if n < 0 then None else Some (scale_bytes n [''B'', ''KiB'', ''MiB'', ''GiB'', ''TiB'', ''PiB''] True)
     | _ \<Rightarrow> None)"

lemma store_ok_iff:
  "fst (storeView st) = ''ok'' \<longleftrightarrow> (\<exists>s. st = Some s \<and> ss_known s \<and> \<not> ss_stale s \<and> ss_reachable s \<and> ss_mounted s \<and> ss_linked s)"
  by (auto simp: storeView_def split: option.splits)

lemma stale_iff:
  "(\<exists>age days. imageFreshness now fetched policy fetched_at = Fresh_Stale age days) \<longleftrightarrow>
   fetched \<and> (\<exists>days t. STALE_DAYS policy = Some days \<and> fetched_at = Some t \<and> days < (now - t) / 86400000)"
  by (auto simp: imageFreshness_def Let_def split: option.splits)

subsection \<open>Waiting for a refresh\<close>

record refresh_wait =
  rw_at :: real
  rw_fetched :: jval
  rw_after :: nat
  rw_run :: "nat option"
  rw_status :: "string option"

record run =
  rn_id :: nat
  rn_mode :: string
  rn_image :: string
  rn_status :: string

definition maxRunId :: "run list \<Rightarrow> nat" where
  "maxRunId runs = fold (\<lambda>r n. max n (rn_id r)) runs 0"

definition refreshImage :: "real \<Rightarrow> run list \<Rightarrow> string \<Rightarrow> jval \<Rightarrow> (string \<times> refresh_wait) list \<Rightarrow> (string \<times> refresh_wait) list" where
  "refreshImage now runs i fetched ws = put i \<lparr>rw_at = now, rw_fetched = fetched, rw_after = maxRunId runs, rw_run = None, rw_status = None\<rparr> ws"

text \<open>The images arrive: a wait ends when its image is gone, has a new fetch time, or after twenty minutes.\<close>

definition images_arrive :: "real \<Rightarrow> (string \<times> jval) list \<Rightarrow> (string \<times> refresh_wait) list \<Rightarrow> (string \<times> refresh_wait) list" where
  "images_arrive now images ws = filter (\<lambda>(i, w). case map_of images i of
       None \<Rightarrow> False | Some f \<Rightarrow> f = rw_fetched w \<and> \<not> 20 * 60000 < now - rw_at w) ws"

definition run_done :: "string \<Rightarrow> bool" where
  "run_done st \<longleftrightarrow> st = ''succeeded'' \<or> st = ''failed'' \<or> st = ''cancelled''"

definition wait_run :: "run list \<Rightarrow> string \<Rightarrow> refresh_wait \<Rightarrow> run option" where
  "wait_run runs i w = find (\<lambda>r. rn_mode r = ''refresh'' \<and> rn_image r = i \<and> rw_after w < rn_id r) runs"

text \<open>The runs arrive: the run of a wait is reported when it is over, and followed until then.\<close>

definition runs_arrive :: "run list \<Rightarrow> (string \<times> refresh_wait) list \<Rightarrow> (string \<times> refresh_wait) list" where
  "runs_arrive runs ws = List.map_filter (\<lambda>(i, w). case wait_run runs i w of
       None \<Rightarrow> Some (i, w)
     | Some r \<Rightarrow> if run_done (rn_status r) then None else Some (i, w\<lparr>rw_run := Some (rn_id r), rw_status := Some (rn_status r)\<rparr>)) ws"

definition reported :: "run list \<Rightarrow> (string \<times> refresh_wait) list \<Rightarrow> run list" where
  "reported runs ws = List.map_filter (\<lambda>(i, w). case wait_run runs i w of
       Some r \<Rightarrow> if run_done (rn_status r) then Some r else None | None \<Rightarrow> None) ws"

lemma fold_max_start: "n \<le> fold (\<lambda>r n. max n (rn_id r)) runs n"
proof (induction runs arbitrary: n)
  case (Cons r runs)
  show ?case using Cons.IH [of "max n (rn_id r)"] by simp
qed simp

lemma fold_run_ge: "r \<in> set runs \<Longrightarrow> rn_id r \<le> fold (\<lambda>r n. max n (rn_id r)) runs n"
proof (induction runs arbitrary: n)
  case (Cons q runs)
  show ?case using Cons fold_max_start [of "max n (rn_id q)" runs] by (cases "r = q") auto
qed simp

lemma maxRunId_ge: "r \<in> set runs \<Longrightarrow> rn_id r \<le> maxRunId runs"
  unfolding maxRunId_def by (rule fold_run_ge)

lemma find_after:
  "find P xs = Some x \<Longrightarrow> P x \<and> x \<in> set xs"
  by (auto simp: find_Some_iff)

text \<open>A run that was already listed when the refresh was asked for never ends the wait.\<close>

lemma old_runs_ignored:
  assumes "map_of ws i = Some w" "rw_after w = maxRunId old" "wait_run runs i w = Some r"
  shows "r \<notin> set old"
  using find_after [OF assms(3) [unfolded wait_run_def]] assms(2) maxRunId_ge [of r old] by auto

subsection \<open>Chips of a set column\<close>

text \<open>\<open>None\<close> is all; unticking every chip is all again.\<close>

definition setChip :: "string list \<Rightarrow> string list option \<Rightarrow> string \<Rightarrow> string list option" where
  "setChip options v x = (let on = (case v of Some l \<Rightarrow> l | None \<Rightarrow> []);
       nxt = (if x \<in> set on then filter (\<lambda>y. y \<noteq> x) on else on @ [x])
     in if nxt = [] then None else Some (filter (\<lambda>y. y \<in> set nxt) options))"

definition chips_ok :: "string list \<Rightarrow> string list option \<Rightarrow> bool" where
  "chips_ok options v \<longleftrightarrow> (case v of None \<Rightarrow> True | Some l \<Rightarrow> l \<noteq> [] \<and> (\<exists>P. l = filter P options))"

lemma setChip_ok:
  assumes "chips_ok options v" "x \<in> set options"
  shows "chips_ok options (setChip options v x)"
proof -
  define on where "on = (case v of Some l \<Rightarrow> l | None \<Rightarrow> [])"
  define nxt where "nxt = (if x \<in> set on then filter (\<lambda>y. y \<noteq> x) on else on @ [x])"
  have "set on \<subseteq> set options" using assms(1) by (auto simp: on_def chips_ok_def split: option.splits)
  then have "set nxt \<subseteq> set options" using assms(2) by (auto simp: nxt_def)
  then have "nxt \<noteq> [] \<Longrightarrow> filter (\<lambda>y. y \<in> set nxt) options \<noteq> []" by (cases nxt) (auto simp: filter_empty_conv)
  moreover have "setChip options v x = (if nxt = [] then None else Some (filter (\<lambda>y. y \<in> set nxt) options))"
    unfolding setChip_def Let_def nxt_def on_def ..
  ultimately show ?thesis by (auto simp: chips_ok_def)
qed

subsection \<open>The image editor\<close>

definition DISTRO_FAMILY :: "(string \<times> string) list" where
  "DISTRO_FAMILY = [(''opensuse'', ''suse''), (''debian'', ''debian''), (''ubuntu'', ''debian''), (''raspios'', ''debian''),
     (''fedora'', ''fedora''), (''rocky'', ''fedora''), (''alma'', ''fedora''), (''centos'', ''fedora'')]"

text \<open>The family follows a known distribution unless the operator chose another one.\<close>

definition setDistro :: "string \<Rightarrow> string \<times> string \<Rightarrow> string \<times> string" where
  "setDistro v df = (let (distro, family) = df in
     (v, case map_of DISTRO_FAMILY v of Some f \<Rightarrow> if family = [] \<or> map_of DISTRO_FAMILY distro = Some family then f else family
         | None \<Rightarrow> family))"

definition IMAGE_SOURCE :: "string list" where
  "IMAGE_SOURCE = [''distro'', ''release_name'', ''arch'', ''boot_method'', ''source_url'', ''checksum_url'']"

definition clears :: "bool \<Rightarrow> (string \<times> jval) list \<Rightarrow> bool" where
  "clears fetched diff \<longleftrightarrow> fetched \<and> list_ex (\<lambda>k. map_of diff k \<noteq> None) IMAGE_SOURCE"

definition piBad :: "string \<Rightarrow> string \<Rightarrow> bool" where
  "piBad boot arch \<longleftrightarrow> boot = ''pi_netboot'' \<and> arch \<noteq> ''arm64'' \<and> arch \<noteq> ''armhf''"

definition imageBody :: "(string \<Rightarrow> string) \<Rightarrow> bool \<Rightarrow> (string \<times> jval) list" where
  "imageBody f verified =
     [(''distro'', JStr (js_trim (f ''distro''))), (''family'', if f ''family'' = [] then JNull else JStr (f ''family'')),
      (''release_name'', JStr (js_trim (f ''release_name''))), (''release_label'', nn (JStr (f ''release_label''))),
      (''arch'', JStr (f ''arch'')), (''boot_method'', JStr (f ''boot_method'')), (''source_url'', nn (JStr (f ''source_url''))),
      (''checksum_url'', nn (JStr (f ''checksum_url''))), (''install_template'', nn (JStr (f ''install_template''))),
      (''refresh_policy'', JStr (f ''refresh_policy'')), (''netboot_verified'', JBool verified), (''notes'', nn (JStr (f ''notes'')))]"

subsection \<open>The member order of a stack\<close>

record member =
  mb_software :: nat
  mb_order :: "nat option"

definition move_list :: "int \<Rightarrow> int \<Rightarrow> 'a list \<Rightarrow> 'a list option" where
  "move_list i dir ms = (let j = i + dir in
     if j < 0 \<or> int (length ms) \<le> j then None
     else Some (ms[nat i := ms ! nat j, nat j := ms ! nat i]))"

text \<open>The requests of a move: one for each member whose stored order is not the one of its new place.\<close>

fun puts_from :: "nat \<Rightarrow> member list \<Rightarrow> (nat \<times> nat option) list" where
  "puts_from k [] = []"
| "puts_from k (m # ms) = (if mb_order m = Some ((k + 1) * 10) then [] else [(mb_software m, Some ((k + 1) * 10))]) @ puts_from (k + 1) ms"

definition move_puts :: "member list \<Rightarrow> (nat \<times> nat option) list" where
  "move_puts ms = puts_from 0 ms"

definition move_member :: "int \<Rightarrow> int \<Rightarrow> member list \<Rightarrow> (nat \<times> nat option) list" where
  "move_member i dir ms = (case move_list i dir ms of None \<Rightarrow> [] | Some l \<Rightarrow> move_puts l)"

definition resetOrder :: "member list \<Rightarrow> (nat \<times> nat option) list" where
  "resetOrder ms = map (\<lambda>m. (mb_software m, None)) (filter (\<lambda>m. mb_order m \<noteq> None) ms)"

text \<open>A request sets the order of one member of the stored stack.\<close>

definition member_update :: "nat \<times> nat option \<Rightarrow> member list \<Rightarrow> member list" where
  "member_update p ms = map (\<lambda>m. if mb_software m = fst p then m\<lparr>mb_order := snd p\<rparr> else m) ms"

lemma fold_member_update:
  "distinct (map fst ps) \<Longrightarrow> fold member_update ps ms =
     map (\<lambda>m. case map_of ps (mb_software m) of Some v \<Rightarrow> m\<lparr>mb_order := v\<rparr> | None \<Rightarrow> m) ms"
proof (induction ps arbitrary: ms)
  case (Cons p ps)
  have "map_of ps (fst p) = None" using Cons.prems by (auto simp: map_of_eq_None_iff)
  then show ?case using Cons by (cases p) (auto simp: member_update_def split: option.splits)
qed simp

lemma puts_from_iff:
  "(s, v) \<in> set (puts_from n l) \<longleftrightarrow> (\<exists>k<length l. s = mb_software (l ! k) \<and> v = Some ((n + k + 1) * 10) \<and> mb_order (l ! k) \<noteq> v)"
proof (induction l arbitrary: n)
  case (Cons m l)
  have "(\<exists>k<length (m # l). s = mb_software ((m # l) ! k) \<and> v = Some ((n + k + 1) * 10) \<and> mb_order ((m # l) ! k) \<noteq> v) \<longleftrightarrow>
      (s = mb_software m \<and> v = Some ((n + 1) * 10) \<and> mb_order m \<noteq> v) \<or>
      (\<exists>k<length l. s = mb_software (l ! k) \<and> v = Some ((n + 1 + k + 1) * 10) \<and> mb_order (l ! k) \<noteq> v)"
    by (simp add: Ex_less_Suc2)
  then show ?case using Cons.IH [of "n + 1"] by auto
qed simp

lemma move_puts_iff:
  "(s, v) \<in> set (move_puts l) \<longleftrightarrow> (\<exists>k<length l. s = mb_software (l ! k) \<and> v = Some ((k + 1) * 10) \<and> mb_order (l ! k) \<noteq> v)"
  unfolding move_puts_def puts_from_iff by simp

lemma puts_from_keys: "fst ` set (puts_from n l) \<subseteq> mb_software ` set l"
  by (induction l arbitrary: n) auto

lemma distinct_puts_from: "distinct (map mb_software l) \<Longrightarrow> distinct (map fst (puts_from n l))"
proof (induction l arbitrary: n)
  case (Cons m l)
  have "mb_software m \<notin> fst ` set (puts_from (n + 1) l)" using Cons.prems puts_from_keys [of "n + 1" l] by auto
  then show ?case using Cons.prems Cons.IH [of "n + 1"] by simp
qed simp

lemma distinct_move_puts: "distinct (map mb_software l) \<Longrightarrow> distinct (map fst (move_puts l))"
  unfolding move_puts_def by (rule distinct_puts_from)

lemma moved_member:
  assumes "distinct (map mb_software l)" "k < length l"
  shows "(case map_of (move_puts l) (mb_software (l ! k)) of Some v \<Rightarrow> (l ! k)\<lparr>mb_order := v\<rparr> | None \<Rightarrow> l ! k) =
    (l ! k)\<lparr>mb_order := Some ((k + 1) * 10)\<rparr>"
proof (cases "mb_order (l ! k) = Some ((k + 1) * 10)")
  case True
  have "(mb_software (l ! k), v) \<notin> set (move_puts l)" for v
  proof
    assume "(mb_software (l ! k), v) \<in> set (move_puts l)"
    then obtain i where i: "i < length l" "mb_software (l ! k) = mb_software (l ! i)" "v = Some ((i + 1) * 10)" "mb_order (l ! i) \<noteq> v"
      using move_puts_iff by blast
    have "i = k" using nth_eq_iff_index_eq [OF assms(1), of i k] i(1,2) assms(2) by simp
    then show False using i True by simp
  qed
  then have "map_of (move_puts l) (mb_software (l ! k)) = None" unfolding map_of_eq_None_iff by force
  then show ?thesis using True by simp
next
  case False
  then have "(mb_software (l ! k), Some ((k + 1) * 10)) \<in> set (move_puts l)" using assms(2) move_puts_iff by blast
  then have "map_of (move_puts l) (mb_software (l ! k)) = Some (Some ((k + 1) * 10))" using distinct_move_puts [OF assms(1)] by simp
  then show ?thesis by simp
qed

text \<open>The stack as stored after the requests of a move, sorted by the explicit orders, has the members in the order the
  operator asked for.\<close>

definition pinned :: "member list \<Rightarrow> member list" where
  "pinned l = map (\<lambda>k. (l ! k)\<lparr>mb_order := Some ((k + 1) * 10)\<rparr>) [0..<length l]"

lemma set_move_list: "move_list i dir ms = Some l \<Longrightarrow> 0 \<le> i \<Longrightarrow> i < int (length ms) \<Longrightarrow> mset l = mset ms"
  by (auto simp: move_list_def Let_def mset_swap split: if_splits)

lemma move_result:
  assumes "distinct (map mb_software ms)" "move_list i dir ms = Some l" "0 \<le> i" "i < int (length ms)"
  shows "sort_key (\<lambda>m. the (mb_order m)) (fold member_update (move_member i dir ms) ms) = pinned l"
proof -
  have ml: "mset l = mset ms" using set_move_list assms(2-4) by blast
  then have d: "distinct (map mb_software l)" 
    using assms(1) mset_eq_imp_distinct_iff [of "map mb_software l" "map mb_software ms"] by simp
  let ?g = "\<lambda>m. case map_of (move_puts l) (mb_software m) of Some v \<Rightarrow> m\<lparr>mb_order := v\<rparr> | None \<Rightarrow> m"
  have p: "map ?g l = pinned l" unfolding pinned_def by (rule nth_equalityI) (simp_all add: moved_member [OF d])
  have "mset (map ?g ms) = mset (map ?g l)" by (simp only: mset_map ml)
  then have m: "mset (map ?g ms) = mset (pinned l)" unfolding p .
  have f: "fold member_update (move_member i dir ms) ms = map ?g ms"
    using assms(2) fold_member_update [OF distinct_move_puts [OF d]] by (simp add: move_member_def)
  have "sorted (map (\<lambda>m. the (mb_order m)) (pinned l))" by (simp add: pinned_def comp_def sorted_iff_nth_mono)
  moreover have "inj_on (\<lambda>m. the (mb_order m)) (set (map ?g ms))"
    unfolding mset_eq_setD [OF m] by (auto simp: pinned_def inj_on_def)
  ultimately show ?thesis unfolding f using m by (intro sort_key_inj_key_eq)
qed

text \<open>Property C14. Whatever the order in which the answers come back, a list of the provisioning screen shows loading
exactly while its latest request is open; once that is answered it shows that answer, its data or its error, and never
the answer to an older request; and every datum it ever shows came from the server, also while an error is shown.\<close>

theorem resource_shows_latest:
  assumes "resource_run r answers"
  shows "(rs_loading r \<longleftrightarrow> rs_seq r \<notin> fst ` set answers) \<and>
     (\<forall>d. (rs_seq r, Inr d) \<in> set answers \<longrightarrow> rs_data r = Some d \<and> rs_error r = None) \<and>
     (\<forall>e. (rs_seq r, Inl e) \<in> set answers \<longrightarrow> rs_error r = Some e) \<and>
     (\<forall>d. rs_data r = Some d \<longrightarrow> (\<exists>n. (n, Inr d) \<in> set answers))"
proof -
  note inv = resource_inv [OF assms]
  then have latest: "(rs_seq r, res) \<in> set answers \<Longrightarrow>
      (case res of Inl e \<Rightarrow> rs_error r = Some e | Inr d \<Rightarrow> rs_error r = None \<and> rs_data r = Some d)" for res by blast
  have "(rs_seq r, Inr d) \<in> set answers \<Longrightarrow> rs_data r = Some d \<and> rs_error r = None" for d using latest [of "Inr d"] by simp
  moreover have "(rs_seq r, Inl e) \<in> set answers \<Longrightarrow> rs_error r = Some e" for e using latest [of "Inl e"] by simp
  ultimately show ?thesis using inv by blast
qed

theorem resource_shows_latest_witness:
  "rs_data (settled 1 (Inl ''late'') (settled 2 (Inr (7::nat)) (reload (reload useResource)))) = Some 7"
proof -
  have "resource_run (settled 2 (Inr (7::nat)) (reload (reload useResource))) [(2, Inr 7)]"
    by (intro resource_run.intros) (simp_all add: reload_def useResource_def)
  then have "resource_run (settled 1 (Inl ''late'') (settled 2 (Inr (7::nat)) (reload (reload useResource)))) [(1, Inl ''late''), (2, Inr 7)]"
    by (rule resource_run.intros) (simp_all add: reload_def useResource_def settled_def)
  from resource_shows_latest [OF this] show ?thesis by (simp add: reload_def useResource_def settled_def)
qed

text \<open>Property C36. Moving a member of a stack up or down, for any mix of explicit and default orders, sends requests
after which the stored orders are 10, 20, 30 and so on in the order the operator asked for, so sorting by them gives
exactly the list with the two neighbours swapped.\<close>

theorem move_pins_order:
  assumes "distinct (map mb_software ms)" "0 \<le> i" "i < int (length ms)" "0 \<le> i + dir" "i + dir < int (length ms)"
  shows "\<exists>l. move_list i dir ms = Some l \<and>
    map mb_software (sort_key (\<lambda>m. the (mb_order m)) (fold member_update (move_member i dir ms) ms)) = map mb_software l \<and>
    map mb_order (sort_key (\<lambda>m. the (mb_order m)) (fold member_update (move_member i dir ms) ms)) = map (\<lambda>k. Some ((k + 1) * 10)) [0..<length l]"
proof -
  obtain l where l: "move_list i dir ms = Some l" using assms(4,5) by (auto simp: move_list_def Let_def)
  show ?thesis unfolding move_result [OF assms(1) l assms(2,3)] using l
    by (auto simp: pinned_def comp_def intro!: nth_equalityI)
qed

theorem move_pins_order_witness:
  "map mb_software (sort_key (\<lambda>m. the (mb_order m))
     (fold member_update (move_member 2 (-1) [\<lparr>mb_software = 5, mb_order = None\<rparr>, \<lparr>mb_software = 3, mb_order = Some 20\<rparr>, \<lparr>mb_software = 8, mb_order = Some 20\<rparr>])
       [\<lparr>mb_software = 5, mb_order = None\<rparr>, \<lparr>mb_software = 3, mb_order = Some 20\<rparr>, \<lparr>mb_software = 8, mb_order = Some 20\<rparr>])) = [5, 8, 3]"
  using move_pins_order [of "[\<lparr>mb_software = 5, mb_order = None\<rparr>, \<lparr>mb_software = 3, mb_order = Some 20\<rparr>, \<lparr>mb_software = 8, mb_order = Some 20\<rparr>]" 2 "-1"]
  by (auto simp: move_list_def)

end
