(* ===== verification/ProvReopen.thy ===== *)
theory ProvReopen
  imports ProvForms
begin

section \<open>Provisioning: an entry that was saved is reopened\<close>

text \<open>
  The round trip through the store of \<open>ProvForms\<close>: whatever the operator puts into the editor of a pool entry, the body
  that is sent, held in a row and opened again, shows the same form (texts up to the blanks around them), and
  saving it unchanged sends nothing.  The conditions on the form are those of its controls (text fields hold
  strings, the two selects a non-empty option) and what \<open>ProvCatalog.php\<close> demands of a spec: the address of a
  remote script and the source of a build are filled in.
\<close>

subsection \<open>Forms\<close>

definition is_text :: "jval \<Rightarrow> bool" where
  "is_text v = (case v of JStr _ \<Rightarrow> True | _ \<Rightarrow> False)"

definition blank :: "jval \<Rightarrow> bool" where
  "blank v = (case v of JStr s \<Rightarrow> js_trim s = [] | _ \<Rightarrow> True)"

definition trimmed :: "jval \<Rightarrow> jval" where
  "trimmed v = (case v of JStr s \<Rightarrow> JStr (js_trim s) | _ \<Rightarrow> v)"

definition repo_texts :: "repo_form \<Rightarrow> bool" where
  "repo_texts r \<longleftrightarrow> list_all is_text [rf_url r, rf_key_url r, rf_fingerprint r, rf_suite r]"

definition spec_filled :: "string \<Rightarrow> spec_form \<Rightarrow> bool" where
  "spec_filled type st \<longleftrightarrow>
     list_all is_text [sf_creates st, sf_body st, sf_url st, sf_sha256 st, sf_interpreter st, sf_run_as st, sf_version_check st, sf_git st,
       sf_tag st, sf_tarball st, sf_tsha st, sf_system st, sf_prefix st, sf_build st, sf_install st] \<and>
     list_all (\<lambda>f. repo_texts (sf_repo st f)) FAMS \<and> truthy (sf_run_as st) \<and> truthy (sf_system st) \<and>
     sf_src st \<in> set [''inline'', ''url''] \<and> sf_bsrc st \<in> set [''git'', ''tarball''] \<and>
     (type = ''script'' \<and> sf_src st = ''url'' \<longrightarrow> \<not> blank (sf_url st)) \<and>
     (type = ''build'' \<longrightarrow> (if sf_bsrc st = ''git'' then \<not> blank (sf_git st) else \<not> blank (sf_tarball st) \<and> \<not> blank (sf_tsha st)))"

definition form_filled :: "string \<Rightarrow> sw_form \<Rightarrow> bool" where
  "form_filled type f \<longleftrightarrow> type \<in> set ITEM_TYPES \<and> wf_type f = JStr type \<and> is_text (wf_logical f) \<and> \<not> blank (wf_logical f) \<and>
     list_all (\<lambda>x. is_text (wf_names f x)) FAMS \<and> list_all is_text [wf_role f, wf_source f, wf_pin f, wf_notes f] \<and>
     list_all (\<lambda>v. v = JNull \<or> (case v of JArr _ \<Rightarrow> True | _ \<Rightarrow> False)) [wf_families f, wf_arches f]"

text \<open>A second form that shows what the first did, as far as the item type uses it.\<close>

definition guard_shows :: "spec_form \<Rightarrow> spec_form \<Rightarrow> bool" where
  "guard_shows st st' \<longleftrightarrow> sf_creates st' = trimmed (sf_creates st) \<and> sf_version_check st' = trimmed (sf_version_check st) \<and>
     linesOf (sf_check st') = linesOf (sf_check st) \<and> spec_env st' = spec_env st"

definition script_shows :: "spec_form \<Rightarrow> spec_form \<Rightarrow> bool" where
  "script_shows st st' \<longleftrightarrow> sf_src st' = sf_src st \<and>
     (if sf_src st = ''url'' then sf_url st' = trimmed (sf_url st) \<and> sf_sha256 st' = trimmed (sf_sha256 st)
      else sf_body st' = (if blank (sf_body st) then JStr [] else sf_body st)) \<and>
     sf_interpreter st' = trimmed (sf_interpreter st) \<and> sf_run_as st' = sf_run_as st"

definition source_shows :: "spec_form \<Rightarrow> spec_form \<Rightarrow> bool" where
  "source_shows st st' \<longleftrightarrow> sf_bsrc st' = sf_bsrc st \<and>
     (if sf_bsrc st = ''git'' then sf_git st' = trimmed (sf_git st) \<and> sf_tag st' = trimmed (sf_tag st)
      else sf_tarball st' = trimmed (sf_tarball st) \<and> sf_tsha st' = trimmed (sf_tsha st))"

definition build_shows :: "spec_form \<Rightarrow> spec_form \<Rightarrow> bool" where
  "build_shows st st' \<longleftrightarrow> source_shows st st' \<and> sf_system st' = sf_system st \<and>
     linesOf (sf_configure st') = linesOf (sf_configure st) \<and> sf_prefix st' = trimmed (sf_prefix st) \<and>
     (sf_system st = JStr ''custom'' \<longrightarrow> sf_build st' = trimmed (sf_build st) \<and> sf_install st' = trimmed (sf_install st))"

definition repo_shows :: "repo_form \<Rightarrow> repo_form \<Rightarrow> bool" where
  "repo_shows r r' \<longleftrightarrow> rf_on r' = rf_on r \<and> (rf_on r \<longrightarrow> rf_url r' = trimmed (rf_url r) \<and> rf_key_url r' = trimmed (rf_key_url r) \<and>
     rf_fingerprint r' = trimmed (rf_fingerprint r) \<and> rf_suite r' = trimmed (rf_suite r) \<and> words_of (rf_components r') = words_of (rf_components r))"

definition spec_shows :: "string \<Rightarrow> spec_form \<Rightarrow> spec_form \<Rightarrow> bool" where
  "spec_shows type st st' \<longleftrightarrow>
     (type = ''artifact'' \<longrightarrow> sf_extract st' = sf_extract st \<and> sf_creates st' = trimmed (sf_creates st)) \<and>
     (type = ''script'' \<longrightarrow> script_shows st st' \<and> guard_shows st st') \<and>
     (type = ''build'' \<longrightarrow> build_shows st st' \<and> guard_shows st st') \<and>
     (type = ''repo'' \<longrightarrow> list_all (\<lambda>f. repo_shows (sf_repo st f) (sf_repo st' f)) FAMS)"

definition form_shows :: "sw_form \<Rightarrow> sw_form \<Rightarrow> bool" where
  "form_shows f f' \<longleftrightarrow> wf_logical f' = trimmed (wf_logical f) \<and> wf_type f' = wf_type f \<and>
     list_all (\<lambda>x. if wf_type f = JStr ''pkg'' then wf_names f' x = trimmed (wf_names f x) else wf_support f' x = wf_support f x) FAMS \<and>
     wf_families f' = wf_families f \<and> wf_arches f' = wf_arches f \<and>
     (wf_type f = JStr ''role'' \<longrightarrow> wf_role f' = trimmed (wf_role f)) \<and>
     wf_source f' = trimmed (wf_source f) \<and> wf_pin f' = trimmed (wf_pin f) \<and> wf_notes f' = trimmed (wf_notes f)"

subsection \<open>What a field leaves in the body\<close>

definition opt_nn :: "jval \<Rightarrow> jval option" where
  "opt_nn v = (if nn v = JNull then None else Some (nn v))"

lemma map_of_put_nn: "map_of (put_nn k v obj) k' = (if k' = k \<and> opt_nn v \<noteq> None then opt_nn v else map_of obj k')"
  by (simp add: put_nn_def opt_nn_def map_of_put)

lemma textE: "is_text v \<Longrightarrow> (\<And>s. v = JStr s \<Longrightarrow> P) \<Longrightarrow> P"
  by (cases v) (auto simp: is_text_def)

lemma opt_nn_text: "is_text v \<Longrightarrow> opt_nn v = (if blank v then None else Some (trimmed v))"
  by (erule textE) (simp add: opt_nn_def blank_def trimmed_def)

lemma tidy_trimmed: "is_text v \<Longrightarrow> \<not> blank v \<Longrightarrow> tidy (trimmed v)"
  by (erule textE) (simp add: tidy_def blank_def trimmed_def trim_idem)

lemma trimmed_blank: "is_text v \<Longrightarrow> blank v \<Longrightarrow> trimmed v = JStr []"
  by (erule textE) (simp add: blank_def trimmed_def)

lemma field_ok: "is_text v \<Longrightarrow> map_of kvs k = opt_nn v \<Longrightarrow> opt_ok tidy kvs k"
  by (simp add: opt_ok_def opt_nn_text tidy_trimmed)

lemma field_shows: "is_text v \<Longrightarrow> map_of kvs k = opt_nn v \<Longrightarrow> text_or (JObj kvs) k = trimmed v"
  using tidyE [OF tidy_trimmed, of v] by (auto simp: text_or_def jor_def opt_nn_text trimmed_blank split: if_splits)

definition opt_lines :: "string \<Rightarrow> jval option" where
  "opt_lines t = (if linesOf t = [] then None else Some (JArr (map JStr (linesOf t))))"

lemma map_of_lines_field: "map_of (lines_field k t obj) k' = (if k' = k \<and> opt_lines t \<noteq> None then opt_lines t else map_of obj k')"
  by (simp add: lines_field_def opt_lines_def map_of_put)

lemma split_by_pieces: "x \<in> set (split_by p s) \<Longrightarrow> c \<in> set x \<Longrightarrow> \<not> p c"
proof (induction s arbitrary: x)
  case (Cons d s)
  then show ?case by (cases "split_by p s") (fastforce split: if_splits)+
qed simp

lemma set_js_trim: "set (js_trim s) \<subseteq> set s"
  unfolding js_trim_def by (metis set_dropWhileD set_rev subsetI)

lemma linesOf_tidy: "x \<in> set (linesOf t) \<Longrightarrow> x \<noteq> [] \<and> js_trim x = x \<and> CHR 10 \<notin> set x"
  unfolding linesOf_def using set_js_trim split_by_pieces [of _ "\<lambda>c. c = CHR 10" t] by (fastforce simp: trim_idem)

lemma words_of_tidy: "x \<in> set (words_of t) \<Longrightarrow> x \<noteq> [] \<and> (\<forall>c\<in>set x. \<not> is_space c)"
  unfolding words_of_def using split_by_pieces [of x is_space t] by auto

lemma lines_ok: "map_of kvs k = opt_lines t \<Longrightarrow> opt_ok tidy_lines kvs k"
  using linesOf_tidy [of _ t] by (auto simp: opt_ok_def opt_lines_def tidy_lines_def list_all_iff)

lemma lines_show:
  assumes "map_of kvs k = opt_lines t" "join_v [CHR 10] (jor (jget (JObj kvs) k) (JArr [])) = Some t'"
  shows "linesOf t' = linesOf t"
proof -
  have j: "linesOf (join_str [CHR 10] (linesOf t)) = linesOf t" using linesOf_tidy by (intro linesOf_join) blast
  have "t' = join_str [CHR 10] (linesOf t)"
    using assms by (auto simp: opt_lines_def jor_def comp_def split: if_splits)
  then show ?thesis using j by simp
qed

definition opt_env :: "spec_form \<Rightarrow> jval option" where
  "opt_env st = (if spec_env st = JNull then None else Some (spec_env st))"

lemma env_tidy:
  "distinct (map fst e) \<Longrightarrow> list_all (\<lambda>(k, x). k \<noteq> [] \<and> js_trim k = k \<and> (case x of JStr _ \<Rightarrow> True | _ \<Rightarrow> False)) e \<Longrightarrow>
   (let e' = fold (\<lambda>(k, v) e. if js_trim k = [] then e else put (js_trim k) (JStr v) e) env e in
     distinct (map fst e') \<and> list_all (\<lambda>(k, x). k \<noteq> [] \<and> js_trim k = k \<and> (case x of JStr _ \<Rightarrow> True | _ \<Rightarrow> False)) e')"
proof (induction env arbitrary: e)
  case (Cons kv env)
  have put: "list_all Q (put k v e)" if "list_all Q e" "Q (k, v)" for Q k v and e :: "(string \<times> jval) list"
    using that by (induction e) auto
  show ?case
  proof (cases "js_trim (fst kv) = []")
    case False
    then show ?thesis using Cons.IH [of "put (js_trim (fst kv)) (JStr (snd kv)) e"] Cons.prems
      by (simp add: case_prod_beta distinct_put put trim_idem)
  qed (use Cons in \<open>simp add: case_prod_beta\<close>)
qed simp

lemma env_ok: "map_of kvs ''env'' = opt_env st \<Longrightarrow> opt_ok tidy_env kvs ''env''"
  using env_tidy [of "[]" "sf_env st"] by (auto simp: opt_ok_def opt_env_def tidy_env_def spec_env_def Let_def)

lemma env_shows:
  assumes "map_of kvs ''env'' = opt_env st" "sf_env st' = map (\<lambda>(k, v). (k, js_String v)) (entries (jor (jget (JObj kvs) ''env'') (JObj [])))"
  shows "spec_env st' = spec_env st"
proof (cases "spec_env st = JNull")
  case True
  then show ?thesis using assms by (simp add: opt_env_def jor_def) (simp add: spec_env_def)
next
  case False
  then have "map_of (if spec_env st' = JNull then [] else put ''env'' (spec_env st') []) ''env'' = Some (spec_env st)"
    using field_env [OF env_ok [OF assms(1)] assms(2), of "[]" "''env''"] assms(1) by (simp add: opt_env_def)
  then show ?thesis by (simp split: if_splits)
qed

subsection \<open>The guard of scripts and builds\<close>

definition guard_keys :: "string list" where
  "guard_keys = [''env'', ''creates'', ''check'', ''version_check'']"

definition guard_at :: "spec_form \<Rightarrow> string \<Rightarrow> jval option" where
  "guard_at st k = (if k = ''env'' then opt_env st else if k = ''creates'' then opt_nn (sf_creates st)
     else if k = ''check'' then opt_lines (sf_check st) else opt_nn (sf_version_check st))"

lemma guard_written:
  assumes "\<forall>k\<in>set guard_keys. map_of obj k = None"
  shows "map_of (spec_guard st obj) k = (if k \<in> set guard_keys then guard_at st k else map_of obj k)"
  using assms by (auto simp: spec_guard_def guard_at_def guard_keys_def map_of_put_nn map_of_lines_field map_of_put opt_env_def)

lemma guard_reopens:
  assumes "is_text (sf_creates st)" "is_text (sf_version_check st)" "\<forall>k\<in>set guard_keys. map_of kvs k = guard_at st k"
  shows "guard_ok kvs" "opened kvs st' \<Longrightarrow> guard_shows st st'"
proof -
  have at: "map_of kvs ''env'' = opt_env st" "map_of kvs ''creates'' = opt_nn (sf_creates st)" "map_of kvs ''check'' = opt_lines (sf_check st)"
    "map_of kvs ''version_check'' = opt_nn (sf_version_check st)"
    using assms(3) by (simp_all add: guard_keys_def guard_at_def)
  show "guard_ok kvs" unfolding guard_ok_def
    using env_ok [OF at(1)] field_ok [OF assms(1) at(2)] lines_ok [OF at(3)] field_ok [OF assms(2) at(4)] by blast
  assume "opened kvs st'"
  then have f: "sf_creates st' = text_or (JObj kvs) ''creates''" "sf_version_check st' = text_or (JObj kvs) ''version_check''"
    "sf_env st' = map (\<lambda>(k, v). (k, js_String v)) (entries (jor (jget (JObj kvs) ''env'') (JObj [])))"
    "join_v [CHR 10] (jor (jget (JObj kvs) ''check'') (JArr [])) = Some (sf_check st')"
    by (simp_all add: opened_def del: jget.simps)
  show "guard_shows st st'" unfolding guard_shows_def f(1,2)
    using env_shows [OF at(1) f(3)] lines_show [OF at(3) f(4)] field_shows [OF assms(1) at(2)] field_shows [OF assms(2) at(4)] by blast
qed

lemma keys_inI: "distinct (map fst kvs) \<Longrightarrow> (\<And>k. k \<notin> set ks \<Longrightarrow> map_of kvs k = None) \<Longrightarrow> keys_in ks kvs"
  unfolding keys_in_def list_all_iff by (metis map_of_eq_None_iff fst_conv image_iff prod.collapse)

subsection \<open>Each kind of spec\<close>

text \<open>A written spec has the shape of \<open>spec_ok\<close>, and a form opened on it shows the form it was written from.\<close>

definition reopens :: "string \<Rightarrow> spec_form \<Rightarrow> jval \<Rightarrow> bool" where
  "reopens type st spec \<longleftrightarrow> spec_ok type spec \<and> (\<forall>kvs st'. spec = JObj kvs \<and> opened kvs st' \<longrightarrow> spec_shows type st st')"

lemma artifact_reopens:
  assumes "is_text (sf_creates st)" "specJson ''artifact'' st = Some spec"
  shows "reopens ''artifact'' st spec"
proof -
  obtain kvs where kvs: "spec = JObj kvs" "kvs = put_nn ''creates'' (sf_creates st) (if sf_extract st then [(''extract'', JBool True)] else [])"
    using assms(2) by (simp add: specJson_def)
  have at: "map_of kvs k = (if k = ''creates'' then opt_nn (sf_creates st) else if k = ''extract'' \<and> sf_extract st then Some (JBool True) else None)" for k
    by (simp add: kvs(2) map_of_put_nn)
  have d: "distinct (map fst kvs)" by (simp add: kvs(2) form_distinct)
  have c: "map_of kvs ''creates'' = opt_nn (sf_creates st)" by (simp add: at)
  have "artifact_ok kvs" unfolding artifact_ok_def using field_ok [OF assms(1) c] d by (intro conjI keys_inI) (auto simp: at opt_ok_def)
  moreover have "spec_shows ''artifact'' st st'" if "opened kvs st'" for st'
    using that field_shows [OF assms(1) c] by (simp add: opened_def spec_shows_def at)
  ultimately show ?thesis by (simp add: reopens_def spec_ok_def kvs(1))
qed

definition script_at :: "spec_form \<Rightarrow> string \<Rightarrow> jval option" where
  "script_at st k = (if k = ''url'' then (if sf_src st = ''url'' then opt_nn (sf_url st) else None)
     else if k = ''sha256'' then (if sf_src st = ''url'' then opt_nn (sf_sha256 st) else None)
     else if k = ''body'' then (if sf_src st = ''url'' \<or> blank (sf_body st) then None else Some (sf_body st))
     else if k = ''interpreter'' then opt_nn (sf_interpreter st) else if k = ''run_as'' then Some (sf_run_as st) else None)"

lemma script_written:
  assumes "is_text (sf_body st)"
  shows "\<exists>kvs. script_json st = Some kvs \<and> distinct (map fst kvs) \<and> map_of kvs = script_at st"
proof (cases "sf_src st = ''url''")
  case True
  then show ?thesis by (auto simp: script_json_def script_at_def fun_eq_iff map_of_put map_of_put_nn form_distinct)
next
  case False
  obtain b where b: "sf_body st = JStr b" using assms by (rule textE)
  then show ?thesis using False by (auto simp: script_json_def script_at_def fun_eq_iff map_of_put map_of_put_nn form_distinct blank_def)
qed

definition script_kvs :: "spec_form \<Rightarrow> (string \<times> jval) list \<Rightarrow> bool" where
  "script_kvs st kvs \<longleftrightarrow> spec_filled ''script'' st \<and> distinct (map fst kvs) \<and>
     map_of kvs = (\<lambda>k. if k \<in> set guard_keys then guard_at st k else script_at st k)"

lemma script_kvs_at:
  assumes "script_kvs st kvs"
  shows "map_of kvs ''interpreter'' = opt_nn (sf_interpreter st)" "map_of kvs ''run_as'' = Some (sf_run_as st)"
    "map_of kvs ''url'' = (if sf_src st = ''url'' then opt_nn (sf_url st) else None)"
    "map_of kvs ''sha256'' = (if sf_src st = ''url'' then opt_nn (sf_sha256 st) else None)"
    "map_of kvs ''body'' = (if sf_src st = ''url'' \<or> blank (sf_body st) then None else Some (sf_body st))"
    "\<forall>k\<in>set guard_keys. map_of kvs k = guard_at st k"
    "is_text (sf_creates st)" "is_text (sf_version_check st)" "is_text (sf_body st)" "is_text (sf_url st)" "is_text (sf_sha256 st)"
    "is_text (sf_interpreter st)" "truthy (sf_run_as st)" "sf_src st = ''url'' \<or> sf_src st = ''inline''" "sf_src st = ''url'' \<Longrightarrow> \<not> blank (sf_url st)"
  using assms by (auto simp: script_kvs_def guard_keys_def script_at_def spec_filled_def)

lemma script_shape:
  assumes "script_kvs st kvs"
  shows "script_ok kvs"
proof -
  note at = script_kvs_at [OF assms]
  have "has tidy kvs ''url'' \<and> opt_ok tidy kvs ''sha256'' \<and> map_of kvs ''body'' = None \<or>
      map_of kvs ''url'' = None \<and> map_of kvs ''sha256'' = None \<and> opt_ok (\<lambda>v. case v of JStr t \<Rightarrow> js_trim t \<noteq> [] | _ \<Rightarrow> False) kvs ''body''"
  proof (cases "sf_src st = ''url''")
    case True
    then show ?thesis using at(3-5,15) field_ok [OF at(11), of kvs "''sha256''"] tidy_trimmed [OF at(10)] opt_nn_text [OF at(10)] by (simp add: has_def)
  next
    case False
    then show ?thesis using at(3-5,9) by (auto simp: opt_ok_def blank_def elim!: textE)
  qed
  moreover have "keys_in [''url'', ''sha256'', ''body'', ''interpreter'', ''run_as'', ''env'', ''creates'', ''check'', ''version_check''] kvs"
    using assms by (intro keys_inI) (auto simp: script_kvs_def guard_keys_def script_at_def)
  ultimately show ?thesis unfolding script_ok_def using at(2,13) field_ok [OF at(12,1)] guard_reopens(1) [OF at(7,8,6)] by (simp add: has_def)
qed

lemma script_shown:
  assumes "script_kvs st kvs" "opened kvs st'"
  shows "script_shows st st'"
proof -
  note at = script_kvs_at [OF assms(1)]
  have f: "sf_url st' = text_or (JObj kvs) ''url''" "sf_sha256 st' = text_or (JObj kvs) ''sha256''" "sf_body st' = text_or (JObj kvs) ''body''"
    "sf_interpreter st' = text_or (JObj kvs) ''interpreter''" "sf_src st' = (if truthy (jget (JObj kvs) ''url'') then ''url'' else ''inline'')"
    "sf_run_as st' = sf_run_as st" using assms(2) at(2,13) by (simp_all add: opened_def jor_def)
  show ?thesis
  proof (cases "sf_src st = ''url''")
    case True
    then have u: "map_of kvs ''url'' = opt_nn (sf_url st)" "map_of kvs ''sha256'' = opt_nn (sf_sha256 st)" "\<not> blank (sf_url st)" using at(3,4,15) by simp_all
    have "truthy (jget (JObj kvs) ''url'')" using tidyE [OF tidy_trimmed [OF at(10) u(3)]] opt_nn_text [OF at(10)] u(1,3) by auto
    then show ?thesis unfolding script_shows_def f using True field_shows [OF at(10) u(1)] field_shows [OF at(11) u(2)] field_shows [OF at(12,1)] by simp
  next
    case False
    then have "text_or (JObj kvs) ''body'' = (if blank (sf_body st) then JStr [] else sf_body st)"
      using at(5,9) by (auto simp: text_or_def jor_def blank_def js_trim_def elim!: textE)
    then show ?thesis unfolding script_shows_def f using False at(3,14) field_shows [OF at(12,1)] by simp
  qed
qed

lemma script_reopens:
  assumes "spec_filled ''script'' st"
  shows "\<exists>spec. specJson ''script'' st = Some spec \<and> reopens ''script'' st spec"
proof -
  have "is_text (sf_body st)" using assms by (simp add: spec_filled_def)
  then obtain obj where obj: "script_json st = Some obj" "distinct (map fst obj)" "map_of obj = script_at st" using script_written by blast
  have "map_of (spec_guard st obj) = (\<lambda>k. if k \<in> set guard_keys then guard_at st k else script_at st k)"
    by (rule ext, subst guard_written) (simp_all add: obj(3) guard_keys_def script_at_def)
  then have k: "script_kvs st (spec_guard st obj)" using assms obj(2) by (simp add: script_kvs_def form_distinct)
  note at = script_kvs_at [OF k]
  have "spec_shows ''script'' st st'" if "opened (spec_guard st obj) st'" for st'
    using script_shown [OF k that] guard_reopens(2) [OF at(7,8,6) that] by (simp add: spec_shows_def)
  then show ?thesis using obj(1) script_shape [OF k] by (simp add: reopens_def spec_ok_def specJson_def)
qed

lemma source_written:
  assumes "spec_filled ''build'' st"
  shows "\<exists>kvs. source_json st = Some (JObj kvs) \<and> source_ok (JObj kvs) \<and>
    (\<forall>st'. sf_bsrc st' = (if truthy (jget (JObj kvs) ''tarball'') then ''tarball'' else ''git'') \<and> sf_git st' = text_or (JObj kvs) ''git'' \<and>
      sf_tag st' = text_or (JObj kvs) ''tag'' \<and> sf_tarball st' = text_or (JObj kvs) ''tarball'' \<and> sf_tsha st' = text_or (JObj kvs) ''sha256''
      \<longrightarrow> source_shows st st')"
proof -
  obtain g t b h where tx: "sf_git st = JStr g" "sf_tag st = JStr t" "sf_tarball st = JStr b" "sf_tsha st = JStr h"
    using assms by (auto simp: spec_filled_def elim!: textE)
  consider (git) "sf_bsrc st = ''git''" "js_trim g \<noteq> []" | (tar) "sf_bsrc st = ''tarball''" "js_trim b \<noteq> []" "js_trim h \<noteq> []"
    using assms tx by (auto simp: spec_filled_def blank_def)
  then show ?thesis
  proof cases
    case git
    then show ?thesis using tx
      by (cases "js_trim t = []") (simp_all add: source_json_def source_ok_def keys_in_def has_def opt_ok_def tidy_def trim_idem source_shows_def
        trimmed_def text_or_def jor_def)
  next
    case tar
    then show ?thesis using tx
      by (simp add: source_json_def source_ok_def keys_in_def has_def tidy_def trim_idem source_shows_def trimmed_def text_or_def jor_def)
  qed
qed

definition build_at :: "spec_form \<Rightarrow> jval \<Rightarrow> string \<Rightarrow> jval option" where
  "build_at st src k = (if k = ''source'' then Some src else if k = ''system'' then Some (sf_system st)
     else if k = ''configure_args'' then opt_lines (sf_configure st) else if k = ''prefix'' then opt_nn (sf_prefix st)
     else if k = ''build'' \<and> sf_system st = JStr ''custom'' then opt_nn (sf_build st)
     else if k = ''install'' \<and> sf_system st = JStr ''custom'' then opt_nn (sf_install st) else None)"

lemma build_written:
  "source_json st = Some src \<Longrightarrow> \<exists>kvs. build_json st = Some kvs \<and> distinct (map fst kvs) \<and> map_of kvs = build_at st src"
  by (auto simp: build_json_def build_at_def fun_eq_iff map_of_put_nn map_of_lines_field form_distinct Let_def)

definition build_kvs :: "spec_form \<Rightarrow> jval \<Rightarrow> (string \<times> jval) list \<Rightarrow> bool" where
  "build_kvs st src kvs \<longleftrightarrow> spec_filled ''build'' st \<and> distinct (map fst kvs) \<and>
     map_of kvs = (\<lambda>k. if k \<in> set guard_keys then guard_at st k else build_at st src k)"

lemma build_kvs_at:
  assumes "build_kvs st src kvs"
  shows "map_of kvs ''source'' = Some src" "map_of kvs ''system'' = Some (sf_system st)" "map_of kvs ''configure_args'' = opt_lines (sf_configure st)"
    "map_of kvs ''prefix'' = opt_nn (sf_prefix st)" "\<forall>k\<in>set guard_keys. map_of kvs k = guard_at st k"
    "map_of kvs ''build'' = (if sf_system st = JStr ''custom'' then opt_nn (sf_build st) else None)"
    "map_of kvs ''install'' = (if sf_system st = JStr ''custom'' then opt_nn (sf_install st) else None)"
    "is_text (sf_creates st)" "is_text (sf_version_check st)" "is_text (sf_prefix st)" "is_text (sf_build st)" "is_text (sf_install st)" "truthy (sf_system st)"
  using assms by (auto simp: build_kvs_def guard_keys_def build_at_def spec_filled_def)

lemma build_shape:
  assumes "build_kvs st src kvs" "source_ok src"
  shows "build_ok kvs"
proof -
  note at = build_kvs_at [OF assms(1)]
  have "keys_in [''source'', ''system'', ''configure_args'', ''prefix'', ''build'', ''install'', ''env'', ''creates'', ''check'', ''version_check''] kvs"
    using assms by (intro keys_inI) (auto simp: build_kvs_def guard_keys_def build_at_def)
  then show ?thesis unfolding build_ok_def
    using assms(2) at(1,2,6,7,13) field_ok [OF at(11)] field_ok [OF at(12)] field_ok [OF at(10,4)] lines_ok [OF at(3)] guard_reopens(1) [OF at(8,9,5)]
    by (simp add: has_def)
qed

lemma build_shown:
  assumes "build_kvs st (JObj skvs) kvs" "opened kvs st'" "source_shows st st'"
  shows "build_shows st st'"
proof -
  note at = build_kvs_at [OF assms(1)]
  have f: "sf_prefix st' = text_or (JObj kvs) ''prefix''" "sf_build st' = text_or (JObj kvs) ''build''" "sf_install st' = text_or (JObj kvs) ''install''"
    "sf_system st' = sf_system st" "join_v [CHR 10] (jor (jget (JObj kvs) ''configure_args'') (JArr [])) = Some (sf_configure st')"
    using assms(2) at(2,13) by (simp_all add: opened_def jor_def)
  show ?thesis unfolding build_shows_def f(1-4)
    using assms(3) lines_show [OF at(3) f(5)] field_shows [OF at(10,4)] field_shows [OF at(11), of kvs] field_shows [OF at(12), of kvs] at(6,7) by simp
qed

lemma build_reopens:
  assumes "spec_filled ''build'' st"
  shows "\<exists>spec. specJson ''build'' st = Some spec \<and> reopens ''build'' st spec"
proof -
  obtain s where s: "source_json st = Some (JObj s)" "source_ok (JObj s)"
    "\<And>st'. sf_bsrc st' = (if truthy (jget (JObj s) ''tarball'') then ''tarball'' else ''git'') \<Longrightarrow> sf_git st' = text_or (JObj s) ''git'' \<Longrightarrow>
      sf_tag st' = text_or (JObj s) ''tag'' \<Longrightarrow> sf_tarball st' = text_or (JObj s) ''tarball'' \<Longrightarrow> sf_tsha st' = text_or (JObj s) ''sha256''
      \<Longrightarrow> source_shows st st'" using source_written [OF assms] by blast
  obtain obj where obj: "build_json st = Some obj" "distinct (map fst obj)" "map_of obj = build_at st (JObj s)" using build_written [OF s(1)] by blast
  have "map_of (spec_guard st obj) = (\<lambda>k. if k \<in> set guard_keys then guard_at st k else build_at st (JObj s) k)"
    by (rule ext, subst guard_written) (simp_all add: obj(3) guard_keys_def build_at_def)
  then have k: "build_kvs st (JObj s) (spec_guard st obj)" using assms obj(2) by (simp add: build_kvs_def form_distinct)
  note at = build_kvs_at [OF k]
  have "spec_shows ''build'' st st'" if o: "opened (spec_guard st obj) st'" for st'
  proof -
    have "jor (jget (JObj (spec_guard st obj)) ''source'') (JObj []) = JObj s" using at(1) by (simp add: jor_def)
    then have "source_shows st st'" using o by (intro s(3)) (simp_all add: opened_def Let_def del: jget.simps)
    then show ?thesis using build_shown [OF k o] guard_reopens(2) [OF at(8,9,5) o] by (simp add: spec_shows_def)
  qed
  then show ?thesis using obj(1) build_shape [OF k s(2)] by (simp add: reopens_def spec_ok_def specJson_def)
qed

definition opt_words :: "string \<Rightarrow> jval option" where
  "opt_words t = (if words_of t = [] then None else Some (JArr (map JStr (words_of t))))"

lemma words_ok: "map_of kvs k = opt_words t \<Longrightarrow> opt_ok tidy_words kvs k"
  using words_of_tidy [of _ t] by (auto simp: opt_ok_def opt_words_def tidy_words_def list_all_iff)

lemma words_show:
  assumes "map_of kvs k = opt_words t" "join_v '' '' (jor (jget (JObj kvs) k) (JArr [])) = Some t'"
  shows "words_of t' = words_of t"
proof -
  have j: "words_of (join_str '' '' (words_of t)) = words_of t" using words_of_tidy by (intro words_of_join) blast
  have "t' = join_str '' '' (words_of t)" using assms by (auto simp: opt_words_def jor_def comp_def split: if_splits)
  then show ?thesis using j by simp
qed

definition block_at :: "repo_form \<Rightarrow> string \<Rightarrow> jval option" where
  "block_at r k = (if k = ''url'' then opt_nn (rf_url r) else if k = ''key_url'' then opt_nn (rf_key_url r)
     else if k = ''fingerprint'' then opt_nn (rf_fingerprint r) else if k = ''suite'' then opt_nn (rf_suite r)
     else if k = ''components'' then opt_words (rf_components r) else None)"

lemma block_written:
  assumes "is_text (rf_suite r)"
  shows "\<exists>kvs. repo_json f r = Some (JObj kvs) \<and> distinct (map fst kvs) \<and> map_of kvs = block_at r"
proof -
  let ?x = "put_nn ''suite'' (rf_suite r) (put_nn ''fingerprint'' (rf_fingerprint r) (put_nn ''key_url'' (rf_key_url r) (put_nn ''url'' (rf_url r) [])))"
  let ?kvs = "if words_of (rf_components r) = [] then ?x else put ''components'' (JArr (map JStr (words_of (rf_components r)))) ?x"
  obtain t where t: "rf_suite r = JStr t" using assms by (rule textE)
  have "put_nn ''suite'' (rf_suite r) x = x" if "js_trim t = []" for x using that by (simp add: t put_nn_def)
  then have "repo_json f r = Some (JObj ?kvs)" by (cases "js_trim t = []"; cases "f = ''debian''") (simp_all add: repo_json_def Let_def t)
  moreover have "map_of ?kvs = block_at r" by (rule ext) (simp add: block_at_def opt_words_def map_of_put map_of_put_nn)
  ultimately show ?thesis by (simp add: form_distinct)
qed

lemma block_reopens:
  assumes "repo_texts r"
  shows "\<exists>b. repo_json f r = Some b \<and> block_ok b \<and> (\<forall>r'. rf_on r \<and> repoState b = Some r' \<longrightarrow> repo_shows r r')"
proof -
  have t: "is_text (rf_url r)" "is_text (rf_key_url r)" "is_text (rf_fingerprint r)" "is_text (rf_suite r)" using assms by (simp_all add: repo_texts_def)
  obtain kvs where k: "repo_json f r = Some (JObj kvs)" "distinct (map fst kvs)" "map_of kvs = block_at r" using block_written [OF t(4)] by blast
  have at: "map_of kvs ''url'' = opt_nn (rf_url r)" "map_of kvs ''key_url'' = opt_nn (rf_key_url r)" "map_of kvs ''fingerprint'' = opt_nn (rf_fingerprint r)"
    "map_of kvs ''suite'' = opt_nn (rf_suite r)" "map_of kvs ''components'' = opt_words (rf_components r)" by (simp_all add: k(3) block_at_def)
  have "keys_in [''url'', ''key_url'', ''fingerprint'', ''suite'', ''components''] kvs" using k(2) by (intro keys_inI) (auto simp: k(3) block_at_def)
  then have "block_ok (JObj kvs)"
    using field_ok [OF t(1) at(1)] field_ok [OF t(2) at(2)] field_ok [OF t(3) at(3)] field_ok [OF t(4) at(4)] words_ok [OF at(5)] by (simp add: block_ok_def)
  moreover have "repo_shows r r'" if "rf_on r" "repoState (JObj kvs) = Some r'" for r'
    using that words_show [OF at(5)] field_shows [OF t(1) at(1)] field_shows [OF t(2) at(2)] field_shows [OF t(3) at(3)] field_shows [OF t(4) at(4)]
    by (auto simp: repoState_def repo_shows_def simp del: jget.simps)
  ultimately show ?thesis using k(1) by blast
qed

lemma repos_written:
  "\<forall>f\<in>set fs. repo_json f (sf_repo st f) \<noteq> None \<Longrightarrow>
   repos_json fs st = Some (map (\<lambda>f. (f, the (repo_json f (sf_repo st f)))) (filter (\<lambda>f. rf_on (sf_repo st f)) fs))"
  by (induction fs) auto

lemma opened_repo: "opened kvs st' \<Longrightarrow> f \<in> set FAMS \<Longrightarrow> repoState (jget (JObj kvs) f) = Some (sf_repo st' f)"
  unfolding opened_def by blast

lemma repo_reopens:
  assumes "spec_filled ''repo'' st"
  shows "\<exists>spec. specJson ''repo'' st = Some spec \<and> reopens ''repo'' st spec"
proof -
  let ?b = "\<lambda>f. the (repo_json f (sf_repo st f))" and ?on = "filter (\<lambda>f. rf_on (sf_repo st f)) FAMS"
  let ?kvs = "map (\<lambda>f. (f, ?b f)) ?on"
  have b: "repo_json f (sf_repo st f) \<noteq> None" "block_ok (?b f)" "rf_on (sf_repo st f) \<Longrightarrow> repoState (?b f) = Some r' \<Longrightarrow> repo_shows (sf_repo st f) r'"
    if "f \<in> set FAMS" for f r'
    using block_reopens [of "sf_repo st f" f] assms that by (auto simp: spec_filled_def list_all_iff)
  have w: "repos_json FAMS st = Some ?kvs" using b(1) by (intro repos_written) blast
  have at: "map_of ?kvs f = (if f \<in> set FAMS \<and> rf_on (sf_repo st f) then Some (?b f) else None)" for f by (simp add: map_of_map_restrict restrict_map_def)
  have "distinct FAMS" by (simp add: FAMS_def)
  then have "repo_ok ?kvs" using b(2) by (auto simp: repo_ok_def keys_in_def list_all_iff comp_def)
  moreover have "spec_shows ''repo'' st st'" if o: "opened ?kvs st'" for st'
  proof -
    have "repo_shows (sf_repo st f) (sf_repo st' f)" if f: "f \<in> set FAMS" for f
    proof (cases "rf_on (sf_repo st f)")
      case True
      then have "repoState (?b f) = Some (sf_repo st' f)" using opened_repo [OF o f] at [of f] f by simp
      then show ?thesis using b(3) [OF f True] by blast
    next
      case False
      then have "sf_repo st' f = emptyRepo" using opened_repo [OF o f] at [of f] by (simp add: repoState_def)
      then show ?thesis using False by (simp add: repo_shows_def emptyRepo_def)
    qed
    then show ?thesis by (simp add: spec_shows_def list_all_iff)
  qed
  ultimately show ?thesis using w by (simp add: reopens_def spec_ok_def specJson_def)
qed

lemma spec_reopens:
  assumes "type \<in> set ITEM_TYPES" "spec_filled type st"
  shows "\<exists>spec. specJson type st = Some spec \<and> reopens type st spec"
proof -
  have "\<exists>spec. specJson ''artifact'' st = Some spec" "is_text (sf_creates st)" using assms(2) by (simp_all add: specJson_def spec_filled_def)
  then have "type = ''artifact'' \<Longrightarrow> ?thesis" using artifact_reopens by blast
  moreover have "type = ''pkg'' \<or> type = ''role'' \<Longrightarrow> ?thesis" by (auto simp: specJson_def reopens_def spec_ok_def)
  moreover have "type \<in> {''artifact'', ''pkg'', ''role'', ''script'', ''build'', ''repo''}" using assms(1) by (auto simp: ITEM_TYPES_def)
  ultimately show ?thesis using assms(2) script_reopens build_reopens repo_reopens by blast
qed

lemma specState_SomeD:
  assumes "specState (JObj kvs) = Some st"
  shows "opened kvs st"
proof -
  have j: "jor (JObj kvs) (JObj []) = JObj kvs" by (simp add: jor_def)
  note d = assms [unfolded specState_def Let_def j]
  obtain rs where 1: "repoState (jget (JObj kvs) ''suse'') = Some rs" using d by (cases "repoState (jget (JObj kvs) ''suse'')") (simp_all del: jget.simps)
  obtain rd where 2: "repoState (jget (JObj kvs) ''debian'') = Some rd" using d 1 by (cases "repoState (jget (JObj kvs) ''debian'')") (simp_all del: jget.simps)
  obtain rf where 3: "repoState (jget (JObj kvs) ''fedora'') = Some rf" using d 1 2 by (cases "repoState (jget (JObj kvs) ''fedora'')") (simp_all del: jget.simps)
  obtain c where 4: "join_v [CHR 10] (jor (jget (JObj kvs) ''check'') (JArr [])) = Some c"
    using d 1 2 3 by (cases "join_v [CHR 10] (jor (jget (JObj kvs) ''check'') (JArr []))") (simp_all del: jget.simps)
  obtain g where 5: "join_v [CHR 10] (jor (jget (JObj kvs) ''configure_args'') (JArr [])) = Some g"
    using d 1 2 3 4 by (cases "join_v [CHR 10] (jor (jget (JObj kvs) ''configure_args'') (JArr []))") (simp_all del: jget.simps)
  have "\<exists>st. specState (JObj kvs) = Some st \<and> opened kvs st"
    unfolding specState_def opened_def by (simp add: 1 2 3 4 5 j Let_def FAMS_def del: jget.simps)
  then show ?thesis using assms by simp
qed

lemma reopens_shown:
  assumes "reopens type st spec" "specState spec = Some st'" "type \<in> set ITEM_TYPES"
  shows "spec_shows type st st'"
proof (cases "type = ''pkg'' \<or> type = ''role''")
  case False
  then obtain kvs where k: "spec = JObj kvs" using assms(1) by (cases spec) (auto simp: reopens_def spec_ok_def)
  have "opened kvs st'" using specState_SomeD assms(2) k by simp
  then show ?thesis using assms(1) k by (simp add: reopens_def)
qed (auto simp: spec_shows_def)

subsection \<open>The entry\<close>

definition holds :: "(string \<times> jval) list \<Rightarrow> (string \<times> jval) list \<Rightarrow> bool" where
  "holds stored body \<longleftrightarrow> list_all (\<lambda>(k, v). map_of stored k = Some v) body"

lemma body_stored:
  assumes "form_filled type f" "swBody f spec = Some body" "holds stored body"
  shows "map_of stored ''logical_name'' = Some (trimmed (wf_logical f))" "map_of stored ''item_type'' = Some (JStr type)"
    "x \<in> set FAMS \<Longrightarrow> map_of stored (''name_'' @ x) = Some (if type = ''pkg'' then nn (wf_names f x) else if wf_support f x then JStr ''='' else JNull)"
    "map_of stored ''applies_families'' = Some (wf_families f)" "map_of stored ''applies_arches'' = Some (wf_arches f)"
    "map_of stored ''ansible_role'' = Some (if type = ''role'' then nn (wf_role f) else JNull)" "map_of stored ''source_url'' = Some (nn (wf_source f))"
    "map_of stored ''version_pin'' = Some (nn (wf_pin f))" "map_of stored ''spec'' = Some spec" "map_of stored ''notes'' = Some (nn (wf_notes f))"
proof -
  have "wf_type f = JStr type" using assms(1) by (simp add: form_filled_def)
  moreover obtain n where "wf_logical f = JStr n" using assms(1) by (auto simp: form_filled_def elim!: textE)
  ultimately have b: "body = [(''logical_name'', trimmed (wf_logical f)), (''item_type'', JStr type)] @
     map (\<lambda>x. (''name_'' @ x, if type = ''pkg'' then nn (wf_names f x) else if wf_support f x then JStr ''='' else JNull)) FAMS @
     [(''applies_families'', wf_families f), (''applies_arches'', wf_arches f), (''ansible_role'', if type = ''role'' then nn (wf_role f) else JNull),
      (''source_url'', nn (wf_source f)), (''version_pin'', nn (wf_pin f)), (''spec'', spec), (''notes'', nn (wf_notes f))]"
    using assms(2) by (simp add: swBody_def trimmed_def)
  have h: "map_of stored k = Some v" if "(k, v) \<in> set body" for k v using that assms(3) by (auto simp: holds_def list_all_iff)
  show "map_of stored (''name_'' @ x) = Some (if type = ''pkg'' then nn (wf_names f x) else if wf_support f x then JStr ''='' else JNull)" if "x \<in> set FAMS"
    by (rule h) (use that in \<open>simp add: b\<close>)
  show "map_of stored ''logical_name'' = Some (trimmed (wf_logical f))" "map_of stored ''item_type'' = Some (JStr type)"
    "map_of stored ''applies_families'' = Some (wf_families f)" "map_of stored ''applies_arches'' = Some (wf_arches f)"
    "map_of stored ''ansible_role'' = Some (if type = ''role'' then nn (wf_role f) else JNull)" "map_of stored ''source_url'' = Some (nn (wf_source f))"
    "map_of stored ''version_pin'' = Some (nn (wf_pin f))" "map_of stored ''spec'' = Some spec" "map_of stored ''notes'' = Some (nn (wf_notes f))"
    by (rule h, simp add: b)+
qed

lemma nn_shows:
  assumes "is_text v" "map_of stored k = Some (nn v)"
  shows "text_field (JObj stored) k" "text_or (JObj stored) k = trimmed v"
  using assms tidyE [OF tidy_trimmed [OF assms(1)]]
  by (auto simp: text_field_def text_or_def jor_def tidy_def blank_def trimmed_def trim_idem split: if_splits elim!: textE)

lemma body_row_ok:
  assumes "form_filled type f" "swBody f spec = Some body" "holds stored body" "spec_ok type spec"
  shows "row_ok type (JObj stored)"
proof -
  note b = body_stored [OF assms(1-3)]
  have t: "type \<in> set ITEM_TYPES" "tidy (trimmed (wf_logical f))" "is_text (wf_role f)" "is_text (wf_source f)" "is_text (wf_pin f)" "is_text (wf_notes f)"
    and n: "\<And>x. x \<in> set FAMS \<Longrightarrow> is_text (wf_names f x)"
    and a: "\<And>v. v \<in> {wf_families f, wf_arches f} \<Longrightarrow> nullish v \<or> truthy v"
    using assms(1) by (auto simp: form_filled_def list_all_iff tidy_trimmed nullish_def split: jval.splits)
  have "if type = ''pkg'' then text_field (JObj stored) (''name_'' @ x) else nullish (jget (JObj stored) (''name_'' @ x)) \<or> jget (JObj stored) (''name_'' @ x) = JStr ''=''"
    if "x \<in> set FAMS" for x using nn_shows(1) [OF n [OF that], of stored] b(3) [OF that] by (auto simp: nullish_def)
  moreover have "if type = ''role'' then text_field (JObj stored) ''ansible_role'' else nullish (jget (JObj stored) ''ansible_role'')"
    using nn_shows(1) [OF t(3), of stored] b(6) by (simp add: nullish_def)
  moreover have "jget (JObj stored) ''logical_name'' = trimmed (wf_logical f)" "jget (JObj stored) ''item_type'' = JStr type" "jget (JObj stored) ''spec'' = spec"
    "jget (JObj stored) ''applies_families'' = wf_families f" "jget (JObj stored) ''applies_arches'' = wf_arches f" using b(1,2,4,5,9) by simp_all
  ultimately show ?thesis unfolding row_ok_def
    using t(1,2) assms(4) a nn_shows(1) [OF t(4) b(7)] nn_shows(1) [OF t(5) b(8)] nn_shows(1) [OF t(6) b(10)]
    by (simp add: list_all_iff del: jget.simps append.simps)
qed

lemma body_form_shows:
  assumes "form_filled type f" "swBody f spec = Some body" "holds stored body" "row_ok type (JObj stored)"
  shows "form_shows f (swForm (JObj stored))"
proof -
  note b = body_stored [OF assms(1-3)] and r = form_reads [OF assms(4)]
  have t: "wf_type f = JStr type" "is_text (wf_logical f)" "\<not> blank (wf_logical f)" "is_text (wf_role f)" "is_text (wf_source f)" "is_text (wf_pin f)" "is_text (wf_notes f)"
    and n: "\<And>x. x \<in> set FAMS \<Longrightarrow> is_text (wf_names f x)"
    and a: "\<And>v. v \<in> {wf_families f, wf_arches f} \<Longrightarrow> jor v JNull = v"
    using assms(1) by (auto simp: form_filled_def list_all_iff jor_def split: jval.splits)
  have w: "wf_logical (swForm (JObj stored)) = text_or (JObj stored) ''logical_name''" "wf_families (swForm (JObj stored)) = jor (wf_families f) JNull"
    "wf_arches (swForm (JObj stored)) = jor (wf_arches f) JNull" "wf_role (swForm (JObj stored)) = text_or (JObj stored) ''ansible_role''"
    "wf_source (swForm (JObj stored)) = text_or (JObj stored) ''source_url''" "wf_pin (swForm (JObj stored)) = text_or (JObj stored) ''version_pin''"
    "wf_notes (swForm (JObj stored)) = text_or (JObj stored) ''notes''"
    using r(1) b(4,5) by (simp_all add: swForm_def Let_def)
  have l: "text_or (JObj stored) ''logical_name'' = trimmed (wf_logical f)"
    using b(1) tidyE [OF tidy_trimmed [OF t(2,3)]] by (auto simp: text_or_def jor_def)
  have nm: "if wf_type f = JStr ''pkg'' then wf_names (swForm (JObj stored)) x = trimmed (wf_names f x) else wf_support (swForm (JObj stored)) x = wf_support f x"
    if "x \<in> set FAMS" for x
    using nn_shows(2) [OF n [OF that], of stored] b(3) [OF that] unfolding r t(1) by (auto simp: nullish_def)
  have "type = ''role'' \<Longrightarrow> text_or (JObj stored) ''ansible_role'' = trimmed (wf_role f)" using nn_shows(2) [OF t(4)] b(6) by simp
  then show ?thesis unfolding form_shows_def w r(3) using nm l a t(1) nn_shows(2) [OF t(5) b(7)] nn_shows(2) [OF t(6) b(8)] nn_shows(2) [OF t(7) b(10)]
    by (simp add: list_all_iff)
qed

text \<open>Property C10. What the operator enters in the editor of a pool entry comes back: for each of the six item types, and a
  form whose name, remote script address and build source are filled in, the spec and the body are formed without
  an exception, and a stored row that holds the body (among other fields) opens as a form that shows the same
  entries (texts trimmed, argument lists line by line) and sends nothing when it is saved unchanged.\<close>

theorem saved_entry_reopens:
  assumes "form_filled type f" "spec_filled type st"
  shows "\<exists>spec body. specJson type st = Some spec \<and> swBody f spec = Some body \<and>
    (\<forall>stored. holds stored body \<longrightarrow>
      (\<exists>st'. specState (jget (JObj stored) ''spec'') = Some st' \<and> spec_shows type st st') \<and>
      form_shows f (swForm (JObj stored)) \<and> saveDiff (JObj stored) = Some [])"
proof -
  have type: "type \<in> set ITEM_TYPES" using assms(1) by (simp add: form_filled_def)
  obtain spec where spec: "specJson type st = Some spec" "reopens type st spec" using spec_reopens [OF type assms(2)] by blast
  obtain body where body: "swBody f spec = Some body" using assms(1) by (auto simp: form_filled_def swBody_def elim!: textE)
  have ok: "spec_ok type spec" using spec(2) by (simp add: reopens_def)
  obtain st' where st': "specState spec = Some st'" using spec_trip [OF ok] by blast
  have "(\<exists>st'. specState (jget (JObj stored) ''spec'') = Some st' \<and> spec_shows type st st') \<and>
      form_shows f (swForm (JObj stored)) \<and> saveDiff (JObj stored) = Some []" if h: "holds stored body" for stored
  proof -
    have row: "row_ok type (JObj stored)" by (rule body_row_ok [OF assms(1) body h ok])
    have "jget (JObj stored) ''spec'' = spec" using body_stored(9) [OF assms(1) body h] by simp
    then show ?thesis
      using st' reopens_shown [OF spec(2) st' type] body_form_shows [OF assms(1) body h row] untouched_entry_saves_nothing [OF row] by simp
  qed
  then show ?thesis using spec(1) body by blast
qed

definition sample_form :: sw_form where
  "sample_form = \<lparr>wf_logical = JStr '' htop '', wf_type = JStr ''build'', wf_names = (\<lambda>f. JStr []), wf_support = (\<lambda>f. f \<noteq> ''fedora''),
     wf_families = JNull, wf_arches = JArr [JStr ''arm64''], wf_role = JStr [], wf_source = JStr [], wf_pin = JStr ''3.3.0'', wf_notes = JStr [] \<rparr>"

definition sample_spec :: spec_form where
  "sample_spec = (the (specState JNull))\<lparr>sf_git := JStr ''https://git.example/htop'', sf_tag := JStr '' 3.3.0 '', sf_check := ''htop'' @ [CHR 10] @ ''--version''\<rparr>"

lemma sample_filled: "form_filled ''build'' sample_form" "spec_filled ''build'' sample_spec"
  by code_simp+

theorem saved_entry_reopens_witness:
  "\<exists>spec body. specJson ''build'' sample_spec = Some spec \<and> swBody sample_form spec = Some body \<and>
    (\<exists>st'. specState (jget (JObj body) ''spec'') = Some st' \<and> sf_tag st' = JStr ''3.3.0'') \<and> saveDiff (JObj body) = Some []"
proof -
  obtain spec body where b: "specJson ''build'' sample_spec = Some spec" "swBody sample_form spec = Some body"
    and r: "\<And>stored. holds stored body \<Longrightarrow>
      (\<exists>st'. specState (jget (JObj stored) ''spec'') = Some st' \<and> spec_shows ''build'' sample_spec st') \<and>
      form_shows sample_form (swForm (JObj stored)) \<and> saveDiff (JObj stored) = Some []"
    using saved_entry_reopens [OF sample_filled] by blast
  have "holds body body" using b(2) by (auto simp: swBody_def holds_def FAMS_def)
  moreover have "sf_bsrc sample_spec = ''git'' \<and> trimmed (sf_tag sample_spec) = JStr ''3.3.0''" by code_simp
  then have "sf_tag st' = JStr ''3.3.0''" if "spec_shows ''build'' sample_spec st'" for st'
    using that by (simp add: spec_shows_def build_shows_def source_shows_def)
  ultimately show ?thesis using b r [of body] by blast
qed

end
