(* ===== verification/FleetView.thy ===== *)
theory FleetView
  imports ApiWire
begin

section \<open>Fleet overview: freshness, roles, attention\<close>

text \<open>
  \<open>screens.jsx\<close>: the freshness badge of a page (\<open>coreFreshness\<close>, \<open>freshnessSources\<close>,
  \<open>summarizeFreshness\<close>), the role gates (\<open>opRole\<close>, \<open>canOperate\<close>, \<open>canAdmin\<close>) and what they offer
  (\<open>LifecycleActions\<close>, \<open>CriticalityControl\<close>), the attention list (\<open>buildAttention\<close>) and the filters and
  groups of the overview.  Node identifiers are the texts they have as object keys.  The headline of an
  attention row is a value of a datatype, its subline a text.  Lemmas: a badge is no fresher than its weakest source;
  the attention list is empty exactly when nothing it looks at is wrong, is ranked, and covers each alert on a node.
\<close>

subsection \<open>Freshness\<close>

record source =
  fs_label :: string
  fs_state :: string
  fs_success :: "real option"
  fs_attempt :: "real option"

definition FRESH_RANK :: "string \<Rightarrow> nat option" where
  "FRESH_RANK st = (if st = ''fresh'' then Some 0 else if st = ''unknown'' then Some 1 else if st = ''stale'' then Some 2 else None)"

text \<open>The numbers of the model that are times; 0 counts as absent.\<close>

definition time_of :: "jval \<Rightarrow> real option" where
  "time_of v = (case v of JNum t \<Rightarrow> if t = 0 then None else Some t | _ \<Rightarrow> None)"

definition coreFreshness :: "jval \<Rightarrow> source" where
  "coreFreshness s = (let src = jget s ''source'' in
     \<lparr>fs_label = ''Core fleet data'',
      fs_state = (if src = JStr ''live'' then ''fresh'' else if src = JStr ''stale'' then ''stale'' else ''unknown''),
      fs_success = (if src = JStr ''live'' \<or> src = JStr ''stale'' then time_of (jget s ''lastLiveAt'') else None),
      fs_attempt = time_of (jget s ''lastAttemptAt'')\<rparr>)"

text \<open>An optional integration: its entry in \<open>freshness\<close>, or unknown.\<close>

definition optionFreshness :: "jval \<Rightarrow> string \<Rightarrow> source" where
  "optionFreshness s k = (let f = jget (jget s ''freshness'') k in
     if truthy f then \<lparr>fs_label = (if jget f ''label'' = JUndef then k else js_String (jget f ''label'')), fs_state = js_String (jget f ''state''),
       fs_success = time_of (jget f ''lastSuccess''), fs_attempt = time_of (jget f ''lastAttempt'')\<rparr>
     else \<lparr>fs_label = k, fs_state = ''unknown'', fs_success = None, fs_attempt = None\<rparr>)"

definition freshnessSources :: "jval \<Rightarrow> string list option \<Rightarrow> source list" where
  "freshnessSources s keys = map (\<lambda>k. if k = ''core'' then coreFreshness s else optionFreshness s k)
     (case keys of Some ks \<Rightarrow> ks | None \<Rightarrow> [''core''])"

definition freshAge :: "real \<Rightarrow> string" where
  "freshAge ms = (let s = max 0 \<lfloor>ms / 1000\<rfloor> in
     if s < 60 then int_str s @ ''s'' else if s < 3600 then int_str (s div 60) @ ''m''
     else if s < 86400 then int_str (s div 3600) @ ''h'' else int_str (s div 86400) @ ''d'')"

text \<open>One source: its effective state and whether it is overdue.\<close>

definition effective :: "real \<Rightarrow> real \<Rightarrow> source \<Rightarrow> string \<times> bool" where
  "effective now maxAge src = (let st = (if FRESH_RANK (fs_state src) \<noteq> None then fs_state src else ''unknown'');
       overdue = (st = ''fresh'' \<and> (case fs_success src of None \<Rightarrow> True | Some t \<Rightarrow> maxAge \<le> now - t \<or> now - t < 0))
     in (if overdue then if fs_success src \<noteq> None then ''stale'' else ''unknown'' else st, overdue))"

definition worse :: "string \<Rightarrow> string \<Rightarrow> string" where
  "worse state st = (if the (FRESH_RANK state) < the (FRESH_RANK st) then st else state)"

definition older :: "real option \<Rightarrow> real option \<Rightarrow> real option" where
  "older oldest t = (case t of None \<Rightarrow> oldest | Some x \<Rightarrow> (case oldest of None \<Rightarrow> Some x | Some y \<Rightarrow> if x < y then Some x else Some y))"

definition summarizeFreshness :: "source list \<Rightarrow> real \<Rightarrow> real \<Rightarrow> string \<times> real option \<times> (source \<times> string \<times> bool) list" where
  "summarizeFreshness sources now maxAge =
     (let (state, oldest) = fold (\<lambda>src (state, oldest). (worse state (fst (effective now maxAge src)), older oldest (fs_success src))) sources (''fresh'', None)
      in (state, if state = ''unknown'' then None else oldest, map (\<lambda>src. (src, effective now maxAge src)) sources))"

lemma effective_rank: "FRESH_RANK (fst (effective now m src)) \<noteq> None"
  by (auto simp: effective_def Let_def FRESH_RANK_def)

lemma effective_fresh:
  "fst (effective now m src) = ''fresh'' \<longleftrightarrow> fs_state src = ''fresh'' \<and> (\<exists>t. fs_success src = Some t \<and> t \<le> now \<and> now - t < m)"
  by (auto simp: effective_def Let_def FRESH_RANK_def split: option.splits if_splits)

lemma worse_rank: "FRESH_RANK a \<noteq> None \<Longrightarrow> FRESH_RANK b \<noteq> None \<Longrightarrow>
  FRESH_RANK (worse a b) = Some (max (the (FRESH_RANK a)) (the (FRESH_RANK b)))"
  by (auto simp: worse_def)

definition rank_of :: "string \<Rightarrow> nat" where
  "rank_of st = the (FRESH_RANK st)"

lemma older_le: "older a b = Some x \<Longrightarrow> (\<forall>y. a = Some y \<or> b = Some y \<longrightarrow> x \<le> y) \<and> (a = Some x \<or> b = Some x)"
  by (auto simp: older_def split: option.splits if_splits)

lemma older_None: "older a b = None \<longleftrightarrow> a = None \<and> b = None"
  by (auto simp: older_def split: option.splits)

lemma fold_parts:
  "fold (\<lambda>src (a, b). (f a src, g b src)) xs (a0, b0) = (fold (\<lambda>src a. f a src) xs a0, fold (\<lambda>src b. g b src) xs b0)"
  by (induction xs arbitrary: a0 b0) auto

lemma fold_worse:
  assumes "FRESH_RANK st0 \<noteq> None"
  shows "FRESH_RANK (fold (\<lambda>src st. worse st (fst (effective now m src))) sources st0) \<noteq> None \<and>
    (let st = fold (\<lambda>src st. worse st (fst (effective now m src))) sources st0 in
      rank_of st0 \<le> rank_of st \<and> (\<forall>src\<in>set sources. rank_of (fst (effective now m src)) \<le> rank_of st) \<and>
      (st = st0 \<or> (\<exists>src\<in>set sources. st = fst (effective now m src))))"
  using assms
proof (induction sources arbitrary: st0)
  case (Cons src sources)
  let ?e = "fst (effective now m src)"
  have "FRESH_RANK (worse st0 ?e) \<noteq> None" "rank_of (worse st0 ?e) = max (rank_of st0) (rank_of ?e)"
    using worse_rank [OF Cons.prems effective_rank] by (simp_all add: rank_of_def)
  moreover have "worse st0 ?e = st0 \<or> worse st0 ?e = ?e" by (simp add: worse_def)
  ultimately show ?case using Cons.IH [of "worse st0 ?e"] by (auto simp: Let_def)
qed simp

lemma fold_older:
  assumes "o0 = Some y \<or> (\<exists>src\<in>set sources. fs_success src = Some y)"
  shows "\<exists>x. fold (\<lambda>src old. older old (fs_success src)) sources o0 = Some x \<and> x \<le> y"
  using assms
proof (induction sources arbitrary: o0 y)
  case (Cons src sources)
  show ?case
  proof (cases "\<exists>src\<in>set sources. fs_success src = Some y")
    case False
    then have "\<exists>x. older o0 (fs_success src) = Some x \<and> x \<le> y" using Cons.prems by (auto simp: older_def split: option.splits)
    then obtain x where "older o0 (fs_success src) = Some x" "x \<le> y" by blast
    then show ?thesis using Cons.IH [of "older o0 (fs_success src)" x] by auto
  qed (use Cons.IH in simp)
qed simp

lemma fold_older_source:
  "fold (\<lambda>src old. older old (fs_success src)) sources o0 = Some x \<Longrightarrow> o0 = Some x \<or> (\<exists>src\<in>set sources. fs_success src = Some x)"
proof (induction sources arbitrary: o0)
  case (Cons src sources)
  then show ?case using older_le [of o0 "fs_success src" x] by auto
qed simp

lemma summary_parts:
  "fst (summarizeFreshness sources now m) = fold (\<lambda>src st. worse st (fst (effective now m src))) sources ''fresh''"
  "fst (snd (summarizeFreshness sources now m)) = (if fst (summarizeFreshness sources now m) = ''unknown'' then None
     else fold (\<lambda>src old. older old (fs_success src)) sources None)"
  by (simp_all add: summarizeFreshness_def fold_parts)

lemma rank_fresh: "FRESH_RANK st \<noteq> None \<Longrightarrow> rank_of st = 0 \<longleftrightarrow> st = ''fresh''"
  by (auto simp: FRESH_RANK_def rank_of_def split: if_splits)

lemma summary_shown:
  assumes "summarizeFreshness sources now m = (state, shown, rows)" "shown = Some t"
  shows "(\<exists>src\<in>set sources. fs_success src = Some t) \<and> (\<forall>src\<in>set sources. \<forall>u. fs_success src = Some u \<longrightarrow> t \<le> u)"
proof -
  have f: "fold (\<lambda>src old. older old (fs_success src)) sources None = Some t"
    using summary_parts(2) [of sources now m] assms by (simp split: if_splits)
  moreover have "t \<le> u" if "src \<in> set sources" "fs_success src = Some u" for src u
    using fold_older [of None u sources] that f by auto
  ultimately show ?thesis using fold_older_source [OF f] by auto
qed

text \<open>Property C12. A freshness badge is never fresher than its weakest source: it says fresh exactly when every source
says so and had a success no later than now and less than the maximum age ago; otherwise it shows the worst effective state of
one of them; and the time it shows is the last success of one of its sources and not later than that of any.\<close>

theorem badge_never_fresher:
  assumes "summarizeFreshness sources now m = (state, shown, rows)"
  shows "(state = ''fresh'' \<longleftrightarrow> (\<forall>src\<in>set sources. fs_state src = ''fresh'' \<and> (\<exists>t. fs_success src = Some t \<and> t \<le> now \<and> now - t < m))) \<and>
    (\<forall>src\<in>set sources. rank_of (fst (effective now m src)) \<le> rank_of state) \<and>
    (state \<noteq> ''fresh'' \<longrightarrow> (\<exists>src\<in>set sources. state = fst (effective now m src))) \<and>
    (\<forall>t. shown = Some t \<longrightarrow> (\<exists>src\<in>set sources. fs_success src = Some t) \<and> (\<forall>src\<in>set sources. \<forall>u. fs_success src = Some u \<longrightarrow> t \<le> u))"
proof -
  have st: "state = fold (\<lambda>src st. worse st (fst (effective now m src))) sources ''fresh''"
    using summary_parts(1) [of sources now m] assms by simp
  have w: "FRESH_RANK state \<noteq> None" "\<forall>src\<in>set sources. rank_of (fst (effective now m src)) \<le> rank_of state"
    "state = ''fresh'' \<or> (\<exists>src\<in>set sources. state = fst (effective now m src))"
    using fold_worse [of "''fresh''" now m sources] unfolding st [symmetric] by (auto simp: FRESH_RANK_def Let_def)
  have "state = ''fresh'' \<longleftrightarrow> (\<forall>src\<in>set sources. fst (effective now m src) = ''fresh'')"
    using w(2,3) rank_fresh [OF w(1)] rank_fresh [OF effective_rank] by (metis le_zero_eq)
  moreover have "(\<exists>src\<in>set sources. fs_success src = Some t) \<and> (\<forall>src\<in>set sources. \<forall>u. fs_success src = Some u \<longrightarrow> t \<le> u)"
    if "shown = Some t" for t
    using summary_shown [OF assms that] by blast
  ultimately show ?thesis using w(2,3) unfolding effective_fresh by blast
qed

definition sample_sources :: "source list" where
  "sample_sources = [\<lparr>fs_label = ''a'', fs_state = ''fresh'', fs_success = Some 100, fs_attempt = None\<rparr>,
     \<lparr>fs_label = ''b'', fs_state = ''fresh'', fs_success = Some 10, fs_attempt = None\<rparr>]"

lemma sample_summary:
  "\<exists>rows. summarizeFreshness sample_sources 120 60 = (''stale'', Some 10, rows)"
  by (simp add: summarizeFreshness_def sample_sources_def effective_def worse_def older_def FRESH_RANK_def Let_def)

theorem badge_never_fresher_witness:
  "\<exists>rows. summarizeFreshness sample_sources 120 60 = (''stale'', Some 10, rows) \<and>
    (\<forall>src\<in>set sample_sources. rank_of (fst (effective 120 60 src)) \<le> rank_of ''stale'')"
  using sample_summary badge_never_fresher [of sample_sources 120 60 "''stale''" "Some 10"] by blast

subsection \<open>Roles\<close>

text \<open>Anything but a confirmed operator or admin is read-only.\<close>

definition opRole :: "jval \<Rightarrow> string option" where
  "opRole s = (case jget (jget s ''operator'') ''role'' of
       JStr r \<Rightarrow> let l = map low_char r in Some (if l = ''operator'' \<or> l = ''admin'' then l else ''viewer'')
     | _ \<Rightarrow> None)"

definition canOperate :: "jval \<Rightarrow> bool" where
  "canOperate s \<longleftrightarrow> opRole s = Some ''operator'' \<or> opRole s = Some ''admin''"

definition canAdmin :: "jval \<Rightarrow> bool" where
  "canAdmin s \<longleftrightarrow> opRole s = Some ''admin''"

lemma canAdmin_canOperate: "canAdmin s \<Longrightarrow> canOperate s"
  by (simp add: canAdmin_def canOperate_def)

datatype lc_action = Decommission | Delete | Restore | Purge

text \<open>The buttons of \<open>LifecycleActions\<close> for an asset with that lifecycle.\<close>

definition lifecycleActions :: "jval \<Rightarrow> jval \<Rightarrow> lc_action list" where
  "lifecycleActions s asset = (if \<not> truthy asset \<or> nullish (jget asset ''assetId'') \<or> \<not> canOperate s then []
     else let lc = jor (jget asset ''lifecycle'') (JStr ''active'') in
       (if lc = JStr ''active'' then [Decommission] else [Restore]) @
       (if lc \<noteq> JStr ''deleted'' then [Delete] else []) @
       (if lc = JStr ''deleted'' \<and> canAdmin s then [Purge] else []))"

text \<open>The name a purge has to be confirmed with.\<close>

definition purgeName :: "jval \<Rightarrow> jval" where
  "purgeName asset = jor (jget asset ''displayName'') (jor (jget asset ''host'') (jor (jget asset ''ip'')
     (JStr (''asset '' @ js_String (jget asset ''assetId'')))))"

lemma purge_only_admin: "Purge \<in> set (lifecycleActions s asset) \<Longrightarrow> canAdmin s \<and> jget asset ''lifecycle'' = JStr ''deleted''"
  by (auto simp: lifecycleActions_def Let_def jor_def split: if_splits)

text \<open>The tier picker: the tier picked shows at once and is taken back when the write is refused.\<close>

record crit_control =
  cc_tier :: "nat option"
  cc_pending :: "nat option"
  cc_failed :: "string option"

definition cc_shown :: "crit_control \<Rightarrow> nat option" where
  "cc_shown c = (if cc_pending c \<noteq> None then cc_pending c else cc_tier c)"

definition cc_pick :: "bool \<Rightarrow> nat \<Rightarrow> crit_control \<Rightarrow> crit_control" where
  "cc_pick ro t c = (if ro \<or> cc_shown c = Some t then c else c\<lparr>cc_pending := Some t, cc_failed := None\<rparr>)"

definition cc_refused :: "string \<Rightarrow> crit_control \<Rightarrow> crit_control" where
  "cc_refused msg c = c\<lparr>cc_pending := None, cc_failed := Some msg\<rparr>"

definition cc_tier_arrives :: "nat option \<Rightarrow> crit_control \<Rightarrow> crit_control" where
  "cc_tier_arrives t c = (let c' = c\<lparr>cc_tier := t\<rparr> in if cc_pending c' \<noteq> None \<and> cc_tier c' = cc_pending c' then c'\<lparr>cc_pending := None\<rparr> else c')"

lemma cc_refused_shows_server: "cc_shown (cc_refused msg (cc_pick ro t c)) = cc_tier c"
  by (simp add: cc_shown_def cc_refused_def cc_pick_def)

subsection \<open>Rows\<close>

record fnode =
  fn_id :: string
  fn_name :: string
  fn_state :: string
  fn_role :: string
  fn_asset :: bool
  fn_seen :: "real option"
  fn_segId :: string
  fn_segName :: string
  fn_converged :: bool
  fn_lifecycle :: "string option"

record falert =
  fa_event :: string
  fa_node :: "string option"
  fa_sev :: string
  fa_cleared :: bool
  fa_rule :: string
  fa_host :: string
  fa_detail :: string

record fprobe =
  fp_id :: string
  fp_state :: string
  fp_label :: string
  fp_host :: string
  fp_outcomes :: "string list"

record fmodel =
  fm_alerts :: "falert list"
  fm_probes :: "fprobe list"
  fm_nodes :: "fnode list"
  fm_enrollments :: "string list"
  fm_interval :: real

text \<open>The configured sample interval, 15 seconds where there is none (0 in the model).\<close>

definition staleThresholdMin :: "fmodel \<Rightarrow> int" where
  "staleThresholdMin s = (let sec = (if fm_interval s = 0 then 15 else fm_interval s) in max 2 \<lceil>2 * sec / 60\<rceil>)"

definition isStale :: "fmodel \<Rightarrow> fnode \<Rightarrow> bool" where
  "isStale s n \<longleftrightarrow> \<not> fn_asset n \<and> fn_state n \<noteq> ''down'' \<and> fn_state n \<noteq> ''retired'' \<and>
     (case fn_seen n of None \<Rightarrow> False | Some m \<Rightarrow> of_int (staleThresholdMin s) < m)"

subsection \<open>The attention list\<close>

datatype headline =
    Is_Down string | Unreachable string nat | Rule_On string string | Criticals nat string | Nodeless string
  | Is_Degraded string | Split_Vantage string nat nat | Warnings nat string | Silent string real
  | Drift_One string | Drift_Many nat | Csrs nat

datatype click = Open_Node string | Nav string

record attn =
  at_key :: string
  at_sev :: string
  at_icon :: string
  at_text :: headline
  at_sub :: string
  at_click :: click

definition dot_sep :: string where
  "dot_sep = [CHR '' '', CHR 0xB7, CHR '' '']"

definition join_some :: "string list \<Rightarrow> string" where
  "join_some xs = join_str dot_sep (filter (\<lambda>x. x \<noteq> []) xs)"

text \<open>The keys of an object: array indices in ascending order, then the others as they were added.\<close>

definition is_index :: "string \<Rightarrow> bool" where
  "is_index k \<longleftrightarrow> k \<noteq> [] \<and> list_all is_digit k \<and> (k = ''0'' \<or> hd k \<noteq> CHR ''0'') \<and> dec_val k < 4294967295"

definition key_order :: "string list \<Rightarrow> string list" where
  "key_order ks = (let us = rev (remdups (rev ks)) in sort_key dec_val (filter is_index us) @ filter (\<lambda>k. \<not> is_index k) us)"

definition active_alerts :: "fmodel \<Rightarrow> falert list" where
  "active_alerts s = filter (\<lambda>a. \<not> fa_cleared a) (fm_alerts s)"

definition alert_nodes :: "fmodel \<Rightarrow> string list" where
  "alert_nodes s = key_order (List.map_filter fa_node (active_alerts s))"

definition alertsByNode :: "fmodel \<Rightarrow> string \<Rightarrow> falert list" where
  "alertsByNode s nid = filter (\<lambda>a. fa_node a = Some nid) (active_alerts s)"

definition with_sev :: "string \<Rightarrow> falert list \<Rightarrow> falert list" where
  "with_sev sev as = filter (\<lambda>a. fa_sev a = sev) as"

definition alertNote :: "fmodel \<Rightarrow> string \<Rightarrow> string" where
  "alertNote s nid = (let as = alertsByNode s nid; c = length (with_sev ''crit'' as); w = length (with_sev ''warn'' as);
       bits = (if c \<noteq> 0 then [nat_str c @ '' crit''] else []) @ (if w \<noteq> 0 then [nat_str w @ '' warn''] else [])
     in if bits = [] then [] else join_str dot_sep bits @ (if length as = 1 then '' alert'' else '' alerts''))"

definition ROLE_ICON :: "string \<Rightarrow> string" where
  "ROLE_ICON r = (if r = ''server'' then ''server'' else if r = ''monitor'' then ''monitor'' else ''host'')"

definition node_icon :: "fnode \<Rightarrow> string" where
  "node_icon n = (if fn_asset n then ''host'' else ROLE_ICON (fn_role n))"

definition openNodeOrAlerts :: "fnode list \<Rightarrow> string \<Rightarrow> click" where
  "openNodeOrAlerts fleet nid = (if find (\<lambda>n. fn_id n = nid) fleet \<noteq> None then Open_Node nid else Nav ''alerts'')"

definition down_rows :: "fmodel \<Rightarrow> fnode list \<Rightarrow> attn list" where
  "down_rows s fleet = map (\<lambda>n. \<lparr>at_key = ''down-'' @ fn_id n, at_sev = ''crit'', at_icon = node_icon n, at_text = Is_Down (fn_name n),
     at_sub = join_some [fn_segName n, case fn_seen n of Some m \<Rightarrow> ''last seen '' @ fmt_ago m | None \<Rightarrow> ''reachability lost'', alertNote s (fn_id n)],
     at_click = Open_Node (fn_id n)\<rparr>) (filter (\<lambda>n. fn_state n = ''down'') fleet)"

definition probe_down_rows :: "fmodel \<Rightarrow> attn list" where
  "probe_down_rows s = map (\<lambda>p. \<lparr>at_key = ''probe-down-'' @ fp_id p, at_sev = ''crit'', at_icon = ''reachability'',
     at_text = Unreachable (fp_id p) (length (fp_outcomes p)), at_sub = join_some [fp_label p, fp_host p], at_click = Nav ''reachability''\<rparr>)
     (filter (\<lambda>p. fp_state p = ''down'') (fm_probes s))"

text \<open>Alerts of one severity on the nodes that no row has been made for.\<close>

definition node_alert_rows :: "string \<Rightarrow> (nat \<Rightarrow> string \<Rightarrow> headline) \<Rightarrow> fmodel \<Rightarrow> fnode list \<Rightarrow> string list \<Rightarrow> attn list" where
  "node_alert_rows sev many s fleet listed = List.map_filter (\<lambda>nid.
     if nid \<in> set listed then None
     else (case with_sev sev (alertsByNode s nid) of [] \<Rightarrow> None
       | first # rest \<Rightarrow> Some \<lparr>at_key = sev @ ''-'' @ nid, at_sev = sev, at_icon = ''alerts'',
           at_text = (if rest = [] then Rule_On (fa_rule first) (fa_host first) else many (Suc (length rest)) (fa_host first)),
           at_sub = fa_detail first, at_click = openNodeOrAlerts fleet nid\<rparr>)) (alert_nodes s)"

definition nodeless_rows :: "fmodel \<Rightarrow> attn list" where
  "nodeless_rows s = map (\<lambda>a. \<lparr>at_key = ''crit-ev-'' @ fa_event a, at_sev = ''crit'', at_icon = ''alerts'', at_text = Nodeless (fa_rule a),
     at_sub = fa_detail a, at_click = Nav ''alerts''\<rparr>) (filter (\<lambda>a. fa_sev a = ''crit'' \<and> fa_node a = None) (active_alerts s))"

definition degraded_rows :: "fmodel \<Rightarrow> fnode list \<Rightarrow> attn list" where
  "degraded_rows s fleet = map (\<lambda>n. \<lparr>at_key = ''deg-'' @ fn_id n, at_sev = ''warn'', at_icon = node_icon n, at_text = Is_Degraded (fn_name n),
     at_sub = join_some [fn_segName n, if alertNote s (fn_id n) = [] then ''over tolerance'' else alertNote s (fn_id n)],
     at_click = Open_Node (fn_id n)\<rparr>) (filter (\<lambda>n. fn_state n = ''degraded'') fleet)"

definition split_rows :: "fmodel \<Rightarrow> attn list" where
  "split_rows s = map (\<lambda>p. \<lparr>at_key = ''probe-split-'' @ fp_id p, at_sev = ''warn'', at_icon = ''reachability'',
     at_text = Split_Vantage (fp_id p) (length (filter (\<lambda>x. x \<noteq> ''ok'') (fp_outcomes p))) (length (fp_outcomes p)),
     at_sub = join_some [fp_label p, fp_host p], at_click = Nav ''reachability''\<rparr>)
     (filter (\<lambda>p. fp_state p = ''degraded'') (fm_probes s))"

definition stale_rows :: "fmodel \<Rightarrow> fnode list \<Rightarrow> attn list" where
  "stale_rows s fleet = map (\<lambda>n. \<lparr>at_key = ''stale-'' @ fn_id n, at_sev = ''warn'', at_icon = ''clock'',
     at_text = Silent (fn_name n) (case fn_seen n of Some m \<Rightarrow> m | None \<Rightarrow> 0),
     at_sub = fn_segName n @ dot_sep @ ''expected every '' @ num_str (of_int (staleThresholdMin s) / 2) @ ''m'', at_click = Open_Node (fn_id n)\<rparr>)
     (filter (\<lambda>n. fn_state n \<noteq> ''down'' \<and> fn_state n \<noteq> ''degraded'' \<and> isStale s n) fleet)"

definition drift_rows :: "fmodel \<Rightarrow> attn list" where
  "drift_rows s = (case filter (\<lambda>n. \<not> fn_converged n) (fm_nodes s) of [] \<Rightarrow> []
     | n # ns \<Rightarrow> [\<lparr>at_key = ''drift'', at_sev = ''warn'', at_icon = ''refresh'',
         at_text = (if ns = [] then Drift_One (fn_name n) else Drift_Many (Suc (length ns))),
         at_sub = join_str '', '' (map fn_name (take 3 (n # ns))) @ (if 2 < length ns then '' +'' @ nat_str (Suc (length ns) - 3) else []) @
           dot_sep @ ''re-push from Provisioning'',
         at_click = Nav ''provision''\<rparr>])"

definition enroll_rows :: "fmodel \<Rightarrow> attn list" where
  "enroll_rows s = (if fm_enrollments s = [] then []
     else [\<lparr>at_key = ''enroll'', at_sev = ''info'', at_icon = ''shield'', at_text = Csrs (length (fm_enrollments s)),
       at_sub = join_str '', '' (take 3 (fm_enrollments s)), at_click = Nav ''provision''\<rparr>])"

definition ids_in :: "string \<Rightarrow> fnode list \<Rightarrow> string list" where
  "ids_in st fleet = map fn_id (filter (\<lambda>n. fn_state n = st) fleet)"

definition buildAttention :: "fmodel \<Rightarrow> fnode list \<Rightarrow> attn list" where
  "buildAttention s fleet =
     down_rows s fleet @ probe_down_rows s @ node_alert_rows ''crit'' Criticals s fleet (ids_in ''down'' fleet) @ nodeless_rows s @
     degraded_rows s fleet @ split_rows s @
     node_alert_rows ''warn'' Warnings s fleet (ids_in ''down'' fleet @ ids_in ''degraded'' fleet) @
     stale_rows s fleet @ drift_rows s @ enroll_rows s"

lemma set_key_order: "set (key_order ks) = set ks"
  by (auto simp: key_order_def Let_def)

lemma alert_nodes_iff: "nid \<in> set (alert_nodes s) \<longleftrightarrow> (\<exists>a\<in>set (active_alerts s). fa_node a = Some nid)"
  by (force simp: alert_nodes_def set_key_order map_filter_def)

lemma node_alert_rows_iff:
  "r \<in> set (node_alert_rows sev many s fleet listed) \<Longrightarrow> at_sev r = sev"
  by (auto simp: node_alert_rows_def map_filter_def split: if_splits list.splits)

lemma node_alert_row:
  assumes "a \<in> set (active_alerts s)" "fa_node a = Some nid" "fa_sev a = sev" "nid \<notin> set listed"
  shows "\<exists>r\<in>set (node_alert_rows sev many s fleet listed). at_key r = sev @ ''-'' @ nid"
proof -
  have "nid \<in> set (alert_nodes s)" using assms alert_nodes_iff by blast
  moreover have "with_sev sev (alertsByNode s nid) \<noteq> []" using assms by (force simp: with_sev_def alertsByNode_def filter_empty_conv)
  ultimately show ?thesis using assms(4) unfolding node_alert_rows_def map_filter_def
    by (auto simp: neq_Nil_conv image_iff intro!: bexI [of _ nid])
qed

lemma node_alert_rows_empty:
  "node_alert_rows sev many s fleet listed = [] \<longleftrightarrow>
   (\<forall>a\<in>set (active_alerts s). \<forall>nid. fa_node a = Some nid \<and> fa_sev a = sev \<longrightarrow> nid \<in> set listed)"
proof
  assume "node_alert_rows sev many s fleet listed = []"
  then show "\<forall>a\<in>set (active_alerts s). \<forall>nid. fa_node a = Some nid \<and> fa_sev a = sev \<longrightarrow> nid \<in> set listed"
    using node_alert_row [of _ s _ sev listed many fleet] by fastforce
next
  assume "\<forall>a\<in>set (active_alerts s). \<forall>nid. fa_node a = Some nid \<and> fa_sev a = sev \<longrightarrow> nid \<in> set listed"
  then show "node_alert_rows sev many s fleet listed = []"
    by (auto simp: node_alert_rows_def map_filter_def filter_empty_conv with_sev_def alertsByNode_def split: list.splits if_splits)
      (metis (mono_tags, lifting) filter_eq_Cons_iff list.distinct(1) list.set_intros(1) mem_Collect_eq set_filter)
qed

text \<open>When the list is empty: no system down, degraded or silent, no probe down or split, no critical alert, no warning on a
  system, no drift and nothing to enrol.\<close>

definition nominal :: "fmodel \<Rightarrow> fnode list \<Rightarrow> bool" where
  "nominal s fleet \<longleftrightarrow> list_all (\<lambda>n. fn_state n \<noteq> ''down'' \<and> fn_state n \<noteq> ''degraded'' \<and> \<not> isStale s n) fleet \<and>
     list_all (\<lambda>p. fp_state p \<noteq> ''down'' \<and> fp_state p \<noteq> ''degraded'') (fm_probes s) \<and>
     list_all (\<lambda>a. fa_cleared a \<or> fa_sev a \<noteq> ''crit'' \<and> (fa_sev a \<noteq> ''warn'' \<or> fa_node a = None)) (fm_alerts s) \<and>
     list_all fn_converged (fm_nodes s) \<and> fm_enrollments s = []"

lemma ids_in_empty: "ids_in st fleet = [] \<longleftrightarrow> list_all (\<lambda>n. fn_state n \<noteq> st) fleet"
  by (simp add: ids_in_def filter_empty_conv list_all_iff)

lemma drift_rows_empty: "drift_rows s = [] \<longleftrightarrow> list_all fn_converged (fm_nodes s)"
proof -
  have "drift_rows s = [] \<longleftrightarrow> filter (\<lambda>n. \<not> fn_converged n) (fm_nodes s) = []"
    by (cases "filter (\<lambda>n. \<not> fn_converged n) (fm_nodes s)") (simp_all add: drift_rows_def)
  then show ?thesis by (simp add: filter_empty_conv list_all_iff)
qed

lemma attention_empty: "buildAttention s fleet = [] \<longleftrightarrow> nominal s fleet"
proof -
  have rows: "down_rows s fleet = [] \<longleftrightarrow> ids_in ''down'' fleet = []" "degraded_rows s fleet = [] \<longleftrightarrow> ids_in ''degraded'' fleet = []"
    "probe_down_rows s = [] \<and> split_rows s = [] \<longleftrightarrow> list_all (\<lambda>p. fp_state p \<noteq> ''down'' \<and> fp_state p \<noteq> ''degraded'') (fm_probes s)"
    "stale_rows s fleet = [] \<longleftrightarrow> list_all (\<lambda>n. fn_state n = ''down'' \<or> fn_state n = ''degraded'' \<or> \<not> isStale s n) fleet"
    "enroll_rows s = [] \<longleftrightarrow> fm_enrollments s = []"
    "nodeless_rows s = [] \<longleftrightarrow> (\<forall>a\<in>set (active_alerts s). fa_sev a = ''crit'' \<longrightarrow> fa_node a \<noteq> None)"
    by (auto simp: down_rows_def degraded_rows_def probe_down_rows_def split_rows_def stale_rows_def enroll_rows_def
        nodeless_rows_def ids_in_def filter_empty_conv list_all_iff)
  have alerts: "list_all (\<lambda>a. fa_cleared a \<or> fa_sev a \<noteq> ''crit'' \<and> (fa_sev a \<noteq> ''warn'' \<or> fa_node a = None)) (fm_alerts s) \<longleftrightarrow>
      (\<forall>a\<in>set (active_alerts s). fa_sev a \<noteq> ''crit'' \<and> (fa_sev a \<noteq> ''warn'' \<or> fa_node a = None))"
    by (auto simp: active_alerts_def list_all_iff)
  have "node_alert_rows ''crit'' Criticals s fleet [] = [] \<and> nodeless_rows s = [] \<longleftrightarrow> (\<forall>a\<in>set (active_alerts s). fa_sev a \<noteq> ''crit'')"
    unfolding node_alert_rows_empty rows(6) by auto
  moreover have "node_alert_rows ''warn'' Warnings s fleet [] = [] \<longleftrightarrow> (\<forall>a\<in>set (active_alerts s). fa_sev a \<noteq> ''warn'' \<or> fa_node a = None)"
    unfolding node_alert_rows_empty by auto
  ultimately have ne: "node_alert_rows ''crit'' Criticals s fleet [] = [] \<and> nodeless_rows s = [] \<and> node_alert_rows ''warn'' Warnings s fleet [] = [] \<longleftrightarrow>
      list_all (\<lambda>a. fa_cleared a \<or> fa_sev a \<noteq> ''crit'' \<and> (fa_sev a \<noteq> ''warn'' \<or> fa_node a = None)) (fm_alerts s)"
    unfolding alerts by (simp add: ball_conj_distrib flip: conj_assoc)
  show ?thesis
  proof (cases "ids_in ''down'' fleet = [] \<and> ids_in ''degraded'' fleet = []")
    case True
    then have up: "list_all (\<lambda>n. fn_state n \<noteq> ''down'') fleet" "list_all (\<lambda>n. fn_state n \<noteq> ''degraded'') fleet" by (simp_all add: ids_in_empty)
    then have "stale_rows s fleet = [] \<longleftrightarrow> list_all (\<lambda>n. fn_state n \<noteq> ''down'' \<and> fn_state n \<noteq> ''degraded'' \<and> \<not> isStale s n) fleet"
      unfolding rows(4) by (auto simp: list_all_iff)
    then show ?thesis using True rows(1,2,3,5) ne drift_rows_empty [of s] unfolding buildAttention_def nominal_def by auto
  next
    case False
    then have "\<not> nominal s fleet" unfolding nominal_def ids_in_empty by (auto simp: list_all_iff)
    then show ?thesis using False rows(1,2) by (auto simp: buildAttention_def)
  qed
qed

definition attn_rank :: "string \<Rightarrow> nat" where
  "attn_rank sev = (if sev = ''crit'' then 0 else if sev = ''warn'' then 1 else 2)"

lemma same_rank: "\<forall>x\<in>set xs. at_sev x = sev \<Longrightarrow> sorted (map (\<lambda>r. attn_rank (at_sev r)) xs)"
  by (induction xs) auto

lemma row_sevs:
  "\<forall>r\<in>set (down_rows s fleet @ probe_down_rows s @ node_alert_rows ''crit'' Criticals s fleet l1 @ nodeless_rows s). at_sev r = ''crit''"
  "\<forall>r\<in>set (degraded_rows s fleet @ split_rows s @ node_alert_rows ''warn'' Warnings s fleet l2 @ stale_rows s fleet @ drift_rows s). at_sev r = ''warn''"
  "\<forall>r\<in>set (enroll_rows s). at_sev r = ''info''"
  by (auto simp: down_rows_def probe_down_rows_def nodeless_rows_def degraded_rows_def split_rows_def stale_rows_def drift_rows_def enroll_rows_def
      dest: node_alert_rows_iff split: list.splits if_splits)

lemma sorted_blocks:
  "sorted (map f a) \<Longrightarrow> sorted (map f b) \<Longrightarrow> (\<And>x y. x \<in> set a \<Longrightarrow> y \<in> set b \<Longrightarrow> f x \<le> f y) \<Longrightarrow> sorted (map f (a @ b))"
  by (auto simp: sorted_append)

lemma attention_sorted: "sorted (map (\<lambda>r. attn_rank (at_sev r)) (buildAttention s fleet))"
proof -
  let ?c = "down_rows s fleet @ probe_down_rows s @ node_alert_rows ''crit'' Criticals s fleet (ids_in ''down'' fleet) @ nodeless_rows s"
  let ?w = "degraded_rows s fleet @ split_rows s @ node_alert_rows ''warn'' Warnings s fleet (ids_in ''down'' fleet @ ids_in ''degraded'' fleet) @
    stale_rows s fleet @ drift_rows s"
  have sevs: "\<forall>r\<in>set ?c. at_sev r = ''crit''" "\<forall>r\<in>set ?w. at_sev r = ''warn''" "\<forall>r\<in>set (enroll_rows s). at_sev r = ''info''"
    by (rule row_sevs)+
  have "buildAttention s fleet = ?c @ ?w @ enroll_rows s" by (simp add: buildAttention_def)
  moreover have "sorted (map (\<lambda>r. attn_rank (at_sev r)) (?w @ enroll_rows s))"
    by (rule sorted_blocks [OF same_rank [OF sevs(2)] same_rank [OF sevs(3)]]) (use sevs(2,3) in \<open>simp add: attn_rank_def\<close>)
  moreover have "attn_rank (at_sev x) \<le> attn_rank (at_sev y)" if "x \<in> set ?c" for x y using sevs(1) that by (simp add: attn_rank_def)
  ultimately show ?thesis using sorted_blocks [OF same_rank [OF sevs(1)]] by metis
qed

lemma state_row:
  "nid \<in> set (ids_in ''down'' fleet) \<Longrightarrow> \<exists>r\<in>set (down_rows s fleet). at_key r = ''down-'' @ nid \<and> at_sev r = ''crit''"
  "nid \<in> set (ids_in ''degraded'' fleet) \<Longrightarrow> \<exists>r\<in>set (degraded_rows s fleet). at_key r = ''deg-'' @ nid \<and> at_sev r = ''warn''"
  by (auto simp: ids_in_def down_rows_def degraded_rows_def)

definition covers :: "attn list \<Rightarrow> string \<Rightarrow> string \<Rightarrow> bool" where
  "covers rows nid sev \<longleftrightarrow> (\<exists>r\<in>set rows. at_key r \<in> {''down-'' @ nid, ''crit-'' @ nid, ''deg-'' @ nid, ''warn-'' @ nid} \<and> attn_rank (at_sev r) \<le> attn_rank sev)"

lemma coversI:
  "r \<in> set rows \<Longrightarrow> at_key r \<in> {''down-'' @ nid, ''crit-'' @ nid, ''deg-'' @ nid, ''warn-'' @ nid} \<Longrightarrow> attn_rank (at_sev r) \<le> attn_rank sev \<Longrightarrow> covers rows nid sev"
  unfolding covers_def by blast

lemma attention_parts:
  "set (down_rows s fleet) \<subseteq> set (buildAttention s fleet)" "set (degraded_rows s fleet) \<subseteq> set (buildAttention s fleet)"
  "set (node_alert_rows ''crit'' Criticals s fleet (ids_in ''down'' fleet)) \<subseteq> set (buildAttention s fleet)"
  "set (node_alert_rows ''warn'' Warnings s fleet (ids_in ''down'' fleet @ ids_in ''degraded'' fleet)) \<subseteq> set (buildAttention s fleet)"
  unfolding buildAttention_def set_append by blast+

lemma alert_covered:
  assumes "a \<in> set (active_alerts s)" "fa_node a = Some nid" "fa_sev a = ''crit'' \<or> fa_sev a = ''warn''"
  shows "covers (buildAttention s fleet) nid (fa_sev a)"
proof (cases "nid \<in> set (ids_in ''down'' fleet)")
  case True
  then obtain r where "r \<in> set (down_rows s fleet)" "at_key r = ''down-'' @ nid" "at_sev r = ''crit''" using state_row(1) by blast
  then show ?thesis using attention_parts(1) by (intro coversI [of r]) (auto simp: attn_rank_def)
next
  case down: False
  consider (crit) "fa_sev a = ''crit''" | (deg) "fa_sev a = ''warn''" "nid \<in> set (ids_in ''degraded'' fleet)"
    | (warn) "fa_sev a = ''warn''" "nid \<notin> set (ids_in ''down'' fleet @ ids_in ''degraded'' fleet)"
    using assms(3) down by auto
  then show ?thesis
  proof cases
    case crit
    obtain r where r: "r \<in> set (node_alert_rows ''crit'' Criticals s fleet (ids_in ''down'' fleet))" "at_key r = ''crit'' @ ''-'' @ nid"
      using node_alert_row [OF assms(1,2) crit down] by blast
    then show ?thesis using attention_parts(3) node_alert_rows_iff [OF r(1)] by (intro coversI [of r]) (auto simp: attn_rank_def)
  next
    case deg
    then obtain r where "r \<in> set (degraded_rows s fleet)" "at_key r = ''deg-'' @ nid" "at_sev r = ''warn''" using state_row(2) by blast
    then show ?thesis using attention_parts(2) deg(1) by (intro coversI [of r]) (auto simp: attn_rank_def)
  next
    case warn
    obtain r where r: "r \<in> set (node_alert_rows ''warn'' Warnings s fleet (ids_in ''down'' fleet @ ids_in ''degraded'' fleet))" "at_key r = ''warn'' @ ''-'' @ nid"
      using node_alert_row [OF assms(1,2) warn] by blast
    then show ?thesis using attention_parts(4) node_alert_rows_iff [OF r(1)] warn(1) by (intro coversI [of r]) (auto simp: attn_rank_def)
  qed
qed

text \<open>Everything that needs a human, as the comment on the panel has it: any active critical alert or warning counts, whether or
  not it belongs to a system.\<close>

definition all_quiet :: "fmodel \<Rightarrow> fnode list \<Rightarrow> bool" where
  "all_quiet s fleet \<longleftrightarrow> list_all (\<lambda>n. fn_state n \<noteq> ''down'' \<and> fn_state n \<noteq> ''degraded'' \<and> \<not> isStale s n) fleet \<and>
     list_all (\<lambda>p. fp_state p \<noteq> ''down'' \<and> fp_state p \<noteq> ''degraded'') (fm_probes s) \<and>
     list_all (\<lambda>a. fa_cleared a \<or> fa_sev a \<noteq> ''crit'' \<and> fa_sev a \<noteq> ''warn'') (fm_alerts s) \<and>
     list_all fn_converged (fm_nodes s) \<and> fm_enrollments s = []"

definition loose_warning :: "falert \<Rightarrow> bool" where
  "loose_warning a \<longleftrightarrow> \<not> fa_cleared a \<and> fa_sev a = ''warn'' \<and> fa_node a = None"

lemma quiet_nominal: "all_quiet s fleet \<longleftrightarrow> nominal s fleet \<and> list_all (\<lambda>a. \<not> loose_warning a) (fm_alerts s)"
  unfolding all_quiet_def nominal_def loose_warning_def list_all_iff by blast

lemma attention_ignores_loose:
  "buildAttention (s\<lparr>fm_alerts := filter (\<lambda>a. \<not> loose_warning a) (fm_alerts s)\<rparr>) fleet = buildAttention s fleet"
proof -
  let ?s = "s\<lparr>fm_alerts := filter (\<lambda>a. \<not> loose_warning a) (fm_alerts s)\<rparr>"
  have act: "active_alerts ?s = filter (\<lambda>a. \<not> loose_warning a) (active_alerts s)"
    by (simp add: active_alerts_def filter_filter conj_commute)
  have nodes: "List.map_filter fa_node (filter (\<lambda>a. \<not> loose_warning a) as) = List.map_filter fa_node as" for as
    by (induction as) (auto simp: map_filter_simps loose_warning_def split: option.split)
  have by_node: "alertsByNode ?s = alertsByNode s"
    unfolding alertsByNode_def act by (auto simp: fun_eq_iff loose_warning_def intro!: filter_cong)
  have "nodeless_rows ?s = nodeless_rows s" unfolding nodeless_rows_def act by (auto simp: loose_warning_def intro!: arg_cong [where f = "map _"] filter_cong)
  moreover have "alert_nodes ?s = alert_nodes s" by (simp add: alert_nodes_def act nodes)
  moreover have "alertNote ?s = alertNote s" by (simp add: fun_eq_iff alertNote_def by_node)
  moreover have thr: "staleThresholdMin ?s = staleThresholdMin s" by (simp add: staleThresholdMin_def)
  moreover have "isStale ?s = isStale s" unfolding fun_eq_iff isStale_def thr by simp
  ultimately show ?thesis
    unfolding buildAttention_def node_alert_rows_def by_node
    by (simp add: down_rows_def degraded_rows_def probe_down_rows_def split_rows_def stale_rows_def drift_rows_def enroll_rows_def)
qed

lemma system_row:
  assumes "n \<in> set fleet" "fn_state n = ''down'' \<or> fn_state n = ''degraded'' \<or> isStale s n"
  shows "\<exists>r\<in>set (buildAttention s fleet). at_click r = Open_Node (fn_id n) \<and> at_sev r = (if fn_state n = ''down'' then ''crit'' else ''warn'')"
proof -
  have "\<exists>r\<in>set (down_rows s fleet @ degraded_rows s fleet @ stale_rows s fleet).
      at_click r = Open_Node (fn_id n) \<and> at_sev r = (if fn_state n = ''down'' then ''crit'' else ''warn'')"
    using assms by (cases "fn_state n = ''down''"; cases "fn_state n = ''degraded''") (auto simp: down_rows_def degraded_rows_def stale_rows_def bex_Un)
  then show ?thesis unfolding buildAttention_def by auto
qed

lemma probe_row:
  assumes "p \<in> set (fm_probes s)" "fp_state p = ''down'' \<or> fp_state p = ''degraded''"
  shows "\<exists>r\<in>set (buildAttention s fleet). at_key r \<in> {''probe-down-'' @ fp_id p, ''probe-split-'' @ fp_id p} \<and>
    at_sev r = (if fp_state p = ''down'' then ''crit'' else ''warn'')"
proof -
  have "\<exists>r\<in>set (probe_down_rows s @ split_rows s). at_key r \<in> {''probe-down-'' @ fp_id p, ''probe-split-'' @ fp_id p} \<and>
      at_sev r = (if fp_state p = ''down'' then ''crit'' else ''warn'')"
    using assms by (cases "fp_state p = ''down''") (auto simp: probe_down_rows_def split_rows_def bex_Un)
  then show ?thesis unfolding buildAttention_def by auto
qed

text \<open>Property C11. Against the promise of the comment, that the list shows everything that needs a human: all is quiet exactly
  when the list is empty and no active warning is without a system, and such warnings are what the code leaves out
  (the list is the same without them); its rows go from critical to warning to info; every system that is down,
  degraded or silent and every probe that is down or split has a row of the right severity; and every active
  critical alert or warning on a system has a row for that system at least as severe as the alert.\<close>

theorem attention_complete:
  "(all_quiet s fleet \<longleftrightarrow> buildAttention s fleet = [] \<and> list_all (\<lambda>a. \<not> loose_warning a) (fm_alerts s)) \<and>
   buildAttention (s\<lparr>fm_alerts := filter (\<lambda>a. \<not> loose_warning a) (fm_alerts s)\<rparr>) fleet = buildAttention s fleet \<and>
   sorted (map (\<lambda>r. attn_rank (at_sev r)) (buildAttention s fleet)) \<and>
   (\<forall>n\<in>set fleet. fn_state n = ''down'' \<or> fn_state n = ''degraded'' \<or> isStale s n \<longrightarrow>
     (\<exists>r\<in>set (buildAttention s fleet). at_click r = Open_Node (fn_id n) \<and> at_sev r = (if fn_state n = ''down'' then ''crit'' else ''warn''))) \<and>
   (\<forall>p\<in>set (fm_probes s). fp_state p = ''down'' \<or> fp_state p = ''degraded'' \<longrightarrow>
     (\<exists>r\<in>set (buildAttention s fleet). at_key r \<in> {''probe-down-'' @ fp_id p, ''probe-split-'' @ fp_id p} \<and>
       at_sev r = (if fp_state p = ''down'' then ''crit'' else ''warn''))) \<and>
   (\<forall>a\<in>set (active_alerts s). \<forall>nid. fa_node a = Some nid \<and> (fa_sev a = ''crit'' \<or> fa_sev a = ''warn'') \<longrightarrow>
     covers (buildAttention s fleet) nid (fa_sev a))"
  unfolding quiet_nominal attention_ignores_loose attention_empty
  using attention_sorted [of s fleet] alert_covered [of _ s _ fleet] system_row [of _ fleet s] probe_row [of _ s fleet] by blast

definition sample_alert :: falert where
  "sample_alert = \<lparr>fa_event = ''9'', fa_node = Some ''4'', fa_sev = ''warn'', fa_cleared = False, fa_rule = ''cpu'', fa_host = ''zinc'', fa_detail = ''91 %''\<rparr>"

definition sample_model :: fmodel where
  "sample_model = \<lparr>fm_alerts = [sample_alert], fm_probes = [], fm_nodes = [], fm_enrollments = [], fm_interval = 15\<rparr>"

theorem attention_complete_witness: "covers (buildAttention sample_model []) ''4'' ''warn''"
proof -
  have "sample_alert \<in> set (active_alerts sample_model)" by (simp add: active_alerts_def sample_model_def sample_alert_def)
  moreover have "fa_node sample_alert = Some ''4''" "fa_sev sample_alert = ''warn''" by (simp_all add: sample_alert_def)
  ultimately show ?thesis using attention_complete [of sample_model "[]"] by metis
qed

text \<open>A warning that belongs to no system is in no row: the panel reads nominal while it is active.\<close>

lemma nodeless_warning_unseen:
  "buildAttention (sample_model\<lparr>fm_alerts := [sample_alert\<lparr>fa_node := None\<rparr>]\<rparr>) [] = []"
  by (simp add: attention_empty nominal_def sample_model_def sample_alert_def)

text \<open>A degraded system with a critical alert has two rows, and both count that alert.\<close>

lemma degraded_with_critical_listed_twice:
  assumes "n \<in> set fleet" "fn_state n = ''degraded''" "fn_id n \<notin> set (ids_in ''down'' fleet)"
    "a \<in> set (active_alerts s)" "fa_node a = Some (fn_id n)" "fa_sev a = ''crit''"
  shows "\<exists>r r'. r \<in> set (buildAttention s fleet) \<and> r' \<in> set (buildAttention s fleet) \<and> at_key r = ''crit-'' @ fn_id n \<and> at_key r' = ''deg-'' @ fn_id n"
proof -
  have "fn_id n \<in> set (ids_in ''degraded'' fleet)" using assms(1,2) by (auto simp: ids_in_def)
  then obtain r' where r': "r' \<in> set (degraded_rows s fleet)" "at_key r' = ''deg-'' @ fn_id n" using state_row(2) by blast
  obtain r where r: "r \<in> set (node_alert_rows ''crit'' Criticals s fleet (ids_in ''down'' fleet))" "at_key r = ''crit'' @ ''-'' @ fn_id n"
    using node_alert_row [OF assms(4,5,6,3)] by blast
  have "r \<in> set (buildAttention s fleet)" "r' \<in> set (buildAttention s fleet)" using r(1) r'(1) attention_parts(2,3) by blast+
  moreover have "at_key r = ''crit-'' @ fn_id n" using r(2) by simp
  ultimately show ?thesis using r'(2) by blast
qed

subsection \<open>Filters and groups of the overview\<close>

definition rowLc :: "fnode \<Rightarrow> string" where
  "rowLc n = (case fn_lifecycle n of Some l \<Rightarrow> l | None \<Rightarrow> if fn_state n = ''retired'' then ''decommissioned'' else ''active'')"

definition overview_filter :: "string \<Rightarrow> string \<Rightarrow> bool \<Rightarrow> bool \<Rightarrow> fnode list \<Rightarrow> fnode list" where
  "overview_filter stateF roleF showRetired showDeleted fleet = filter (\<lambda>n.
     \<not> (rowLc n = ''deleted'' \<and> \<not> showDeleted) \<and> \<not> (rowLc n = ''decommissioned'' \<and> \<not> showRetired) \<and>
     (stateF = ''all'' \<or> fn_state n = stateF) \<and> (roleF = ''all'' \<or> fn_role n = roleF)) fleet"

definition lcCounts :: "fnode list \<Rightarrow> nat \<times> nat" where
  "lcCounts fleet = (length (filter (\<lambda>n. rowLc n = ''decommissioned'') fleet), length (filter (\<lambda>n. rowLc n = ''deleted'') fleet))"

text \<open>The blocks of the heat map: the nodes of each known segment, and the others by the name of their pool.\<close>

definition pool_name :: "fnode \<Rightarrow> string" where
  "pool_name n = (if fn_segName n = [] then ''Other'' else fn_segName n)"

definition heat_blocks :: "string list \<Rightarrow> fnode list \<Rightarrow> (string \<times> fnode list) list" where
  "heat_blocks segs nodes = map (\<lambda>g. (g, filter (\<lambda>n. fn_segId n = g) nodes)) segs @
     (let loose = filter (\<lambda>n. fn_segId n \<notin> set segs) nodes in
      map (\<lambda>k. (''pool:'' @ k, filter (\<lambda>n. pool_name n = k) loose)) (key_order (map pool_name loose)))"

lemma filters_hide_only_lifecycle:
  "n \<in> set fleet \<Longrightarrow> n \<in> set (overview_filter ''all'' ''all'' a b fleet) \<longleftrightarrow>
   (rowLc n = ''deleted'' \<longrightarrow> b) \<and> (rowLc n = ''decommissioned'' \<longrightarrow> a)"
  by (auto simp: overview_filter_def)

text \<open>Every node of the list is in exactly one block of the heat map.\<close>

lemma heat_blocks_cover:
  assumes "distinct segs" "n \<in> set nodes"
  shows "\<exists>!b. b \<in> set (heat_blocks segs nodes) \<and> n \<in> set (snd b)"
proof (cases "fn_segId n \<in> set segs")
  case True
  show ?thesis
    by (rule ex1I [of _ "(fn_segId n, filter (\<lambda>m. fn_segId m = fn_segId n) nodes)"])
      (use True assms(2) in \<open>auto simp: heat_blocks_def Let_def set_key_order\<close>)
next
  case False
  show ?thesis
    by (rule ex1I [of _ "(''pool:'' @ pool_name n, filter (\<lambda>m. pool_name m = pool_name n) (filter (\<lambda>n. fn_segId n \<notin> set segs) nodes))"])
      (use False assms(2) in \<open>auto simp: heat_blocks_def Let_def set_key_order\<close>)
qed

end
