(* ===== verification/AlertView.thy ===== *)
theory AlertView
  imports JsValue
begin

section \<open>The alerts screen\<close>

text \<open>
  \<open>screens.jsx\<close>, \<open>AlertsScreen\<close>: the status of an alert, the active board and the history, the groups by
  system, acknowledging one alert or all, and the rule list with its optimistic toggle.  The model's alerts are
  a list in the order the API adapter gives; the screen adds the events acknowledged here (\<open>acked\<close>).  Lemmas:
  the groups are the list split by system; acknowledging all empties the board and hides nothing that was not on
  it; a refused toggle puts the rule back.
\<close>

record alert =
  av_event :: nat
  av_node :: string
  av_severity :: string
  av_ackedAt :: bool
  av_cleared :: bool
  av_clearedMin :: "real option"

type_synonym acked = "(nat \<times> bool) list"

definition isAcked :: "acked \<Rightarrow> alert \<Rightarrow> bool" where
  "isAcked acked a \<longleftrightarrow> av_ackedAt a \<or> map_of acked (av_event a) = Some True"

definition rowStatus :: "acked \<Rightarrow> alert \<Rightarrow> string" where
  "rowStatus acked a = (if isAcked acked a then ''acked'' else if av_cleared a then ''cleared'' else ''active'')"

text \<open>The board shows what is not acknowledged and still firing or cleared within the hour.\<close>

definition inActive :: "acked \<Rightarrow> alert \<Rightarrow> bool" where
  "inActive acked a \<longleftrightarrow> \<not> isAcked acked a \<and> (\<not> av_cleared a \<or> (case av_clearedMin a of Some m \<Rightarrow> m | None \<Rightarrow> 0) < 60)"

definition unhandled :: "acked \<Rightarrow> alert \<Rightarrow> bool" where
  "unhandled acked a \<longleftrightarrow> \<not> isAcked acked a \<and> \<not> av_cleared a"

definition alert_list :: "string \<Rightarrow> acked \<Rightarrow> alert list \<Rightarrow> alert list" where
  "alert_list tab acked alerts = filter (\<lambda>a. if tab = ''history'' then \<not> inActive acked a else inActive acked a) alerts"

definition severity_count :: "string \<Rightarrow> acked \<Rightarrow> alert list \<Rightarrow> nat" where
  "severity_count sev acked alerts = length (filter (\<lambda>a. unhandled acked a \<and> av_severity a = sev) alerts)"

subsection \<open>Groups\<close>

definition group_key :: "alert \<Rightarrow> string" where
  "group_key a = (if av_node a = [] then ''Fleet / probes'' else av_node a)"

definition add_to_group :: "alert \<Rightarrow> (string \<times> alert list) list \<Rightarrow> (string \<times> alert list) list" where
  "add_to_group a gs = (case map_of gs (group_key a) of
       None \<Rightarrow> gs @ [(group_key a, [a])]
     | Some es \<Rightarrow> put (group_key a) (es @ [a]) gs)"

definition alert_groups :: "alert list \<Rightarrow> (string \<times> alert list) list" where
  "alert_groups xs = fold add_to_group xs []"

definition firsts :: "'a list \<Rightarrow> 'a list" where
  "firsts xs = rev (remdups (rev xs))"

lemma firsts_snoc: "firsts (xs @ [x]) = (if x \<in> set xs then firsts xs else firsts xs @ [x])"
  by (simp add: firsts_def)

lemma set_firsts [simp]: "set (firsts xs) = set xs"
  by (simp add: firsts_def)

lemma distinct_firsts: "distinct (firsts xs)"
  by (simp add: firsts_def)

lemma put_map:
  "distinct ks \<Longrightarrow> k \<in> set ks \<Longrightarrow> put k v (map (\<lambda>k. (k, f k)) ks) = map (\<lambda>k'. (k', if k' = k then v else f k')) ks"
  by (induction ks) auto

lemma map_of_map_keys: "map_of (map (\<lambda>k. (k, f k)) ks) k = (if k \<in> set ks then Some (f k) else None)"
  by (induction ks) auto

lemma groups_split:
  "alert_groups xs = map (\<lambda>k. (k, filter (\<lambda>a. group_key a = k) xs)) (firsts (map group_key xs))"
proof (induction xs rule: rev_induct)
  case (snoc a xs)
  let ?f = "\<lambda>xs k. filter (\<lambda>a. group_key a = k) xs"
  have step: "alert_groups (xs @ [a]) = add_to_group a (map (\<lambda>k. (k, ?f xs k)) (firsts (map group_key xs)))"
    using snoc by (simp add: alert_groups_def)
  show ?case
  proof (cases "group_key a \<in> group_key ` set xs")
    case True
    then show ?thesis unfolding step by (auto simp: add_to_group_def map_of_map_keys put_map distinct_firsts firsts_snoc)
  next
    case False
    then have "?f xs (group_key a) = []" unfolding filter_empty_conv by (metis imageI)
    then show ?thesis unfolding step using False by (auto simp: add_to_group_def map_of_map_keys firsts_snoc)
  qed
qed (simp add: alert_groups_def firsts_def)

subsection \<open>Acknowledging\<close>

definition ack_done :: "nat \<Rightarrow> acked \<Rightarrow> acked" where
  "ack_done e acked = put e True acked"

text \<open>The events on the board when the button is pressed, and what the answer does with them.\<close>

definition ackAll_ids :: "acked \<Rightarrow> alert list \<Rightarrow> nat list" where
  "ackAll_ids acked alerts = map av_event (filter (inActive acked) alerts)"

definition ackAll_finish :: "nat list \<Rightarrow> acked \<Rightarrow> acked" where
  "ackAll_finish ids acked = fold (\<lambda>e m. put e True m) ids acked"

lemma acked_finish: "map_of (ackAll_finish ids acked) e = (if e \<in> set ids then Some True else map_of acked e)"
  unfolding ackAll_finish_def by (induction ids arbitrary: acked) (auto simp: map_of_put)

lemma inActive_finish:
  "inActive (ackAll_finish ids acked) a \<longleftrightarrow> inActive acked a \<and> av_event a \<notin> set ids"
  by (auto simp: inActive_def isAcked_def acked_finish)

subsection \<open>Rules\<close>

record rule =
  ru_id :: nat
  ru_name :: string
  ru_enabled :: bool
  ru_threshold :: real

definition set_enabled :: "nat \<Rightarrow> bool \<Rightarrow> rule list \<Rightarrow> rule list" where
  "set_enabled i b rs = map (\<lambda>r. if ru_id r = i then r\<lparr>ru_enabled := b\<rparr> else r) rs"

definition toggle_next :: "nat \<Rightarrow> rule list \<Rightarrow> bool" where
  "toggle_next i rs = (case find (\<lambda>r. ru_id r = i) rs of Some r \<Rightarrow> \<not> ru_enabled r | None \<Rightarrow> True)"

definition toggleRule :: "nat \<Rightarrow> rule list \<Rightarrow> rule list" where
  "toggleRule i rs = set_enabled i (toggle_next i rs) rs"

definition toggle_refused :: "nat \<Rightarrow> bool \<Rightarrow> rule list \<Rightarrow> rule list" where
  "toggle_refused i nxt rs = set_enabled i (\<not> nxt) rs"

definition setThreshold :: "nat \<Rightarrow> real \<Rightarrow> rule list \<Rightarrow> rule list" where
  "setThreshold i v rs = map (\<lambda>r. if ru_id r = i then r\<lparr>ru_threshold := v\<rparr> else r) rs"

definition createRule_id :: "rule list \<Rightarrow> nat" where
  "createRule_id rs = fold (\<lambda>r m. max m (ru_id r)) rs 0 + 1"

definition createRule_done :: "rule \<Rightarrow> rule list \<Rightarrow> rule list" where
  "createRule_done r rs = rs @ [r]"

definition deleteRule_done :: "nat \<Rightarrow> rule list \<Rightarrow> rule list" where
  "deleteRule_done i rs = filter (\<lambda>r. ru_id r \<noteq> i) rs"

lemma fold_rule_max: "m \<le> fold (\<lambda>r m. max m (ru_id r)) rs m \<and> (\<forall>r\<in>set rs. ru_id r \<le> fold (\<lambda>r m. max m (ru_id r)) rs m)"
proof (induction rs arbitrary: m)
  case (Cons r rs)
  show ?case using Cons.IH [of "max m (ru_id r)"] by auto
qed simp

lemma createRule_fresh: "createRule_id rs \<notin> ru_id ` set rs"
proof
  assume "createRule_id rs \<in> ru_id ` set rs"
  then obtain r where "r \<in> set rs" "ru_id r = createRule_id rs" by auto
  then show False using fold_rule_max [of 0 rs] by (auto simp: createRule_id_def)
qed

lemma toggle_refused_restores:
  assumes "distinct (map ru_id rs)"
  shows "toggle_refused i (toggle_next i rs) (toggleRule i rs) = rs"
proof -
  have "(if ru_id r = i then r\<lparr>ru_enabled := \<not> toggle_next i rs\<rparr> else r) = r" if r: "r \<in> set rs" for r
  proof (cases "ru_id r = i")
    case True
    have "find (\<lambda>r. ru_id r = i) rs = Some r"
    proof (cases "find (\<lambda>r. ru_id r = i) rs")
      case None
      then show ?thesis using r True by (auto simp: find_None_iff)
    next
      case (Some q)
      then have "q \<in> set rs" "ru_id q = i" by (auto simp: find_Some_iff)
      then show ?thesis using Some assms r True by (auto simp: distinct_map inj_on_def)
    qed
    then show ?thesis using True by (simp add: toggle_next_def)
  qed simp
  then have "set_enabled i (\<not> toggle_next i rs) rs = rs" unfolding set_enabled_def by (rule map_idI)
  moreover have "set_enabled i b (set_enabled i c rs) = set_enabled i b rs" for b c by (simp add: set_enabled_def)
  ultimately show ?thesis unfolding toggle_refused_def toggleRule_def by simp
qed

subsection \<open>Main property\<close>

text \<open>Property C38. The alerts screen loses nothing: its groups are the listed alerts split by system, in the order in
which the systems first appear and with the order inside each kept; acknowledging all leaves the board of the alerts it was
pressed on empty; and whatever alerts the next refresh brings, only those that were on that board are hidden by it.\<close>

theorem alerts_screen_exact:
  "alert_groups xs = map (\<lambda>k. (k, filter (\<lambda>a. group_key a = k) xs)) (firsts (map group_key xs)) \<and>
   alert_list ''active'' (ackAll_finish (ackAll_ids acked alerts) acked) alerts = [] \<and>
   alert_list ''active'' (ackAll_finish (ackAll_ids acked alerts) acked) later =
     filter (\<lambda>a. av_event a \<notin> av_event ` set (alert_list ''active'' acked alerts)) (alert_list ''active'' acked later)"
proof -
  have "alert_list ''active'' (ackAll_finish (ackAll_ids acked alerts) acked) later =
     filter (\<lambda>a. av_event a \<notin> av_event ` set (alert_list ''active'' acked alerts)) (alert_list ''active'' acked later)" for later
    by (auto simp: alert_list_def ackAll_ids_def inActive_finish intro!: filter_cong)
  moreover from this [of alerts] have "alert_list ''active'' (ackAll_finish (ackAll_ids acked alerts) acked) alerts = []"
    by (auto simp: filter_empty_conv)
  ultimately show ?thesis using groups_split by blast
qed

end
