(* ===== verification/InvTree.thy ===== *)
theory InvTree
  imports JsValue
begin

section \<open>Inventory: the tree of locations\<close>

text \<open>
  \<open>screens4.jsx\<close>, the locations tab: the rows of the API are flattened and renamed (\<open>normLocations\<close>), and the
  screen offers what the level rules allow (\<open>legalUnder\<close>, \<open>childTypesFor\<close>): new locations inside a location,
  another level for a location, another place for it outside its own subtree (\<open>subtree\<close>), a merge target, and a
  batch of storage units (\<open>bulkPlan\<close>).  Lemmas: flattening is idempotent; the worklist of \<open>subtree\<close> ends
  with exactly the descendants; what the screen offers keeps the tree a legal forest; a batch without errors has distinct
  names and codes that are free.  Objects used as sets are read at their own keys only.
\<close>

subsection \<open>Reading the rows\<close>

definition LOC_TYPES :: "string list" where
  "LOC_TYPES = [''property'', ''floor'', ''room'', ''section'', ''storage_unit'']"

definition LEGACY_LOC_TYPE :: "(string \<times> string) list" where
  "LEGACY_LOC_TYPE = [(''site'', ''property''), (''building'', ''property''), (''rack'', ''storage_unit''), (''shelf'', ''storage_unit''),
     (''position'', ''storage_unit''), (''zone'', ''storage_unit''), (''cabinet'', ''storage_unit''), (''drawer'', ''storage_unit''),
     (''tray'', ''storage_unit''), (''bin'', ''storage_unit''), (''container'', ''storage_unit'')]"

definition locType :: "jval \<Rightarrow> jval" where
  "locType t = (if t \<in> JStr ` set LOC_TYPES then t
     else (case map_of LEGACY_LOC_TYPE (js_String t) of Some x \<Rightarrow> JStr x | None \<Rightarrow> JStr ''storage_unit''))"

definition pick_key :: "jval \<Rightarrow> string \<Rightarrow> string \<Rightarrow> jval" where
  "pick_key n camel snake = jnn (jget n camel) (jnn (jget n snake) JNull)"

definition norm_row :: "jval \<Rightarrow> (string \<times> jval) list" where
  "norm_row n = [(''id'', jget n ''id''), (''parent_id'', pick_key n ''parentId'' ''parent_id''), (''name'', jget n ''name''),
     (''code'', jnn (jget n ''code'') JNull), (''loc_type'', locType (jor (jget n ''locType'') (jget n ''loc_type''))),
     (''container_type_id'', pick_key n ''containerTypeId'' ''container_type_id''),
     (''assigned_project_id'', pick_key n ''assignedProjectId'' ''assigned_project_id''), (''notes'', jnn (jget n ''notes'') JNull),
     (''updated_at'', pick_key n ''updatedAt'' ''updated_at'')]"

definition loc_kids :: "jval \<Rightarrow> jval list" where
  "loc_kids n = jarr (jget n ''children'')"

lemma size_kids: "size_list size (loc_kids n) \<le> size n"
proof (cases n)
  case (JObj kvs)
  show ?thesis
  proof (cases "map_of kvs ''children''")
    case (Some v)
    then have "(''children'', v) \<in> set kvs" by (rule map_of_SomeD)
    then have "size v \<le> size_list (size_prod (\<lambda>_. 0) size) kvs" by (force dest: size_list_estimation' [where f = "size_prod (\<lambda>_. 0) size"])
    then show ?thesis using JObj Some by (cases v) (simp_all add: loc_kids_def)
  qed (simp add: loc_kids_def JObj)
qed (simp_all add: loc_kids_def)

function loc_walk :: "jval list \<Rightarrow> (string \<times> jval) list list" where
  "loc_walk [] = []"
| "loc_walk (n # ns) = (if truthy n then norm_row n # loc_walk (loc_kids n) else []) @ loc_walk ns"
  by pat_completeness auto
termination
  by (relation "measure (size_list size)") (use size_kids in \<open>auto simp: less_Suc_eq_le trans_le_add1\<close>)

definition normLocations :: "jval list \<Rightarrow> (string \<times> jval) list list" where
  "normLocations xs = loc_walk xs"

lemma locType_idem: "locType (locType t) = locType t" "locType t \<in> JStr ` set LOC_TYPES"
proof -
  have leg: "map_of LEGACY_LOC_TYPE k = Some x \<Longrightarrow> x \<in> set LOC_TYPES" for k x
    by (auto simp: LEGACY_LOC_TYPE_def LOC_TYPES_def split: if_splits)
  show t: "locType t \<in> JStr ` set LOC_TYPES"
    by (auto simp: locType_def dest: leg split: option.splits) (simp add: LOC_TYPES_def)
  show "locType (locType t) = locType t" using t by (simp add: locType_def [of "locType t"])
qed

lemma norm_row_again: "truthy (JObj (norm_row n)) \<and> norm_row (JObj (norm_row n)) = norm_row n \<and> loc_kids (JObj (norm_row n)) = []"
proof -
  have "jor JUndef (locType t) = locType t" for t by (simp add: jor_def)
  then show ?thesis by (simp add: norm_row_def loc_kids_def pick_key_def jnn_def locType_idem)
qed

text \<open>Reading rows that were read before changes nothing.\<close>

lemma norm_idempotent: "normLocations (map JObj (normLocations xs)) = normLocations xs"
proof -
  have "loc_walk (map JObj rows) = rows" if "\<forall>r\<in>set rows. \<exists>n. r = norm_row n" for rows
    using that by (induction rows) (use norm_row_again in auto)
  moreover have "\<forall>r\<in>set (loc_walk xs). \<exists>n. r = norm_row n"
    by (induction xs rule: loc_walk.induct) auto
  ultimately show ?thesis by (simp add: normLocations_def)
qed

subsection \<open>Levels\<close>

record location =
  lo_id :: nat
  lo_parent :: "nat option"
  lo_name :: string
  lo_code :: string
  lo_type :: string
  lo_project :: "nat option"

definition LOC_CHILD_LEVEL :: "string \<Rightarrow> string option" where
  "LOC_CHILD_LEVEL t = (if t = ''property'' then Some ''floor'' else if t = ''floor'' then Some ''room''
     else if t = ''room'' then Some ''section'' else None)"

definition childTypesFor :: "string option \<Rightarrow> string list" where
  "childTypesFor parentType = (case parentType of None \<Rightarrow> [''property'']
     | Some p \<Rightarrow> (case LOC_CHILD_LEVEL p of Some c \<Rightarrow> [c, ''storage_unit''] | None \<Rightarrow> [''storage_unit'']))"

definition legalUnder :: "string \<Rightarrow> string option \<Rightarrow> bool" where
  "legalUnder type parentType \<longleftrightarrow> (if type = ''property'' then parentType = None
     else (case parentType of None \<Rightarrow> False | Some p \<Rightarrow> type = ''storage_unit'' \<or> LOC_CHILD_LEVEL p = Some type))"

lemma childTypesFor_legal: "set (childTypesFor p) \<subseteq> {t. legalUnder t p}"
  by (auto simp: childTypesFor_def legalUnder_def LOC_CHILD_LEVEL_def split: option.splits if_splits)

definition intField :: "string \<Rightarrow> nat \<Rightarrow> nat \<Rightarrow> nat option" where
  "intField v lo hi = (let s = js_trim v in
     if s \<noteq> [] \<and> list_all is_digit s \<and> lo \<le> dec_val s \<and> dec_val s \<le> hi then Some (dec_val s) else None)"

subsection \<open>The tree\<close>

definition byId :: "location list \<Rightarrow> nat \<Rightarrow> location option" where
  "byId ls i = map_of (map (\<lambda>l. (lo_id l, l)) (rev ls)) i"

text \<open>The children of a location, the rows without a known parent under 0.  The screen sorts each list for display;
  everything below reads the lists as collections, so they stay in the order of the rows.\<close>

definition childrenOf :: "location list \<Rightarrow> nat \<Rightarrow> location list" where
  "childrenOf ls k = filter (\<lambda>l. (case lo_parent l of Some p \<Rightarrow> if byId ls p \<noteq> None then p else 0 | None \<Rightarrow> 0) = k) ls"

function subtree_loop :: "location list \<Rightarrow> nat list \<Rightarrow> nat list \<Rightarrow> nat list" where
  "subtree_loop ls [] seen = seen"
| "subtree_loop ls (cur # stack) seen =
     (if cur \<in> set seen then subtree_loop ls stack seen
      else subtree_loop ls (rev (map lo_id (childrenOf ls cur)) @ stack) (seen @ [cur]))"
  by pat_completeness auto
termination
proof (relation "inv_image (less_than <*lex*> less_than) (\<lambda>(ls, stack, seen). (card ((lo_id ` set ls \<union> set stack) - set seen), length stack))", goal_cases)
  case (2 ls cur stack seen)
  have "card ((lo_id ` set ls \<union> set stack) - set seen) \<le> card ((lo_id ` set ls \<union> set (cur # stack)) - set seen)"
    by (intro card_mono) auto
  then show ?case by auto
next
  case (3 ls cur stack seen)
  have "lo_id ` set (childrenOf ls cur) \<subseteq> lo_id ` set ls" by (auto simp: childrenOf_def)
  then have "(lo_id ` set ls \<union> set (rev (map lo_id (childrenOf ls cur)) @ stack)) - set (seen @ [cur]) \<subset> (lo_id ` set ls \<union> set (cur # stack)) - set seen"
    using 3 by auto
  then have "card ((lo_id ` set ls \<union> set (rev (map lo_id (childrenOf ls cur)) @ stack)) - set (seen @ [cur])) <
      card ((lo_id ` set ls \<union> set (cur # stack)) - set seen)" by (intro psubset_card_mono) auto
  then show ?case by simp
qed auto

definition subtree :: "location list \<Rightarrow> nat \<Rightarrow> nat list" where
  "subtree ls i = subtree_loop ls [i] []"

fun ancestors_up :: "nat \<Rightarrow> location list \<Rightarrow> location option \<Rightarrow> location list" where
  "ancestors_up 0 ls l = []"
| "ancestors_up (Suc g) ls None = []"
| "ancestors_up (Suc g) ls (Some l) = ancestors_up g ls (case lo_parent l of Some p \<Rightarrow> byId ls p | None \<Rightarrow> None) @ [l]"

definition ancestors :: "location list \<Rightarrow> nat \<Rightarrow> location list" where
  "ancestors ls i = ancestors_up 64 ls (case byId ls i of Some l \<Rightarrow> (case lo_parent l of Some p \<Rightarrow> byId ls p | None \<Rightarrow> None) | None \<Rightarrow> None)"

text \<open>The edges from a location to the one it is in.\<close>

definition up_edges :: "location list \<Rightarrow> (nat \<times> nat) set" where
  "up_edges ls = {(lo_id l, p) |l p. l \<in> set ls \<and> lo_parent l = Some p}"

lemma subtree_keeps: "set seen \<subseteq> set (subtree_loop ls stack seen)"
  by (induction ls stack seen rule: subtree_loop.induct) auto

lemma subtree_covers: "x \<in> set stack \<Longrightarrow> x \<in> set (subtree_loop ls stack seen)"
proof (induction ls stack seen rule: subtree_loop.induct)
  case (2 ls cur stack seen)
  show ?case
  proof (cases "cur \<in> set seen")
    case True
    then show ?thesis using 2 subtree_keeps [of seen ls stack] by auto
  next
    case False
    then show ?thesis using 2(2) [OF False] 2(3) subtree_keeps [of "seen @ [cur]" ls "rev (map lo_id (childrenOf ls cur)) @ stack"] by auto
  qed
qed simp

definition kids_in :: "location list \<Rightarrow> nat list \<Rightarrow> nat list \<Rightarrow> bool" where
  "kids_in ls stack seen \<longleftrightarrow> (\<forall>x\<in>set seen. lo_id ` set (childrenOf ls x) \<subseteq> set seen \<union> set stack)"

lemma subtree_closed: "kids_in ls stack seen \<Longrightarrow> kids_in ls [] (subtree_loop ls stack seen)"
proof (induction ls stack seen rule: subtree_loop.induct)
  case (2 ls cur stack seen)
  show ?case
  proof (cases "cur \<in> set seen")
    case True
    then have "kids_in ls stack seen" using 2(3) by (auto simp: kids_in_def)
    then show ?thesis using 2(1) [OF True] True by simp
  next
    case False
    have "kids_in ls (rev (map lo_id (childrenOf ls cur)) @ stack) (seen @ [cur])" using 2(3) by (auto simp: kids_in_def)
    then show ?thesis using 2(2) [OF False] False by simp
  qed
qed simp

text \<open>Everything below a location is found.\<close>

lemma subtree_complete:
  assumes "(x, i) \<in> (up_edges ls)\<^sup>*" "\<And>l p. l \<in> set ls \<Longrightarrow> lo_parent l = Some p \<Longrightarrow> byId ls p \<noteq> None"
  shows "x \<in> set (subtree ls i)"
proof -
  have c: "kids_in ls [] (subtree ls i)" unfolding subtree_def by (rule subtree_closed) (simp add: kids_in_def)
  show ?thesis using assms(1)
  proof (induction rule: converse_rtrancl_induct)
    case base
    show ?case unfolding subtree_def by (rule subtree_covers) simp
  next
    case (step y z)
    then obtain l where l: "l \<in> set ls" "lo_id l = y" "lo_parent l = Some z" by (auto simp: up_edges_def)
    then have "l \<in> set (childrenOf ls z)" using assms(2) by (auto simp: childrenOf_def)
    then show ?case using c step l(2) by (auto simp: kids_in_def)
  qed
qed

subsection \<open>What the screen offers\<close>

definition type_of :: "location list \<Rightarrow> nat \<Rightarrow> string option" where
  "type_of ls i = map_option lo_type (byId ls i)"

text \<open>The levels a new location inside \<open>parent\<close> can have, and those an existing one can be changed to.\<close>

definition create_options :: "location option \<Rightarrow> string list" where
  "create_options parent = childTypesFor (map_option lo_type parent)"

definition edit_options :: "location list \<Rightarrow> location \<Rightarrow> string list" where
  "edit_options ls l = (let parentType = (case lo_parent l of Some p \<Rightarrow> type_of ls p | None \<Rightarrow> None) in
     filter (\<lambda>t. t = lo_type l \<or> legalUnder t parentType \<and> list_all (\<lambda>c. legalUnder (lo_type c) (Some t)) (childrenOf ls (lo_id l))) LOC_TYPES)"

definition move_candidates :: "location list \<Rightarrow> location \<Rightarrow> location list" where
  "move_candidates ls l = filter (\<lambda>c. lo_id c \<notin> set (subtree ls (lo_id l)) \<and> legalUnder (lo_type l) (Some (lo_type c))) ls"

definition merge_candidates :: "location list \<Rightarrow> location \<Rightarrow> (location \<times> bool) list" where
  "merge_candidates ls l = map (\<lambda>c. (c, lo_project l \<noteq> None \<and> lo_project c \<noteq> None \<and> lo_project c \<noteq> lo_project l))
     (filter (\<lambda>c. lo_type c = lo_type l \<and> lo_id c \<notin> set (subtree ls (lo_id l))) ls)"

text \<open>The requests and the statements by which the server stores them (\<open>location_admin.php\<close>, \<open>inventory.php\<close>), reduced to
  the columns of the tree.  The search text of the pickers only narrows the candidates.\<close>

definition moveLocation :: "nat \<Rightarrow> nat \<Rightarrow> location list \<Rightarrow> location list" where
  "moveLocation i p ls = map (\<lambda>l. if lo_id l = i then l\<lparr>lo_parent := Some p\<rparr> else l) ls"

definition retypeLocation :: "nat \<Rightarrow> string \<Rightarrow> location list \<Rightarrow> location list" where
  "retypeLocation i t ls = map (\<lambda>l. if lo_id l = i then l\<lparr>lo_type := t\<rparr> else l) ls"

definition createLocation :: "location \<Rightarrow> location list \<Rightarrow> location list" where
  "createLocation l ls = ls @ [l]"

definition loc_forest :: "location list \<Rightarrow> bool" where
  "loc_forest ls \<longleftrightarrow> distinct (map lo_id ls) \<and> 0 \<notin> lo_id ` set ls \<and> acyclic (up_edges ls) \<and>
     (\<forall>l\<in>set ls. (case lo_parent l of Some p \<Rightarrow> byId ls p \<noteq> None | None \<Rightarrow> True) \<and>
        legalUnder (lo_type l) (case lo_parent l of Some p \<Rightarrow> type_of ls p | None \<Rightarrow> None))"

lemma byId_mem: "distinct (map lo_id ls) \<Longrightarrow> l \<in> set ls \<Longrightarrow> byId ls (lo_id l) = Some l"
  unfolding byId_def by (intro map_of_is_SomeI) (auto simp: comp_def rev_map [symmetric])

lemma byId_Some: "byId ls i = Some l \<Longrightarrow> l \<in> set ls \<and> lo_id l = i"
  by (auto simp: byId_def dest!: map_of_SomeD)

lemma byId_None: "byId ls i = None \<longleftrightarrow> i \<notin> lo_id ` set ls"
  by (force simp: byId_def map_of_eq_None_iff)

lemma map_ids: "(\<And>l. lo_id (f l) = lo_id l) \<Longrightarrow> map lo_id (map f ls) = map lo_id ls"
  by (simp add: comp_def)

lemma byId_map:
  assumes "\<And>l. lo_id (f l) = lo_id l"
  shows "byId (map f ls) i = map_option f (byId ls i)"
proof -
  have "map_of (map (\<lambda>l. (lo_id l, l)) (map f xs)) i = map_option f (map_of (map (\<lambda>l. (lo_id l, l)) xs) i)" for xs
    by (induction xs) (simp_all add: assms)
  then show ?thesis by (simp only: byId_def rev_map)
qed

lemma forest_mapI:
  assumes "distinct (map lo_id ls)" "0 \<notin> lo_id ` set ls" "\<And>l. lo_id (f l) = lo_id l" "acyclic (up_edges (map f ls))"
    "\<And>x. x \<in> set ls \<Longrightarrow> (case lo_parent (f x) of Some p \<Rightarrow> byId (map f ls) p \<noteq> None | None \<Rightarrow> True) \<and>
      legalUnder (lo_type (f x)) (case lo_parent (f x) of Some p \<Rightarrow> type_of (map f ls) p | None \<Rightarrow> None)"
  shows "loc_forest (map f ls)"
  unfolding loc_forest_def using assms(1,2,4) assms(5) by (simp add: image_image assms(3) comp_def)

lemma move_forest:
  assumes "loc_forest ls" "l \<in> set ls" "c \<in> set (move_candidates ls l)"
  shows "loc_forest (moveLocation (lo_id l) (lo_id c) ls)"
proof -
  let ?f = "\<lambda>x. if lo_id x = lo_id l then x\<lparr>lo_parent := Some (lo_id c)\<rparr> else x"
  have ok: "distinct (map lo_id ls)" "acyclic (up_edges ls)" "\<And>l p. l \<in> set ls \<Longrightarrow> lo_parent l = Some p \<Longrightarrow> byId ls p \<noteq> None"
    "\<And>l. l \<in> set ls \<Longrightarrow> legalUnder (lo_type l) (case lo_parent l of Some p \<Rightarrow> type_of ls p | None \<Rightarrow> None)" "0 \<notin> lo_id ` set ls"
    using assms(1) by (auto simp: loc_forest_def split: option.splits)
  have c: "c \<in> set ls" "lo_id c \<notin> set (subtree ls (lo_id l))" "legalUnder (lo_type l) (Some (lo_type c))"
    using assms(3) by (auto simp: move_candidates_def)
  have e: "up_edges (map ?f ls) \<subseteq> insert (lo_id l, lo_id c) (up_edges ls)" by (force simp: up_edges_def split: if_splits)
  have "(lo_id c, lo_id l) \<notin> (up_edges ls)\<^sup>*" using subtree_complete [of "lo_id c" "lo_id l" ls] ok(3) c(2) by blast
  then have "acyclic (insert (lo_id l, lo_id c) (up_edges ls))" using ok(2) by (simp add: acyclic_insert)
  then have a: "acyclic (up_edges (map ?f ls))" using e by (rule acyclic_subset)
  have b: "byId (map ?f ls) i = map_option ?f (byId ls i)" for i by (rule byId_map) simp
  have t: "type_of (map ?f ls) i = type_of ls i" for i by (cases "byId ls i") (simp_all add: type_of_def b)
  have ct: "type_of ls (lo_id c) = Some (lo_type c)" "byId ls (lo_id c) \<noteq> None" using byId_mem [OF ok(1) c(1)] by (simp_all add: type_of_def)
  have "(case lo_parent (?f x) of Some p \<Rightarrow> byId (map ?f ls) p \<noteq> None | None \<Rightarrow> True) \<and>
      legalUnder (lo_type (?f x)) (case lo_parent (?f x) of Some p \<Rightarrow> type_of (map ?f ls) p | None \<Rightarrow> None)" if x: "x \<in> set ls" for x
  proof (cases "lo_id x = lo_id l")
    case True
    then have "x = l" using ok(1) x assms(2) by (auto simp: distinct_map inj_on_def)
    then show ?thesis using ct c(3) b t by simp
  next
    case False
    then show ?thesis using ok(3) [OF x] ok(4) [OF x] b t by (auto split: option.splits)
  qed
  then show ?thesis unfolding moveLocation_def by (intro forest_mapI [OF ok(1,5) _ a]) simp_all
qed

lemma childrenOf_child:
  assumes "x \<in> set ls" "lo_parent x = Some p" "byId ls p \<noteq> None"
  shows "x \<in> set (childrenOf ls p)"
  using assms by (simp add: childrenOf_def)

lemma up_edges_map:
  assumes "\<And>l. lo_id (f l) = lo_id l" "\<And>l. lo_parent (f l) = lo_parent l"
  shows "up_edges (map f ls) = up_edges ls"
proof -
  have "up_edges ls = (\<Union>l\<in>set ls. {(lo_id l, p) |p. lo_parent l = Some p})" for ls by (auto simp: up_edges_def)
  then show ?thesis by (simp add: assms)
qed

lemma retype_forest:
  assumes "loc_forest ls" "l \<in> set ls" "t \<in> set (edit_options ls l)"
  shows "loc_forest (retypeLocation (lo_id l) t ls)"
proof (cases "t = lo_type l")
  case True
  have "(if lo_id x = lo_id l then x\<lparr>lo_type := t\<rparr> else x) = x" if "x \<in> set ls" for x
    using assms(1,2) that True by (auto simp: loc_forest_def distinct_map inj_on_def)
  then have "retypeLocation (lo_id l) t ls = ls" unfolding retypeLocation_def by (rule map_idI)
  then show ?thesis using assms(1) by simp
next
  case False
  let ?f = "\<lambda>x. if lo_id x = lo_id l then x\<lparr>lo_type := t\<rparr> else x"
  have ok: "distinct (map lo_id ls)" "acyclic (up_edges ls)" "\<And>l p. l \<in> set ls \<Longrightarrow> lo_parent l = Some p \<Longrightarrow> byId ls p \<noteq> None"
    "\<And>l. l \<in> set ls \<Longrightarrow> legalUnder (lo_type l) (case lo_parent l of Some p \<Rightarrow> type_of ls p | None \<Rightarrow> None)" "0 \<notin> lo_id ` set ls"
    using assms(1) by (auto simp: loc_forest_def split: option.splits)
  have t: "legalUnder t (case lo_parent l of Some p \<Rightarrow> type_of ls p | None \<Rightarrow> None)"
    "\<And>c. c \<in> set (childrenOf ls (lo_id l)) \<Longrightarrow> legalUnder (lo_type c) (Some t)"
    using assms(3) False by (auto simp: edit_options_def Let_def list_all_iff)
  have "up_edges (map ?f ls) = up_edges ls" by (rule up_edges_map) simp_all
  then have a: "acyclic (up_edges (map ?f ls))" using ok(2) by simp
  have b: "byId (map ?f ls) i = map_option ?f (byId ls i)" for i by (rule byId_map) simp
  have ty: "type_of (map ?f ls) i = (if i = lo_id l then Some t else type_of ls i)" for i
    using byId_mem [OF ok(1) assms(2)] byId_Some [of ls i] by (cases "byId ls i") (auto simp: type_of_def b)
  have "(lo_id l, lo_id l) \<notin> up_edges ls" using ok(2) by (auto simp: acyclic_def)
  then have self: "lo_parent l \<noteq> Some (lo_id l)" using assms(2) by (auto simp: up_edges_def)
  have "(case lo_parent (?f x) of Some p \<Rightarrow> byId (map ?f ls) p \<noteq> None | None \<Rightarrow> True) \<and>
      legalUnder (lo_type (?f x)) (case lo_parent (?f x) of Some p \<Rightarrow> type_of (map ?f ls) p | None \<Rightarrow> None)" if x: "x \<in> set ls" for x
  proof (cases "lo_id x = lo_id l")
    case True
    then have "x = l" using ok(1) x assms(2) by (auto simp: distinct_map inj_on_def)
    then show ?thesis using t(1) self ok(3) [OF x] b ty by (auto split: option.splits)
  next
    case False
    then show ?thesis using ok(3) [OF x] ok(4) [OF x] childrenOf_child [OF x] t(2) [of x] b ty by (auto split: option.splits)
  qed
  then show ?thesis unfolding retypeLocation_def by (intro forest_mapI [OF ok(1,5) _ a]) simp_all
qed

lemma create_forest:
  assumes "loc_forest ls" "lo_id n \<notin> lo_id ` set ls" "0 < lo_id n" "lo_parent n = map_option lo_id parent"
    "\<And>p. parent = Some p \<Longrightarrow> p \<in> set ls" "lo_type n \<in> set (create_options parent)"
  shows "loc_forest (createLocation n ls)"
proof -
  have ok: "distinct (map lo_id ls)" "acyclic (up_edges ls)" "\<And>l p. l \<in> set ls \<Longrightarrow> lo_parent l = Some p \<Longrightarrow> byId ls p \<noteq> None"
    "\<And>l. l \<in> set ls \<Longrightarrow> legalUnder (lo_type l) (case lo_parent l of Some p \<Rightarrow> type_of ls p | None \<Rightarrow> None)" "0 \<notin> lo_id ` set ls"
    using assms(1) by (auto simp: loc_forest_def split: option.splits)
  have b: "byId (ls @ [n]) i = (if i = lo_id n then Some n else byId ls i)" for i by (simp add: byId_def)
  have "lo_id n \<notin> snd ` up_edges ls" using ok(3) assms(2) by (force simp: up_edges_def byId_None)
  then have "(p, lo_id n) \<notin> (up_edges ls)\<^sup>*" if "p \<noteq> lo_id n" for p using that by (metis rtranclE snd_conv image_eqI)
  moreover have "up_edges (ls @ [n]) = (case lo_parent n of Some p \<Rightarrow> insert (lo_id n, p) (up_edges ls) | None \<Rightarrow> up_edges ls)"
    by (auto simp: up_edges_def split: option.splits)
  moreover have par: "lo_parent n = Some p \<Longrightarrow> p \<in> lo_id ` set ls" for p using assms(4,5) by auto
  moreover have "lo_parent n = Some p \<Longrightarrow> p \<noteq> lo_id n" for p using par [of p] assms(2) by metis
  ultimately have a: "acyclic (up_edges (ls @ [n]))" using ok(2) by (cases "lo_parent n") (simp_all add: acyclic_insert)
  have "legalUnder (lo_type n) (map_option lo_type parent)" using assms(6) childTypesFor_legal by (auto simp: create_options_def)
  moreover have "map_option lo_type parent = (case lo_parent n of Some p \<Rightarrow> type_of ls p | None \<Rightarrow> None)"
    using assms(4,5) byId_mem [OF ok(1)] by (cases parent) (auto simp: type_of_def)
  ultimately have old: "(\<forall>p. lo_parent x = Some p \<longrightarrow> p \<noteq> lo_id n \<and> byId ls p \<noteq> None) \<and>
      legalUnder (lo_type x) (case lo_parent x of Some p \<Rightarrow> type_of ls p | None \<Rightarrow> None)" if "x \<in> set (ls @ [n])" for x
    using that par ok(3,4) assms(2) byId_None by fastforce
  have "(case lo_parent x of Some p \<Rightarrow> byId (ls @ [n]) p \<noteq> None | None \<Rightarrow> True) \<and>
      legalUnder (lo_type x) (case lo_parent x of Some p \<Rightarrow> type_of (ls @ [n]) p | None \<Rightarrow> None)" if "x \<in> set (ls @ [n])" for x
    using old [OF that] by (cases "lo_parent x") (simp_all add: b type_of_def)
  then show ?thesis using a ok(1,5) assms(2,3) unfolding loc_forest_def createLocation_def by auto
qed

subsection \<open>A batch of storage units\<close>

record bulk =
  bk_names :: bool
  bk_count :: string
  bk_prefix :: string
  bk_start :: string
  bk_pasted :: string
  bk_codePrefix :: string
  bk_codeStart :: string

datatype bulk_error =
    No_Names | Too_Many nat | Bad_Count | No_Prefix | Long_Prefix | Bad_Start | Long_Name | Twice string | Taken string
  | Long_CodePrefix | Bad_CodeStart | Long_Code | Code_Used string

text \<open>The lines of the pasted text: a carriage return before the line end goes with the trimming.\<close>

fun text_lines :: "string \<Rightarrow> string list" where
  "text_lines [] = [[]]"
| "text_lines (c # cs) = (if c = CHR 10 then [] # text_lines cs else (case text_lines cs of w # ws \<Rightarrow> (c # w) # ws | [] \<Rightarrow> [[c]]))"

definition low :: "string \<Rightarrow> string" where
  "low s = map low_char s"

fun first_twice :: "string list \<Rightarrow> string list \<Rightarrow> string option" where
  "first_twice seen [] = None"
| "first_twice seen (n # ns) = (if low n \<in> set seen then Some n else first_twice (low n # seen) ns)"

definition bulk_names :: "bulk \<Rightarrow> string list \<times> bulk_error list" where
  "bulk_names s = (if bk_names s
     then let names = filter (\<lambda>n. n \<noteq> []) (map js_trim (text_lines (bk_pasted s))) in
       (names, (if names = [] then [No_Names] else []) @ (if 500 < length names then [Too_Many (length names)] else []))
     else let count = intField (bk_count s) 1 500; start = intField (bk_start s) 0 999999999; prefix = js_trim (bk_prefix s) in
       (case (count, start) of (Some c, Some a) \<Rightarrow> if prefix = [] then [] else map (\<lambda>i. prefix @ nat_str (a + i)) [0..<c] | _ \<Rightarrow> [],
        (if count = None then [Bad_Count] else []) @ (if prefix = [] then [No_Prefix] else if 100 < length prefix then [Long_Prefix] else []) @
        (if start = None then [Bad_Start] else [])))"

definition bulk_codes :: "bulk \<Rightarrow> location list \<Rightarrow> string list \<Rightarrow> string option list \<times> bulk_error list" where
  "bulk_codes s ls names = (let codePrefix = js_trim (bk_codePrefix s) in
     if codePrefix = [] then (map (\<lambda>_. None) names, [])
     else let tooLong = (if 20 < length codePrefix then [Long_CodePrefix] else []) in
       (case intField (bk_codeStart s) 0 999999999 of
          None \<Rightarrow> (map (\<lambda>_. None) names, tooLong @ [Bad_CodeStart])
        | Some a \<Rightarrow> let codes = map (\<lambda>i. codePrefix @ nat_str (a + i)) [0..<length names];
              used = map (low \<circ> lo_code) (filter (\<lambda>l. lo_code l \<noteq> []) ls) in
            (map Some codes, tooLong @ (if list_ex (\<lambda>c. 32 < length c) codes then [Long_Code] else []) @
              (case find (\<lambda>c. low c \<in> set used) codes of Some c \<Rightarrow> [Code_Used c] | None \<Rightarrow> []))))"

definition bulkPlan :: "bulk \<Rightarrow> location list \<Rightarrow> location \<Rightarrow> string list \<times> string option list \<times> bulk_error list" where
  "bulkPlan s ls parent = (let (names, e1) = bulk_names s;
       e2 = (if list_ex (\<lambda>n. 128 < length n) names then [Long_Name] else []);
       e3 = (case first_twice [] names of Some n \<Rightarrow> [Twice n] | None \<Rightarrow> []);
       siblings = map (low \<circ> lo_name) (childrenOf ls (lo_id parent));
       e4 = (case find (\<lambda>n. low n \<in> set siblings) names of Some n \<Rightarrow> [Taken n] | None \<Rightarrow> []);
       (codes, e5) = bulk_codes s ls names
     in (names, codes, e1 @ e2 @ e3 @ e4 @ e5))"

lemma first_twice_None: "first_twice seen ns = None \<Longrightarrow> distinct (map low ns) \<and> low ` set ns \<inter> set seen = {}"
  by (induction seen ns rule: first_twice.induct) (auto split: if_splits)

lemma low_digits: "list_all is_digit s \<Longrightarrow> low s = s"
  by (auto simp: low_def list_all_iff is_digit_def low_char_def intro!: map_idI)

lemma numbered_distinct: "distinct (map (\<lambda>i. low (p @ nat_str (a + i))) [0..<n])"
proof -
  have "low (p @ nat_str k) = low p @ nat_str k" for k
    using low_digits [of "nat_str k"] nat_str_digits [of _ k] by (simp add: low_def list_all_iff)
  then show ?thesis by (simp add: distinct_map inj_on_def)
qed

lemma bulk_names_ok:
  assumes "bulk_names s = (names, [])"
  shows "names \<noteq> [] \<and> length names \<le> 500 \<and> [] \<notin> set names"
proof (cases "bk_names s")
  case True
  then show ?thesis using assms by (auto simp: bulk_names_def Let_def split: if_splits)
next
  case False
  then obtain c a where c: "intField (bk_count s) 1 500 = Some c" "js_trim (bk_prefix s) \<noteq> []"
    "names = map (\<lambda>i. js_trim (bk_prefix s) @ nat_str (a + i)) [0..<c]"
    using assms by (auto simp: bulk_names_def Let_def split: if_splits)
  have "1 \<le> c" "c \<le> 500" using c(1) by (auto simp: intField_def Let_def split: if_splits)
  then show ?thesis using c(2,3) by auto
qed

lemma find_None_all: "find P xs = None \<Longrightarrow> x \<in> set xs \<Longrightarrow> \<not> P x"
  by (auto simp: find_None_iff)

lemma bulk_codes_ok:
  assumes "bulk_codes s ls names = (codes, [])"
  shows "codes = map (\<lambda>_. None) names \<or> (\<exists>cs. codes = map Some cs \<and> length cs = length names \<and> distinct (map low cs) \<and>
    (\<forall>c\<in>set cs. length c \<le> 32 \<and> (\<forall>l\<in>set ls. lo_code l \<noteq> [] \<longrightarrow> low (lo_code l) \<noteq> low c)))"
proof (cases "js_trim (bk_codePrefix s) = []")
  case True
  then show ?thesis using assms by (simp add: bulk_codes_def Let_def)
next
  case False
  let ?p = "js_trim (bk_codePrefix s)"
  obtain a where a: "intField (bk_codeStart s) 0 999999999 = Some a"
    using assms False by (auto simp: bulk_codes_def Let_def split: option.splits)
  let ?cs = "map (\<lambda>i. ?p @ nat_str (a + i)) [0..<length names]"
  have c: "codes = map Some ?cs" "\<not> list_ex (\<lambda>c. 32 < length c) ?cs"
    "find (\<lambda>c. low c \<in> set (map (low \<circ> lo_code) (filter (\<lambda>l. lo_code l \<noteq> []) ls))) ?cs = None"
    using assms False a by (auto simp: bulk_codes_def Let_def split: option.splits if_splits)
  have "length x \<le> 32 \<and> (\<forall>l\<in>set ls. lo_code l \<noteq> [] \<longrightarrow> low (lo_code l) \<noteq> low x)" if "x \<in> set ?cs" for x
    using c(2) find_None_all [OF c(3) that] that by (force simp: list_ex_iff not_less)
  moreover have "distinct (map low ?cs)" using numbered_distinct [of ?p a "length names"] by (simp add: comp_def)
  ultimately show ?thesis using c(1) by (intro disjI2 exI [of _ ?cs]) auto
qed

text \<open>Property C35. A batch of storage units without errors can be created as a whole: it has between 1 and 500 units, each with a
name of at most 128 characters, no two names that differ only in case and none that a location inside the parent already has;
and its codes are either all absent or one per unit, of at most 32 characters, pairwise different and used by no location
anywhere.\<close>

theorem bulk_plan_safe:
  assumes "bulkPlan s ls parent = (names, codes, [])"
  shows "names \<noteq> [] \<and> length names \<le> 500 \<and> distinct (map low names) \<and>
    (\<forall>n\<in>set names. n \<noteq> [] \<and> length n \<le> 128 \<and> (\<forall>c\<in>set (childrenOf ls (lo_id parent)). low (lo_name c) \<noteq> low n)) \<and>
    (codes = map (\<lambda>_. None) names \<or> (\<exists>cs. codes = map Some cs \<and> length cs = length names \<and> distinct (map low cs) \<and>
      (\<forall>c\<in>set cs. length c \<le> 32 \<and> (\<forall>l\<in>set ls. lo_code l \<noteq> [] \<longrightarrow> low (lo_code l) \<noteq> low c))))"
proof -
  have p: "bulk_names s = (names, [])" "bulk_codes s ls names = (codes, [])" "\<not> list_ex (\<lambda>n. 128 < length n) names" "first_twice [] names = None"
    "find (\<lambda>n. low n \<in> set (map (low \<circ> lo_name) (childrenOf ls (lo_id parent)))) names = None"
    using assms by (auto simp: bulkPlan_def Let_def split: prod.splits option.splits if_splits)
  have "length n \<le> 128 \<and> (\<forall>c\<in>set (childrenOf ls (lo_id parent)). low (lo_name c) \<noteq> low n)" if "n \<in> set names" for n
    using p(3) find_None_all [OF p(5) that] that by (force simp: list_ex_iff not_less)
  then show ?thesis using bulk_names_ok [OF p(1)] bulk_codes_ok [OF p(2)] first_twice_None [OF p(4)] by auto
qed

definition sample_locations :: "location list" where
  "sample_locations =
     [\<lparr>lo_id = 1, lo_parent = None, lo_name = ''House'', lo_code = '''', lo_type = ''property'', lo_project = None\<rparr>,
      \<lparr>lo_id = 2, lo_parent = Some 1, lo_name = ''Cellar'', lo_code = ''C'', lo_type = ''floor'', lo_project = None\<rparr>,
      \<lparr>lo_id = 3, lo_parent = Some 2, lo_name = ''Lab'', lo_code = ''L'', lo_type = ''room'', lo_project = None\<rparr>,
      \<lparr>lo_id = 4, lo_parent = Some 3, lo_name = ''Bin'', lo_code = ''B9'', lo_type = ''storage_unit'', lo_project = None\<rparr>]"

definition sample_bulk :: bulk where
  "sample_bulk = \<lparr>bk_names = False, bk_count = ''2'', bk_prefix = '' Bin-'', bk_start = ''1'', bk_pasted = '''', bk_codePrefix = ''B'', bk_codeStart = ''1''\<rparr>"

lemma sample_fields:
  "intField ''1'' 0 999999999 = Some (Suc 0)" "intField ''2'' (Suc 0) 500 = Some 2" "js_trim '' Bin-'' = ''Bin-''" "js_trim ''B'' = ''B''"
  by (simp_all add: intField_def js_trim_def is_space_def is_digit_def dec_val_def digit_val_def Let_def)

lemma sample_digits: "nat_str (Suc 0) = ''1''" "nat_str (Suc (Suc 0)) = ''2''"
  by code_simp+

lemma sample_batch: "bulkPlan sample_bulk sample_locations (sample_locations ! 2) = ([''Bin-1'', ''Bin-2''], [Some ''B1'', Some ''B2''], [])"
  by (simp add: bulkPlan_def bulk_names_def bulk_codes_def sample_bulk_def sample_locations_def sample_fields sample_digits
    childrenOf_def byId_def low_def low_char_def upt_rec numeral_2_eq_2)

theorem bulk_plan_safe_witness: "distinct (map low [''Bin-1'', ''Bin-2'']) \<and> length [''Bin-1'', ''Bin-2''] \<le> 500"
  using bulk_plan_safe [OF sample_batch] by (elim conjE) (intro conjI)

text \<open>Property C13. Whatever the locations tab offers keeps the locations a legal forest, in which every level stands under a level
that allows it and nothing contains itself: moving a location to any place the picker lists, changing its level to any that
the form lists, and adding a location with a fresh identifier and any level listed for its place.\<close>

theorem offered_edits_keep_forest:
  assumes "loc_forest ls"
  shows "(\<forall>l\<in>set ls. (\<forall>c\<in>set (move_candidates ls l). loc_forest (moveLocation (lo_id l) (lo_id c) ls)) \<and>
      (\<forall>t\<in>set (edit_options ls l). loc_forest (retypeLocation (lo_id l) t ls))) \<and>
    (\<forall>n parent. 0 < lo_id n \<and> lo_id n \<notin> lo_id ` set ls \<and> lo_parent n = map_option lo_id parent \<and> set_option parent \<subseteq> set ls \<and>
      lo_type n \<in> set (create_options parent) \<longrightarrow> loc_forest (createLocation n ls))"
proof -
  have "loc_forest (createLocation n ls)" if "0 < lo_id n" "lo_id n \<notin> lo_id ` set ls" "lo_parent n = map_option lo_id parent" "set_option parent \<subseteq> set ls"
    "lo_type n \<in> set (create_options parent)" for n parent
    using create_forest [OF assms that(2,1,3) _ that(5)] that(4) by auto
  then show ?thesis using move_forest [OF assms] retype_forest [OF assms] by blast
qed

lemma sample_forest: "loc_forest sample_locations"
proof -
  have "wf (up_edges sample_locations)"
    by (rule wf_subset [OF wf_measure [of "\<lambda>n. 10 - n"]]) (auto simp: up_edges_def sample_locations_def)
  then have "acyclic (up_edges sample_locations)" by (rule wf_acyclic)
  then show ?thesis by (simp add: loc_forest_def sample_locations_def byId_def type_of_def legalUnder_def LOC_CHILD_LEVEL_def)
qed

lemma sample_candidate: "sample_locations ! 1 \<in> set (move_candidates sample_locations (sample_locations ! 3))"
  by code_simp

theorem offered_edits_keep_forest_witness: "loc_forest (moveLocation 4 2 sample_locations)"
proof -
  have "lo_id (sample_locations ! 3) = 4" "lo_id (sample_locations ! 1) = 2" "sample_locations ! 3 \<in> set sample_locations"
    by (simp_all add: sample_locations_def)
  then show ?thesis using offered_edits_keep_forest [OF sample_forest] sample_candidate by metis
qed

end
