(* ===== verification/Catalog.thy ===== *)
theory Catalog
  imports JsValue
begin

text \<open>Product types of the inventory (\<open>screens4.jsx\<close>): the display name composed from a brand and a model, the normal form of
a scanned code and the check of an article number (GTIN). Codes are compared in upper case with their blanks removed, as the
server does; the check digit is the modulo-10 sum with weights 3 and 1 from the right. The lemmas show what the check
digit detects and that composing a name twice changes nothing.\<close>

section \<open>The display name\<close>

definition ends_with :: "string \<Rightarrow> string \<Rightarrow> bool" where
  "ends_with m b \<longleftrightarrow> length m \<le> length b \<and> drop (length b - length m) b = m"

definition catalogName :: "string \<Rightarrow> string \<Rightarrow> string" where
  "catalogName make model = (let b = js_trim make; m = js_trim model in
     if b = [] then m else if m = [] then b else if starts_with b m then m else if ends_with m b then b else b @ '' '' @ m)"

definition typeTitle :: "string \<Rightarrow> string \<Rightarrow> string \<Rightarrow> string" where
  "typeTitle nm brand model = (let name = js_trim nm; m = js_trim model in
     if name = [] \<or> name = m
     then (if catalogName brand m \<noteq> [] then catalogName brand m else if name \<noteq> [] then name else ''Untitled'')
     else name)"

section \<open>Codes\<close>

datatype code_error = Empty_Code | Long_Article_Code | Bad_Gtin

definition normCode :: "string \<Rightarrow> string" where
  "normCode code = map up_char (filter (\<lambda>c. \<not> is_space c) code)"

fun gtin_sum :: "nat list \<Rightarrow> nat \<Rightarrow> nat \<Rightarrow> nat" where
  "gtin_sum [] weight acc = acc"
| "gtin_sum (d # ds) weight acc = gtin_sum ds (if weight = 3 then 1 else 3) (acc + d * weight)"

definition gtinValid :: "string \<Rightarrow> bool" where
  "gtinValid code \<longleftrightarrow> length code \<in> {8, 12, 13, 14} \<and> list_all is_digit code \<and>
     (let digits = map digit_val code; check = last digits; s = gtin_sum (rev (butlast digits)) 3 0
      in (10 - s mod 10) mod 10 = check)"

definition guessCodeType :: "string \<Rightarrow> string" where
  "guessCodeType code = (if gtinValid code then ''gtin'' else ''other'')"

definition codeError :: "string \<Rightarrow> string \<Rightarrow> code_error option" where
  "codeError code codeType = (if code = [] then Some Empty_Code else if 128 < length code then Some Long_Article_Code
     else if codeType = ''gtin'' \<and> \<not> gtinValid code then Some Bad_Gtin else None)"

section \<open>Lemmas\<close>

subsection \<open>Names\<close>

lemma catalogName_trimmed: "js_trim (catalogName make model) = catalogName make model"
proof -
  have "js_trim (b @ '' '' @ m) = b @ '' '' @ m" if "b = js_trim make" "m = js_trim model" "b \<noteq> []" "m \<noteq> []" for b m
    using that js_trim_ends [of make] js_trim_ends [of model] by (intro js_trim_fix) auto
  then show ?thesis by (auto simp: catalogName_def Let_def trim_idem)
qed

lemma catalogName_again: "catalogName make (catalogName make model) = catalogName make model"
proof (cases "js_trim make = []")
  case True
  then show ?thesis by (simp add: catalogName_def trim_idem)
next
  case False
  then have "catalogName make model \<noteq> []" "starts_with (js_trim make) (catalogName make model)"
    by (auto simp: catalogName_def Let_def starts_with_def)
  then show ?thesis unfolding catalogName_def [of make "catalogName make model"] Let_def catalogName_trimmed using False by simp
qed

subsection \<open>The check digit\<close>

text \<open>The sum with the check digit included, from the right, is a multiple of ten exactly for a valid number.\<close>

fun wsum :: "nat \<Rightarrow> nat list \<Rightarrow> nat" where
  "wsum w [] = 0"
| "wsum w (d # ds) = d * w + wsum (if w = 3 then 1 else 3) ds"

lemma gtin_sum_wsum: "gtin_sum ds w acc = acc + wsum w ds"
  by (induction ds w acc rule: gtin_sum.induct) auto

lemma digit_val_less: "is_digit c \<Longrightarrow> digit_val c < 10"
  unfolding is_digit_def digit_val_def by linarith

lemma digit_val_inj: "is_digit c \<Longrightarrow> is_digit d \<Longrightarrow> digit_val c = digit_val d \<Longrightarrow> c = d"
  by (simp add: is_digit_def digit_val_def) (metis eq_diff_iff of_char_eq_iff)

lemma check_digit_mod: "(c :: nat) < 10 \<Longrightarrow> (10 - s mod 10) mod 10 = c \<longleftrightarrow> (c + s) mod 10 = 0"
proof -
  assume c: "c < 10"
  have "(c + s) mod 10 = (c + s mod 10) mod 10" by (simp only: mod_add_right_eq)
  moreover have "(10 - r) mod 10 = c \<longleftrightarrow> (c + r) mod 10 = 0" if "r < 10" for r :: nat
    using that c by (cases "r = 0"; cases "c + r < 10") (auto simp: mod_if)
  ultimately show ?thesis by simp
qed

lemma gtinValid_wsum:
  "gtinValid code \<longleftrightarrow> length code \<in> {8, 12, 13, 14} \<and> list_all is_digit code \<and> wsum 1 (rev (map digit_val code)) mod 10 = 0"
proof (cases "length code \<in> {8, 12, 13, 14} \<and> list_all is_digit code")
  case True
  then obtain ds c where c: "code = ds @ [c]" by (metis insert_iff list.size(3) rev_exhaust singletonD zero_neq_numeral)
  have "digit_val c < 10" using True c digit_val_less by simp
  from check_digit_mod [OF this] show ?thesis using True c by (simp add: gtinValid_def Let_def gtin_sum_wsum)
next
  case False
  then show ?thesis unfolding gtinValid_def by blast
qed

definition wt :: "nat \<Rightarrow> nat \<Rightarrow> int" where
  "wt w i = (if even i then int w else 4 - int w)"

lemma wsum_update:
  "w = 1 \<or> w = 3 \<Longrightarrow> i < length ds \<Longrightarrow> int (wsum w (ds[i := x])) = int (wsum w ds) + wt w i * (int x - int (ds ! i))"
proof (induction w ds arbitrary: i rule: wsum.induct)
  case (2 w d ds)
  show ?case
  proof (cases i)
    case 0
    then show ?thesis by (simp add: wt_def algebra_simps)
  next
    case (Suc j)
    have "wt (if w = 3 then 1 else 3) j = wt w (Suc j)" using 2(2) by (auto simp: wt_def)
    then show ?thesis using 2(1) [of j] 2(2,3) Suc by (auto simp: algebra_simps)
  qed
qed simp

lemma wt_cases: "wt 1 i = 1 \<or> wt 1 i = 3"
  by (simp add: wt_def)

lemma wt_Suc: "wt 1 (Suc i) = 4 - wt 1 i"
  by (simp add: wt_def)

lemma gtin_rev_update:
  assumes "i < length code"
  shows "rev (map digit_val (code[i := d])) = (rev (map digit_val code))[length code - 1 - i := digit_val d]"
  using assms by (simp add: map_update rev_update)

lemma small_multiple: "wt 1 k * z mod 10 = 0 \<Longrightarrow> - 10 < z \<Longrightarrow> z < 10 \<Longrightarrow> z = 0"
  using wt_cases [of k] by (auto; presburger)

lemma gtin_change:
  assumes "gtinValid code" "i < length code" "is_digit d" "d \<noteq> code ! i"
  shows "\<not> gtinValid (code[i := d])"
proof
  assume v: "gtinValid (code[i := d])"
  let ?r = "rev (map digit_val code)" and ?k = "length code - 1 - i"
  have k: "?k < length ?r" "?r ! ?k = digit_val (code ! i)" using assms(2) by (simp_all add: rev_nth)
  have c: "is_digit (code ! i)" using assms(1,2) by (simp add: gtinValid_def list_all_length)
  have "wsum 1 ?r mod 10 = 0" "wsum 1 (?r[?k := digit_val d]) mod 10 = 0"
    using assms(1) v gtin_rev_update [OF assms(2)] unfolding gtinValid_wsum by simp_all
  then have "int (wsum 1 ?r) mod 10 = 0" "int (wsum 1 (?r[?k := digit_val d])) mod 10 = 0" by presburger+
  then have "wt 1 ?k * (int (digit_val d) - int (digit_val (code ! i))) mod 10 = 0"
    unfolding wsum_update [OF disjI1 [OF refl] k(1)] k(2) by presburger
  from small_multiple [OF this] have "digit_val d = digit_val (code ! i)"
    using digit_val_less [OF c] digit_val_less [OF assms(3)] by simp
  then show False using digit_val_inj [OF assms(3) c] assms(4) by simp
qed

lemma gtin_swap:
  assumes "gtinValid code" "Suc i < length code"
  shows "gtinValid (code[i := code ! Suc i, Suc i := code ! i]) \<longleftrightarrow>
    \<bar>int (digit_val (code ! i)) - int (digit_val (code ! Suc i))\<bar> \<in> {0, 5}"
proof -
  let ?r = "rev (map digit_val code)" and ?k = "length code - 1 - Suc i" and ?a = "digit_val (code ! i)" and ?b = "digit_val (code ! Suc i)"
  let ?c = "code[i := code ! Suc i, Suc i := code ! i]"
  have sk: "length code - 1 - i = Suc ?k" "Suc ?k < length ?r" "?k < length ?r" using assms(2) by simp_all
  have nth: "?r ! ?k = ?b" "?r ! Suc ?k = ?a" using assms(2) by (simp_all add: rev_nth Suc_diff_Suc)
  have dig: "is_digit (code ! j)" if "j < length code" for j using assms(1) that by (simp add: gtinValid_def list_all_length)
  have ab: "?a < 10" "?b < 10" using dig digit_val_less assms(2) by simp_all
  have "rev (map digit_val ?c) = ?r[Suc ?k := ?b, ?k := ?a]"
    using gtin_rev_update [of "Suc i" "code[i := code ! Suc i]" "code ! i"] gtin_rev_update [of i code "code ! Suc i"] assms(2) sk(1) by simp
  moreover have "list_all is_digit ?c" using dig assms(2) by (simp add: list_all_length nth_list_update)
  ultimately have "gtinValid ?c \<longleftrightarrow> wsum 1 (?r[Suc ?k := ?b, ?k := ?a]) mod 10 = 0"
    using assms(1) unfolding gtinValid_wsum by simp
  also have "\<dots> \<longleftrightarrow> int (wsum 1 (?r[Suc ?k := ?b, ?k := ?a])) mod 10 = 0" by presburger
  also have "int (wsum 1 (?r[Suc ?k := ?b, ?k := ?a])) = int (wsum 1 ?r) + wt 1 (Suc ?k) * (int ?b - int ?a) + wt 1 ?k * (int ?a - int ?b)"
    using wsum_update [of 1 ?k "?r[Suc ?k := ?b]" ?a] wsum_update [of 1 "Suc ?k" ?r ?b] sk nth by simp
  also have "\<dots> = int (wsum 1 ?r) + (2 * wt 1 ?k - 4) * (int ?a - int ?b)" unfolding wt_Suc by (simp add: algebra_simps)
  finally have "gtinValid ?c \<longleftrightarrow> (int (wsum 1 ?r) + (2 * wt 1 ?k - 4) * (int ?a - int ?b)) mod 10 = 0" .
  moreover have "wsum 1 ?r mod 10 = 0" using assms(1) unfolding gtinValid_wsum by blast
  then have "int (wsum 1 ?r) mod 10 = 0" by presburger
  ultimately have "gtinValid ?c \<longleftrightarrow> (2 * (int ?a - int ?b)) mod 10 = 0" using wt_cases [of ?k] by (elim disjE) (simp_all, presburger+)
  then show ?thesis using ab by simp presburger
qed

text \<open>Property C37. The article-number check catches every mistyped digit, and every swap of two neighbouring digits except
those that differ by exactly five (which no modulo-10 check with these weights can see).\<close>

theorem gtin_detects:
  assumes "gtinValid code" "i < length code"
  shows "(\<forall>d. is_digit d \<and> d \<noteq> code ! i \<longrightarrow> \<not> gtinValid (code[i := d])) \<and>
    (Suc i < length code \<longrightarrow> (gtinValid (code[i := code ! Suc i, Suc i := code ! i]) \<longleftrightarrow>
      \<bar>int (digit_val (code ! i)) - int (digit_val (code ! Suc i))\<bar> \<in> {0, 5}))"
  using gtin_change [OF assms] gtin_swap [OF assms(1)] by blast

lemma sample_gtin: "gtinValid ''4006381333931''"
  by (simp add: gtinValid_def is_digit_def digit_val_def Let_def)

theorem gtin_detects_witness: "\<not> gtinValid ''4006381333932'' \<and> \<not> gtinValid ''4006381333391''"
proof -
  have "\<not> gtinValid (''4006381333931''[12 := CHR ''2''])"
    using gtin_detects [OF sample_gtin, of 12] by (simp add: is_digit_def)
  moreover have "\<not> gtinValid (''4006381333931''[10 := CHR ''3'', 11 := CHR ''9''])"
    using gtin_detects [OF sample_gtin, of 10] by (simp add: digit_val_def)
  ultimately show ?thesis by simp
qed

end
