(* ===== verification/Spec2Isabelle.thy ===== *)
theory Spec2Isabelle
  imports PanelPage TopoPlace ServiceWorker Boot ApiLive ApiScan ProvEdit ProvReopen FleetView AlertView InvTree Catalog
begin

text \<open>
  This library models the browser side of the Solarinet dashboard (\<open>src/dashboard/public/\<close>): the virtual
  panel (\<open>screens-panel.jsx\<close>), the topology layout (\<open>layout.jsx\<close>), the API adapter (\<open>api.jsx\<close>), the service
  worker (\<open>sw.js\<close>), the loader with its worker (\<open>boot.js\<close>, \<open>transform-worker.js\<close>) and the decisions behind
  the provisioning, fleet, alerts and inventory screens (\<open>screens-prov.jsx\<close>, \<open>screens.jsx\<close>, \<open>screens4.jsx\<close>).  The loader compiles
  and evaluates the sources; the adapter fetches the model \<open>window.SOLARI\<close> and sends the writes; the panel
  page polls through the adapter and paints; the service worker answers requests from the network or from
  its shell cache.

  Shared ground.
  \<^item> \<open>Prelude\<close>: counted loops, slices, JavaScript objects as association lists (\<open>put\<close>, \<open>del\<close>) and the
    contracts of a keyed store and of a pixel store as locales, interpreted on the framebuffer, on objects
    and on the caches.
  \<^item> \<open>JsValue\<close>: decoded JSON values, truthiness, \<open>Number\<close>, \<open>String\<close>, \<open>toFixed\<close>, \<open>Math.round\<close>, 32-bit shifts.
    Doubles are idealised as reals; results that may not be finite have their own type.

  The virtual panel (\<open>screens-panel.jsx\<close>).
  \<^item> \<open>PanelFb\<close>, \<open>PanelFont\<close>: the 53 by 11 framebuffer, palette, fonts and text helpers.
  \<^item> \<open>PanelHist\<close>: \<open>resampleRings\<close> against a search of the whole history, \<open>buildEnv\<close>.
  \<^item> \<open>PanelClock\<close>, \<open>PanelFleet\<close>, \<open>PanelTraffic\<close>, \<open>PanelTrouble\<close>: paging and the sixteen screens.  Tiles are
    disjoint and on the panel; the flow map of a table of links without negative or fractional parents is drawn
    without an exception, every link once.
  \<^item> \<open>PanelPaint\<close>: \<open>paintScreen\<close> with its overlays; frames stay well-formed and an armed alarm is shown.
  \<^item> \<open>PanelCfg\<close>: packings, keys and the decoders of the rotation report.
  \<^item> \<open>PanelCmd\<close>: pending commands, with the interleavings of clicks, answers, timers, polls and renders; a control waits at
    most 130 s and is shown as applied only on the server's word.
  \<^item> \<open>PanelPoll\<close>, \<open>PanelPage\<close>: the poll loop, roles, and the frame loop, which refines repainting everything.

  The topology layout (\<open>layout.jsx\<close>).
  \<^item> \<open>Topo\<close>: the definitions of every stage of \<open>compute\<close>.
  \<^item> \<open>TopoForest\<close>: union-find terminates; Kruskal's loop gives a minimum spanning forest.
  \<^item> \<open>TopoPlace\<close>: breadth-first depths are distances, every node gets a place, the root that is called for is at the origin, the
    refinement moves little.

  The service worker and the loader.
  \<^item> \<open>ServiceWorker\<close>: install, activate, fetch, and the refresh queue; no API answer is ever cached and offline
    answers are the newest copies.
  \<^item> \<open>Boot\<close>: the loading pipeline with its compiled-code cache and worker; the page runs the sources just fetched.

  The API adapter (\<open>api.jsx\<close>).
  \<^item> \<open>ApiWire\<close>: ages, percentages, labels, the base address, the mode hint, URI encoding.
  \<^item> \<open>ApiCalls\<close>: the endpoint table, the methods of the \<open>API\<close> object, \<open>getJSON\<close> with its write gate, and
    \<open>uploadReceipt\<close>, which goes around it.
  \<^item> \<open>ApiScan\<close>: idempotency keys of discovery scans and their storage; a retry reuses its key.
  \<^item> \<open>ApiInventory\<close>: paging of collections (at most 100 pages of 1000 rows, which is the measure of its
    termination) and the snapshot with its generations.
  \<^item> \<open>ApiMap\<close>: the mappers from wire rows to the model, with every \<open>TypeError\<close> they can raise as \<open>None\<close>.
  \<^item> \<open>ApiLive\<close>: optional reads, the assembly of the model, the refresh with its follow-up, the start-up
    and the release check.

  The screens.
  \<^item> \<open>ProvOrder\<close> (\<open>screens-prov.jsx\<close>): the stacks a run needs and the order they are installed in; the worklist and
    the selection loop end, and the result is the least order there is, or a cycle when there is none.
  \<^item> \<open>ProvPlan\<close>: the deploy view, from the readiness of stacks to the request of the confirmation dialog; what
    the dialog can send keeps the contract of a deployment.
  \<^item> \<open>ProvForms\<close>: pool entries as forms and back; a row of the shape the editor writes, saved without an edit, sends nothing.
  \<^item> \<open>ProvReopen\<close>: whatever is entered and saved comes back when the entry is opened again.
  \<^item> \<open>ProvEdit\<close>: the resource hook under every order of answers, refresh waits, status lines, member orders.
  \<^item> \<open>FleetView\<close> (\<open>screens.jsx\<close>): the freshness badge, roles, lifecycle buttons, the attention list, filters and
    heat-map blocks; the list misses no critical alert and no warning on a system, only warnings without one.
  \<^item> \<open>AlertView\<close> (\<open>screens.jsx\<close>): the alerts board, its groups, acknowledging and the rule edits.
  \<^item> \<open>InvTree\<close> (\<open>screens4.jsx\<close>): the tree of locations and batches of storage units; every edit that is offered
    keeps the tree legal.  Of the server it has the statements that store those edits.
  \<^item> \<open>Catalog\<close> (\<open>screens4.jsx\<close>): product names and article numbers; what the check digit detects.

  This theory joins components: writes other than the upload of a receipt are sent exactly while the last load succeeded, and the panel's
  rings are right for the history of every run of the poll.

  Parameters.  The network, the server, the clock and \<open>Date.parse\<close>, random bytes, the Babel compiler and
  the cosine and square root of the layout's real-valued geometry are arguments or HOL's own functions;
  no program text stands behind them here.  No fuel is used where a termination proof exists; loops that
  the code leaves unbounded are partial functions with a proof that they return.

  Not modelled.  The React markup of the screens, the screens of the other files (\<open>app.jsx\<close>, \<open>components.jsx\<close>,
  \<open>icons.jsx\<close>, \<open>screens2.jsx\<close>, \<open>screens3.jsx\<close>, \<open>screens5.jsx\<close> to \<open>screens8.jsx\<close>, \<open>screens-rackwire.jsx\<close>), sorting by
  the collation of the browser and drawing on the DOM canvas: they call the browser, and their local state does not
  outlive a view.  The demonstration fixture \<open>data.jsx\<close>: it is a parameter of the start-up.  The panel's parity loop
  over captured frames, the registration of the service worker and the event that announces new data:
  browser calls.  The C, PHP, Python, SQL and shell parts of the repository: other programs.  Apart
  from the four statements that store the edits of \<open>InvTree\<close> and \<open>ProvEdit\<close> they are met only as the server behind the API.
\<close>

section \<open>Writes and the label of the data\<close>

text \<open>What happens to the page's model after the start-up: a refresh that succeeds or fails, and the
  integrations that arrive late.\<close>

datatype load_event =
    Loaded real real "(string \<times> uval) list"
  | Failed real jval
  | Integrated "jval \<times> freshness" "jval \<times> freshness"

primrec data_step :: "load_event \<Rightarrow> solari \<Rightarrow> solari" where
  "data_step (Loaded attempted now live) s = refreshed_model attempted now live s"
| "data_step (Failed attempted message) s = the (refresh_failed attempted message (Some s))"
| "data_step (Integrated git ca) s = the (applyIntegrations git ca (Some s))"

primrec now_ok :: "load_event \<Rightarrow> bool \<Rightarrow> bool" where
  "now_ok (Loaded attempted now live) b = True"
| "now_ok (Failed attempted message) b = False"
| "now_ok (Integrated git ca) b = b"

lemma map_of_assign: "map_of (assign s upd) k = (case map_of (rev upd) k of Some v \<Rightarrow> Some v | None \<Rightarrow> map_of s k)"
  unfolding assign_def by (induction upd arbitrary: s) (auto simp: map_of_put map_add_def split: option.split)

lemma source_assign: "source_of (assign s upd) = (case map_of (rev upd) ''source'' of Some v \<Rightarrow> v | None \<Rightarrow> source_of s)"
  by (simp add: source_of_def map_of_assign split: option.split)

lemma source_put: "source_of (put k v s) = (if k = ''source'' then v else source_of s)"
  by (simp add: source_of_def map_of_put)

definition label_of :: "solari \<Rightarrow> string" where
  "label_of s = u_str (source_of s)"

lemma label_boot:
  "label_of (snd (boot_model hint other now fixture loaded)) = (if hint \<noteq> ''offline'' \<and> \<not> isl loaded then ''live'' else ''offline'')"
  by (auto simp: boot_model_def useFixture_def applyLive_def label_of_def ustr_def Let_def source_assign source_put
      split: sum.split option.split)

lemma source_refreshed: "source_of (refreshed_model attempted now live s) = ustr ''live''"
  by (simp add: refreshed_model_def Let_def source_assign)

lemma source_failed:
  "source_of (the (refresh_failed attempted message (Some s))) =
     (if source_of s = ustr ''offline'' then ustr ''offline'' else ustr ''stale'')"
  by (simp add: refresh_failed_def Let_def source_assign source_put)

lemma source_integrated: "source_of (the (applyIntegrations git ca (Some s))) = source_of s"
  by (simp add: applyIntegrations_def source_assign)

lemma label_step:
  assumes "(label_of s = ''live'') = b" "source_of s \<in> {ustr ''live'', ustr ''stale'', ustr ''offline''}"
  shows "(label_of (data_step e s) = ''live'') = now_ok e b"
    "source_of (data_step e s) \<in> {ustr ''live'', ustr ''stale'', ustr ''offline''}"
  using assms
  by (cases e; simp add: source_refreshed source_failed source_integrated label_of_def ustr_def)+

lemma label_run:
  "(label_of s = ''live'') = b \<Longrightarrow> source_of s \<in> {ustr ''live'', ustr ''stale'', ustr ''offline''} \<Longrightarrow>
   (label_of (fold data_step es s) = ''live'') = fold now_ok es b"
proof (induction es arbitrary: s b)
  case (Cons e es)
  show ?case using Cons.IH [OF label_step [OF Cons.prems]] by simp
qed simp

lemma source_boot: "source_of (snd (boot_model hint other now fixture loaded)) \<in> {ustr ''live'', ustr ''stale'', ustr ''offline''}"
  by (auto simp: boot_model_def useFixture_def applyLive_def ustr_def Let_def source_assign source_put
      split: sum.split option.split)

text \<open>Property C1. Whatever the start-up and the refreshes that follow bring, a call of the API that writes, and does not
  sign in or out, is sent exactly when the last attempt to load the data succeeded: after a failed start-up or a
  failed refresh it is refused, and the next successful refresh allows it again.  The one exception is the upload of a
  receipt, which is always sent.\<close>

theorem writes_need_live_data:
  assumes "(n, m) \<in> set API" "writes m a"
    "st_source st = Some (label_of (fold data_step es (snd (boot_model hint other now fixture loaded))))"
  shows "fst (call_api base m a ans st) \<noteq> None \<longleftrightarrow>
    n = ''uploadReceipt'' \<or> fold now_ok es (hint \<noteq> ''offline'' \<and> \<not> isl loaded)"
proof -
  have "(label_of (snd (boot_model hint other now fixture loaded)) = ''live'') = (hint \<noteq> ''offline'' \<and> \<not> isl loaded)"
    by (simp add: label_boot)
  from label_run [OF this source_boot, of es] show ?thesis
    unfolding call_sent [OF assms] by simp
qed

definition failed_reload :: api_st where
  "failed_reload = \<lparr>st_csrf = JNull, st_source = Some (label_of (fold data_step [Loaded 1 2 [], Failed 3 (JStr ''timeout'')]
     (snd (boot_model ''auto'' [] 0 [] (Inl NetErr))))), st_inv_gen = 0\<rparr>"

theorem writes_need_live_data_witness:
  "fst (call_api [] (Via (\<lambda>a. post (ep_path (EpNode (a 0)) @ ''/retire'') (confirmed []))) (\<lambda>_. JNum 7) NoAnswer failed_reload) = None"
proof -
  let ?m = "Via (\<lambda>a. post (ep_path (EpNode (a 0)) @ ''/retire'') (confirmed []))" and ?a = "\<lambda>_ :: nat. JNum 7"
  have m: "(''retireNode'', ?m) \<in> set API" by (simp only: API_Via) (simp add: api_member API_fleet_def)
  have w: "writes ?m ?a" by (simp add: writes_def post_def post_with_def is_write_def)
  have s: "st_source failed_reload = Some (label_of (fold data_step [Loaded 1 2 [], Failed 3 (JStr ''timeout'')]
     (snd (boot_model ''auto'' [] 0 [] (Inl NetErr)))))" by (simp add: failed_reload_def)
  show ?thesis using writes_need_live_data [OF m w s, of "[]" NoAnswer] by simp
qed

section \<open>The rings of the panel\<close>

text \<open>Property C2. Whatever the poll has gone through, the rings the panel draws from its history are those of a search
  of the whole history: for each of the 53 slots the sweep picks the latest sample not later than half a
  cadence after the slot, and flags it when it is more than two cadences old.\<close>

theorem panel_rings_from_poll:
  assumes "poll_reach s os" "po_samples s \<noteq> []" "0 \<le> cadenceMs"
  shows "resample_slots (po_samples s) cadenceMs =
    map (\<lambda>i. let slotT = slotTime (sampleMs (last (po_samples s))) cadenceMs i
      in case latest (slotT + cadenceMs / 2) (po_samples s) of
           None \<Rightarrow> (None, False)
         | Some x \<Rightarrow> (Some x, slotT - sampleMs x > 2 * cadenceMs)) [0..<HIST_LEN]"
proof -
  have "sorted_wrt (\<lambda>a b. sampleMs a < sampleMs b) (po_samples s)" using poll_reach_inv [OF assms(1)] by (simp add: poll_inv_def)
  then have "sorted (map sampleMs (po_samples s))"
    by (simp add: sorted_map) (metis (mono_tags, lifting) less_imp_le sorted_wrt_mono_rel)
  from slots_eq_ref [OF this assms(2,3)] show ?thesis by (simp add: slot_ref_def [abs_def])
qed

theorem panel_rings_from_poll_witness:
  "length (resample_slots [JObj [(''ts'', JNum 5)]] 5000) = HIST_LEN"
  using panel_rings_from_poll [OF poll_second, of 5000] by simp

end
